(* ===== verification/Prelude.thy ===== *)
theory Prelude
  imports Main "HOL-Library.Word" "HOL-Library.State_Monad" "HOL-Library.Signed_Division"
begin

text \<open>
  Types and general facts shared by the components: the machine words of the
  target (addresses are 64 bits wide, counts 32), byte memory as a partial map
  whose domain is the allocated bytes, and \<open>cps\<close>, the effect of a list of byte
  copies.  The code generated for a datatype is characterised by such a list, so
  this theory also says when the copies of a list do not interfere.
\<close>

type_synonym byte = "8 word"
type_synonym i32 = "32 word"
type_synonym i64 = "64 word"
type_synonym mem = "i64 \<rightharpoonup> byte"

named_theorems gen_mono \<open>structural facts of code emitters: they only append\<close>
named_theorems vcg \<open>one rule per builder operation for executing emitted code\<close>

section \<open>Lists\<close>

lemma concat_map_single [simp]: "concat (map (\<lambda>x. [f x]) xs) = map f xs"
  by (induction xs) auto

lemma upt_Suc_snoc: "i \<le> j \<Longrightarrow> [i..<Suc j] = [i..<j] @ [j]"
  by simp

lemma those_Some: "(\<forall>x \<in> set xs. f x \<noteq> None) \<Longrightarrow> those (map f xs) = Some (map (\<lambda>x. the (f x)) xs)"
  by (induction xs) auto

lemma those_SomeD: "those xs = Some ys \<Longrightarrow> xs = map Some ys"
  by (induction xs arbitrary: ys) (auto split: option.splits)

section \<open>Words\<close>

lemma of_nat_eq_64:
  "a < 2 ^ 64 \<Longrightarrow> b < 2 ^ 64 \<Longrightarrow> (of_nat a :: i64) = of_nat b \<longleftrightarrow> a = b"
  by (simp add: word_of_nat_eq_iff take_bit_eq_mod)

lemma of_int_eq_64:
  assumes "0 \<le> a" "a < 2 ^ 64" "0 \<le> b" "b < 2 ^ 64"
  shows "(word_of_int a :: i64) = word_of_int b \<longleftrightarrow> a = b"
  using assms by (simp add: word_of_int_eq_iff take_bit_eq_mod)

lemma of_nat_eq_32:
  "a < 2 ^ 32 \<Longrightarrow> b < 2 ^ 32 \<Longrightarrow> (of_nat a :: i32) = of_nat b \<longleftrightarrow> a = b"
  by (simp add: word_of_nat_eq_iff take_bit_eq_mod)

lemma ucast_32_64: "(ucast (w :: i32) :: i64) = of_nat (unat w)"
  by simp

text \<open>C++ division truncates; on the counts of the program it is division.\<close>

lemma sdiv_nonneg: "0 \<le> a \<Longrightarrow> 0 < b \<Longrightarrow> (a :: int) sdiv b = a div b"
  by (cases "a = 0") (auto simp: signed_divide_int_def)

lemma div_times_le: "0 < b \<Longrightarrow> (a :: int) div b * b \<le> a"
  by (simp add: minus_mod_eq_div_mult [symmetric])

lemma sless_unat:
  assumes "0 <s (w :: i32)" shows "0 < unat w" "sint w = int (unat w)" "unat w < 2 ^ 31"
proof -
  have pos: "0 < sint w" using assms by (simp add: word_sless_alt)
  then have b: "\<not> bit (uint w) 31"
    using signed_take_bit_negative_iff [of 31 "uint w"] by (auto simp: sint_uint not_less dest: order.asym)
  have s: "sint w = take_bit 31 (uint w)" using b by (simp add: sint_uint signed_take_bit_eq_if_positive)
  have "take_bit (Suc 31) (uint w) = take_bit 31 (uint w)"
    using b by (simp only: take_bit_Suc_from_most) simp
  moreover have "take_bit (Suc 31) (uint w) = uint w"
    using uint_lt2p [of w] by (intro take_bit_int_eq_self) auto
  ultimately have u: "take_bit 31 (uint w) = uint w" by (rule trans [OF sym])
  have lt: "take_bit 31 (uint w) < 2 ^ 31" by (rule take_bit_int_less_exp)
  have su: "sint w = uint w" using s u by (rule trans)
  then show "sint w = int (unat w)" by simp
  show "0 < unat w" using pos unfolding su by (simp only: unat_eq_nat_uint zero_less_nat_eq)
  have "nat (uint w) < nat (2 ^ 31)" using lt unfolding u by (simp only: nat_less_eq_zless uint_ge_0)
  then show "unat w < 2 ^ 31" unfolding unat_eq_nat_uint by simp
qed

lemma count32:
  assumes "0 < c" "c < 2 ^ 31"
  shows "0 <s (word_of_int c :: i32)" "unat (word_of_int c :: i32) = nat c" "sint (word_of_int c :: i32) = c"
proof -
  have "sint (word_of_int c :: i32) = signed_take_bit 31 (take_bit 32 c)"
    by (simp add: sint_uint uint_word_of_int take_bit_eq_mod)
  also have "\<dots> = signed_take_bit 31 c" using assms by (simp add: take_bit_int_eq_self)
  finally show s: "sint (word_of_int c :: i32) = c"
    using assms by (simp add: signed_take_bit_int_eq_self)
  then show "0 <s (word_of_int c :: i32)" using assms by (simp add: word_sless_alt)
  then show "unat (word_of_int c :: i32) = nat c" using sless_unat(2) s by (metis nat_int)
qed

lemma mult_eq_64:
  assumes "i \<le> n" "0 < k" "n * k < 2 ^ 64"
  shows "(word_of_int (int i * int k) :: i64) = word_of_int (int n * int k) \<longleftrightarrow> i = n"
proof -
  have "i * k < 2 ^ 64" by (rule le_less_trans [OF mult_le_mono1 [OF assms(1)] assms(3)])
  then have "(of_nat (i * k) :: i64) = of_nat (n * k) \<longleftrightarrow> i * k = n * k" using assms(3) by (rule of_nat_eq_64)
  also have "\<dots> \<longleftrightarrow> i = n" using assms(2) by simp
  finally show ?thesis by (simp only: of_nat_mult [symmetric] of_int_of_nat_eq)
qed

lemma unat64: "k < 2 ^ 64 \<Longrightarrow> unat (of_nat k :: i64) = k"
  by (simp add: unat_of_nat take_bit_nat_eq_self)

lemma unat32: "unat (w :: i32) < 2 ^ 32"
  using unsigned_less [of w] by simp

lemma countup:
  assumes "j < unat (w :: i32)" shows "of_nat j + 1 = w \<longleftrightarrow> Suc j = unat w"
proof -
  have "of_nat j + 1 = w \<longleftrightarrow> of_nat (Suc j) = (of_nat (unat w) :: i32)" by (simp add: add.commute)
  also have "\<dots> \<longleftrightarrow> Suc j = unat w"
    using assms unat32 [of w] by (intro of_nat_eq_32) auto
  finally show ?thesis .
qed

lemma countdown:
  assumes "j < unat (w :: i32)" shows "w - of_nat j - 1 = 0 \<longleftrightarrow> Suc j = unat w"
proof -
  have "w - of_nat j - 1 = 0 \<longleftrightarrow> w = of_nat j + 1" by (simp only: diff_diff_add right_minus_eq)
  then have "w - of_nat j - 1 = 0 \<longleftrightarrow> of_nat j + 1 = w" by metis
  then show ?thesis using countup [OF assms] by simp
qed

section \<open>Copies\<close>

text \<open>A copy is a pair of the address written and the address read.\<close>

type_synonym copies = "(i64 \<times> i64) list"

fun cps :: "copies \<Rightarrow> mem \<Rightarrow> mem" where
  "cps [] m = m"
| "cps ((d, s) # L) m = cps L (m(d := m s))"

definition allocated :: "copies \<Rightarrow> mem \<Rightarrow> bool" where
  "allocated L m \<longleftrightarrow> (\<forall>(d, s) \<in> set L. d \<in> dom m \<and> s \<in> dom m)"

definition noalias :: "copies \<Rightarrow> bool" where
  "noalias L \<longleftrightarrow> fst ` set L \<inter> snd ` set L = {}"

definition copyable :: "copies \<Rightarrow> mem \<Rightarrow> bool" where
  "copyable L m \<longleftrightarrow> allocated L m \<and> noalias L"

lemma cps_append [simp]: "cps (L @ L') m = cps L' (cps L m)"
  by (induction L arbitrary: m) auto

lemma allocated_cong_dom: "dom m = dom m' \<Longrightarrow> allocated L m = allocated L m'"
  by (simp add: allocated_def)

lemma dom_cps_allocated: "allocated L m \<Longrightarrow> dom (cps L m) = dom m"
proof (induction L arbitrary: m)
  case (Cons p L)
  obtain d s where p: "p = (d, s)" by fastforce
  have "d \<in> dom m" "s \<in> dom m" and L: "allocated L m"
    using Cons.prems by (auto simp: p allocated_def)
  then have dom: "dom (m(d := m s)) = dom m" by auto
  have "allocated L (m(d := m s))" using L by (simp only: allocated_cong_dom [OF dom])
  from Cons.IH [OF this] dom show ?case by (simp only: p cps.simps)
qed simp

lemma allocated_append [simp]: "allocated (L @ L') m \<longleftrightarrow> allocated L m \<and> allocated L' m"
  by (simp add: allocated_def ball_Un)

lemma noalias_sub: "noalias L \<Longrightarrow> set L' \<subseteq> set L \<Longrightarrow> noalias L'"
  unfolding noalias_def by blast

lemma copyable_append1: "copyable (L @ L') m \<Longrightarrow> copyable L m"
  by (simp add: copyable_def noalias_sub [of "L @ L'" L])

lemma copyable_append2: "copyable (L @ L') m \<Longrightarrow> copyable L' (cps L m)"
  by (simp add: copyable_def dom_cps_allocated allocated_cong_dom [of "cps L m" m] noalias_sub [of "L @ L'" L'])

lemma copyable_nil [simp]: "copyable [] m"
  by (simp add: copyable_def allocated_def noalias_def)

lemma cps_outside: "d \<notin> fst ` set L \<Longrightarrow> cps L m d = m d"
  by (induction L arbitrary: m) auto

text \<open>
  Copies that read no address another one writes can be read off the initial
  memory: the last copy to an address wins.
\<close>

lemma cps_read:
  "noalias L \<Longrightarrow> cps L m d = (case map_of (rev L) d of None \<Rightarrow> m d | Some s \<Rightarrow> m s)"
proof (induction L arbitrary: m)
  case (Cons p L)
  obtain d' s' where p: "p = (d', s')" by fastforce
  have na: "noalias L" using Cons.prems by (rule noalias_sub) auto
  show ?case
  proof (cases "map_of (rev L) d")
    case None
    then show ?thesis by (simp add: p map_add_def Cons.IH [OF na])
  next
    case (Some s)
    then have "(d, s) \<in> set L" by (auto dest: map_of_SomeD)
    then have "s \<in> snd ` set L" by force
    then have "s \<noteq> d'" using Cons.prems by (auto simp: noalias_def p)
    then show ?thesis using Some by (simp add: p map_add_def Cons.IH [OF na])
  qed
qed simp

text \<open>A run of \<open>n\<close> consecutive bytes.\<close>

definition seg :: "i64 \<Rightarrow> i64 \<Rightarrow> nat \<Rightarrow> copies" where
  "seg d s n = map (\<lambda>k. (d + of_nat k, s + of_nat k)) [0..<n]"

lemma seg_0 [simp]: "seg d s 0 = []"
  by (simp add: seg_def)

lemma seg_add: "seg d s (n + k) = seg d s n @ seg (d + of_nat n) (s + of_nat n) k"
proof -
  have "[0..<n + k] = [0..<n] @ map (\<lambda>i. i + n) [0..<k]"
    by (simp only: map_add_upt upt_add_eq_append [of 0 n k] le0 add.commute [of k n])
  then show ?thesis by (simp add: seg_def comp_def algebra_simps del: upt_Suc)
qed

lemma copyable_seg_add: "copyable (seg q p (i + j)) m \<Longrightarrow>
    copyable (seg q p i) m \<and> copyable (seg (q + of_nat i) (p + of_nat i) j) (cps (seg q p i) m)"
  using copyable_append1 copyable_append2 by (simp add: seg_add)

lemma cps_seg_add: "cps (seg (q + of_nat i) (p + of_nat i) j) (cps (seg q p i) m) = cps (seg q p (i + j)) m"
  by (simp add: seg_add)

end
