(* ===== verification/LLVM_IR.thy ===== *)
theory LLVM_IR
  imports Prelude
begin

text \<open>
  The part of the LLVM intermediate language that the code generators emit, with
  its semantics as the LLVM language reference gives it: basic blocks with phi
  nodes evaluated simultaneously on entry, registers assigned once, 32 and 64 bit
  integers that wrap around, byte-addressed memory.  Behaviour the reference
  leaves undefined (an access outside the allocated bytes, a phi node without an
  entry for the predecessor, an operand of the wrong type, a memcpy between
  overlapping regions) has no successor state.
\<close>

datatype operand = CI32 i32 | CI64 i64 | Reg nat | GlobalRef nat

datatype val = VI1 bool | VI32 i32 | VI64 i64 | VPtr i64 | VVec "byte list" | VGlob nat i64

datatype instr =
    PtrToInt nat operand
  | IntToPtr nat operand
  | BitCast nat operand
  | Add nat operand operand
  | Sub nat operand operand
  | Mul nat operand operand
  | ZExt nat operand
  | ICmpEQ nat operand operand
  | LoadVec nat operand nat
  | StoreVec operand operand
  | MemCpy operand operand operand
  | GEP nat operand operand
  | LoadI32 nat operand

datatype terminator = Br nat | CondBr operand nat nat | RetVoid

record block =
  phis :: "(nat \<times> (operand \<times> nat) list) list"
  body :: "instr list"
  terminator :: "terminator option"

type_synonym func = "block list"
type_synonym env = "nat \<rightharpoonup> val"
type_synonym globals = "i32 list list"

datatype config = Run nat nat env mem | Done mem

section \<open>Operands and memory\<close>

fun ev :: "env \<Rightarrow> operand \<Rightarrow> val option" where
  "ev e (CI32 w) = Some (VI32 w)"
| "ev e (CI64 w) = Some (VI64 w)"
| "ev e (Reg r) = e r"
| "ev e (GlobalRef g) = Some (VGlob g 0)"

definition load_bytes :: "mem \<Rightarrow> i64 \<Rightarrow> nat \<Rightarrow> byte list option" where
  "load_bytes m a n = those (map (\<lambda>k. m (a + of_nat k)) [0..<n])"

fun store_bytes :: "mem \<Rightarrow> i64 \<Rightarrow> byte list \<Rightarrow> mem option" where
  "store_bytes m a [] = Some m"
| "store_bytes m a (b # bs) =
     (case m a of None \<Rightarrow> None | Some _ \<Rightarrow> store_bytes (m(a \<mapsto> b)) (a + 1) bs)"

text \<open>Two runs of \<open>n\<close> bytes overlap if one starts inside the other.\<close>

definition overlap :: "i64 \<Rightarrow> i64 \<Rightarrow> nat \<Rightarrow> bool" where
  "overlap d s n \<longleftrightarrow> unat (d - s) < n \<or> unat (s - d) < n"

definition mem_copy :: "mem \<Rightarrow> i64 \<Rightarrow> i64 \<Rightarrow> nat \<Rightarrow> mem option" where
  "mem_copy m d s n =
     (if overlap d s n then None
      else case load_bytes m s n of None \<Rightarrow> None | Some bs \<Rightarrow> store_bytes m d bs)"

section \<open>Instructions\<close>

fun exec_instr :: "globals \<Rightarrow> instr \<Rightarrow> env \<Rightarrow> mem \<Rightarrow> (env \<times> mem) option" where
  "exec_instr G (PtrToInt r a) e m =
     (case ev e a of Some (VPtr p) \<Rightarrow> Some (e(r \<mapsto> VI64 p), m) | _ \<Rightarrow> None)"
| "exec_instr G (IntToPtr r a) e m =
     (case ev e a of Some (VI64 w) \<Rightarrow> Some (e(r \<mapsto> VPtr w), m) | _ \<Rightarrow> None)"
| "exec_instr G (BitCast r a) e m =
     (case ev e a of Some (VPtr p) \<Rightarrow> Some (e(r \<mapsto> VPtr p), m) | _ \<Rightarrow> None)"
| "exec_instr G (Add r a b) e m =
     (case (ev e a, ev e b) of
        (Some (VI64 x), Some (VI64 y)) \<Rightarrow> Some (e(r \<mapsto> VI64 (x + y)), m)
      | (Some (VI32 x), Some (VI32 y)) \<Rightarrow> Some (e(r \<mapsto> VI32 (x + y)), m)
      | _ \<Rightarrow> None)"
| "exec_instr G (Sub r a b) e m =
     (case (ev e a, ev e b) of
        (Some (VI64 x), Some (VI64 y)) \<Rightarrow> Some (e(r \<mapsto> VI64 (x - y)), m)
      | (Some (VI32 x), Some (VI32 y)) \<Rightarrow> Some (e(r \<mapsto> VI32 (x - y)), m)
      | _ \<Rightarrow> None)"
| "exec_instr G (Mul r a b) e m =
     (case (ev e a, ev e b) of
        (Some (VI64 x), Some (VI64 y)) \<Rightarrow> Some (e(r \<mapsto> VI64 (x * y)), m)
      | (Some (VI32 x), Some (VI32 y)) \<Rightarrow> Some (e(r \<mapsto> VI32 (x * y)), m)
      | _ \<Rightarrow> None)"
| "exec_instr G (ZExt r a) e m =
     (case ev e a of Some (VI32 w) \<Rightarrow> Some (e(r \<mapsto> VI64 (ucast w)), m) | _ \<Rightarrow> None)"
| "exec_instr G (ICmpEQ r a b) e m =
     (case (ev e a, ev e b) of
        (Some (VI64 x), Some (VI64 y)) \<Rightarrow> Some (e(r \<mapsto> VI1 (x = y)), m)
      | (Some (VI32 x), Some (VI32 y)) \<Rightarrow> Some (e(r \<mapsto> VI1 (x = y)), m)
      | _ \<Rightarrow> None)"
| "exec_instr G (LoadVec r a n) e m =
     (case ev e a of
        Some (VPtr p) \<Rightarrow> map_option (\<lambda>bs. (e(r \<mapsto> VVec bs), m)) (load_bytes m p n)
      | _ \<Rightarrow> None)"
| "exec_instr G (StoreVec v a) e m =
     (case (ev e v, ev e a) of
        (Some (VVec bs), Some (VPtr p)) \<Rightarrow> map_option (\<lambda>m'. (e, m')) (store_bytes m p bs)
      | _ \<Rightarrow> None)"
| "exec_instr G (MemCpy d s n) e m =
     (case (ev e d, ev e s, ev e n) of
        (Some (VPtr p), Some (VPtr q), Some (VI64 k)) \<Rightarrow>
          map_option (\<lambda>m'. (e, m')) (mem_copy m p q (unat k))
      | _ \<Rightarrow> None)"
| "exec_instr G (GEP r a i) e m =
     (case (ev e a, ev e i) of
        (Some (VGlob g o'), Some (VI64 k)) \<Rightarrow> Some (e(r \<mapsto> VGlob g (o' + k)), m)
      | _ \<Rightarrow> None)"
| "exec_instr G (LoadI32 r a) e m =
     (case ev e a of
        Some (VGlob g k) \<Rightarrow>
          (if g < length G \<and> unat k < length (G ! g)
           then Some (e(r \<mapsto> VI32 (G ! g ! unat k)), m) else None)
      | _ \<Rightarrow> None)"

section \<open>Control flow\<close>

fun incoming :: "nat \<Rightarrow> (operand \<times> nat) list \<Rightarrow> operand option" where
  "incoming p [] = None"
| "incoming p ((a, b) # xs) = (if b = p then Some a else incoming p xs)"

definition phi_value :: "nat \<Rightarrow> env \<Rightarrow> (operand \<times> nat) list \<Rightarrow> val option" where
  "phi_value p e inc = Option.bind (incoming p inc) (ev e)"

text \<open>All phi nodes of a block read the environment of the branch.\<close>

definition enter :: "func \<Rightarrow> nat \<Rightarrow> nat \<Rightarrow> env \<Rightarrow> mem \<Rightarrow> config option" where
  "enter F p b e m =
     (if b < length F then
        (case those (map (\<lambda>(r, inc). phi_value p e inc) (phis (F ! b))) of
           None \<Rightarrow> None
         | Some vs \<Rightarrow> Some (Run b 0 (e(map fst (phis (F ! b)) [\<mapsto>] vs)) m))
      else None)"

fun step :: "globals \<Rightarrow> func \<Rightarrow> config \<Rightarrow> config option" where
  "step G F (Done m) = None"
| "step G F (Run b i e m) =
     (if b < length F then
        (if i < length (body (F ! b)) then
           map_option (\<lambda>(e', m'). Run b (Suc i) e' m') (exec_instr G (body (F ! b) ! i) e m)
         else
           (case terminator (F ! b) of
              Some (Br t) \<Rightarrow> enter F b t e m
            | Some (CondBr c t f) \<Rightarrow>
                (case ev e c of
                   Some (VI1 x) \<Rightarrow> enter F b (if x then t else f) e m
                 | _ \<Rightarrow> None)
            | Some RetVoid \<Rightarrow> Some (Done m)
            | None \<Rightarrow> None))
      else None)"

inductive steps :: "globals \<Rightarrow> func \<Rightarrow> config \<Rightarrow> config \<Rightarrow> bool" for G F where
  steps_refl: "steps G F c c"
| steps_step: "step G F c = Some c' \<Longrightarrow> steps G F c' c'' \<Longrightarrow> steps G F c c''"

fun run :: "globals \<Rightarrow> func \<Rightarrow> nat \<Rightarrow> config \<Rightarrow> config option" where
  "run G F 0 c = (case c of Done m \<Rightarrow> Some c | _ \<Rightarrow> None)"
| "run G F (Suc n) c = (case c of Done m \<Rightarrow> Some c | _ \<Rightarrow> Option.bind (step G F c) (run G F n))"

text \<open>A call of an emitted function with its three arguments in registers 0 to 2.\<close>

definition call_env :: "i64 \<Rightarrow> i32 \<Rightarrow> i64 \<Rightarrow> env" where
  "call_env p n q = [0 \<mapsto> VPtr p, 1 \<mapsto> VI32 n, 2 \<mapsto> VPtr q]"

definition call :: "globals \<Rightarrow> func \<Rightarrow> nat \<Rightarrow> i64 \<Rightarrow> i32 \<Rightarrow> i64 \<Rightarrow> mem \<Rightarrow> mem option" where
  "call G F k p n q m =
     (case run G F k (Run 0 0 (call_env p n q) m) of Some (Done m') \<Rightarrow> Some m' | _ \<Rightarrow> None)"

lemma steps_trans: "steps G F a b \<Longrightarrow> steps G F b c \<Longrightarrow> steps G F a c"
  by (induction rule: steps.induct) (auto intro: steps_step)

lemma steps_one: "step G F c = Some c' \<Longrightarrow> steps G F c c'"
  by (blast intro: steps.intros)

lemma steps_run: "steps G F c c' \<Longrightarrow> c' = Done m \<Longrightarrow> \<exists>k. \<forall>j \<ge> k. run G F j c = Some (Done m)"
proof (induction rule: steps.induct)
  case (steps_refl c)
  have "run G F j (Done m) = Some (Done m)" for j by (cases j) auto
  then show ?case using steps_refl by blast
next
  case (steps_step c c1 c2)
  then obtain k where k: "\<forall>j \<ge> k. run G F j c1 = Some (Done m)" by blast
  have "run G F j c = Some (Done m)" if "j \<ge> Suc k" for j
  proof -
    obtain i where j: "j = Suc i" and "i \<ge> k" using \<open>j \<ge> Suc k\<close> by (cases j) auto
    moreover obtain b n e m' where "c = Run b n e m'"
      using steps_step.hyps(1) by (cases c) auto
    ultimately show ?thesis using k steps_step.hyps(1) by simp
  qed
  then show ?case by blast
qed

section \<open>Memory operations as copies\<close>

lemma load_bytes_Some:
  "(\<forall>k < n. a + of_nat k \<in> dom m) \<Longrightarrow>
     load_bytes m a n = Some (map (\<lambda>k. the (m (a + of_nat k))) [0..<n])"
  unfolding load_bytes_def by (rule those_Some) auto

lemma store_bytes_Some:
  assumes "\<forall>k < length bs. a + of_nat k \<in> dom m"
  shows "\<exists>m'. store_bytes m a bs = Some m'"
  using assms
proof (induction bs arbitrary: m a)
  case (Cons b bs)
  have "a \<in> dom m" using Cons.prems by force
  moreover have "\<forall>k < length bs. a + 1 + of_nat k \<in> dom (m(a \<mapsto> b))"
  proof (intro allI impI)
    fix k assume "k < length bs"
    then have "a + of_nat (Suc k) \<in> dom m" using Cons.prems by (metis length_Cons Suc_less_eq)
    then show "a + 1 + of_nat k \<in> dom (m(a \<mapsto> b))" by (simp add: algebra_simps)
  qed
  ultimately show ?case using Cons.IH by (auto simp: dom_def)
qed simp

text \<open>
  Storing the bytes read from \<open>s\<close> is the run of copies from \<open>s\<close> to \<open>d\<close>, when the
  two runs share no byte.
\<close>

lemma store_loaded:
  assumes "allocated (seg d s n) m" "noalias (seg d s n)" "\<forall>k < n. m (s + of_nat k) = Some (bs ! k)"
    "length bs = n"
  shows "store_bytes m d bs = Some (cps (seg d s n) m)"
  using assms
proof (induction n arbitrary: m d s bs)
  case (Suc n)
  obtain b bs' where bs: "bs = b # bs'" "length bs' = n" using Suc.prems(4) by (cases bs) auto
  have split: "seg d s (Suc n) = (d, s) # seg (d + 1) (s + 1) n"
    using seg_add [of d s 1 n] by (simp add: seg_def)
  have d: "d \<in> dom m" and s: "m s = Some b"
    using Suc.prems bs by (auto simp: split allocated_def)
  let ?m = "m(d := m s)"
  have dom: "dom ?m = dom m" using d s by auto
  have al: "allocated (seg (d + 1) (s + 1) n) ?m"
    using Suc.prems(1) dom by (auto simp: split allocated_def)
  have na: "noalias (seg (d + 1) (s + 1) n)"
    using Suc.prems(2) by (rule noalias_sub) (simp add: split subset_insertI)
  have rd: "\<forall>k < n. ?m (s + 1 + of_nat k) = Some (bs' ! k)"
  proof (intro allI impI)
    fix k assume k: "k < n"
    then have "m (s + of_nat (Suc k)) = Some (bs ! Suc k)" using Suc.prems(3) by blast
    moreover have "s + of_nat (Suc k) \<noteq> d"
    proof
      assume eq: "s + of_nat (Suc k) = d"
      have "s + of_nat (Suc k) \<in> snd ` set (seg d s (Suc n))"
        using k unfolding seg_def by (auto simp: image_image simp del: of_nat_Suc upt_Suc intro!: image_eqI [where x = "Suc k"])
      moreover have "d \<in> fst ` set (seg d s (Suc n))" by (simp add: split)
      ultimately show False using Suc.prems(2) eq by (auto simp: noalias_def)
    qed
    ultimately show "?m (s + 1 + of_nat k) = Some (bs' ! k)" using bs by (simp add: algebra_simps)
  qed
  have "store_bytes ?m (d + 1) bs' = Some (cps (seg (d + 1) (s + 1) n) ?m)"
    by (rule Suc.IH [OF al na rd bs(2)])
  then show ?case using d s bs by (auto simp: split)
qed simp

lemma load_store_seg:
  assumes "copyable (seg d s n) m"
  obtains bs where "load_bytes m s n = Some bs" "store_bytes m d bs = Some (cps (seg d s n) m)"
proof -
  have al: "\<forall>k < n. s + of_nat k \<in> dom m"
    using assms by (auto simp: copyable_def allocated_def seg_def)
  let ?bs = "map (\<lambda>k. the (m (s + of_nat k))) [0..<n]"
  have "store_bytes m d ?bs = Some (cps (seg d s n) m)"
    using assms al by (intro store_loaded) (auto simp: copyable_def)
  then show ?thesis using that load_bytes_Some [OF al] by blast
qed

lemma noalias_not_overlap:
  assumes "noalias (seg d s n)" shows "\<not> overlap d s n"
proof
  assume "overlap d s n"
  then consider "unat (d - s) < n" | "unat (s - d) < n" by (auto simp: overlap_def)
  then show False
  proof cases
    case 1
    then have "d \<in> snd ` set (seg d s n)" "d \<in> fst ` set (seg d s n)"
      by (force simp: seg_def image_image intro: image_eqI [where x = "unat (d - s)"]
          image_eqI [where x = "0 :: nat"])+
    then show False using assms by (auto simp: noalias_def)
  next
    case 2
    then have "s \<in> snd ` set (seg d s n)" "s \<in> fst ` set (seg d s n)"
      by (force simp: seg_def image_image intro: image_eqI [where x = "unat (s - d)"]
          image_eqI [where x = "0 :: nat"])+
    then show False using assms by (auto simp: noalias_def)
  qed
qed

lemma mem_copy_seg:
  assumes "copyable (seg d s n) m"
  shows "mem_copy m d s n = Some (cps (seg d s n) m)"
proof -
  obtain bs where "load_bytes m s n = Some bs" "store_bytes m d bs = Some (cps (seg d s n) m)"
    using assms by (rule load_store_seg)
  moreover have "\<not> overlap d s n"
    using assms by (simp add: copyable_def noalias_not_overlap)
  ultimately show ?thesis by (simp add: mem_copy_def)
qed

end
