(* ===== verification/IR_Builder.thy ===== *)
theory IR_Builder
  imports LLVM_IR "HOL-Library.Sublist"
begin

text \<open>
  The state of the global \<open>Builder\<close> of codegen_common.cpp (the function under
  construction and the insertion point) and its operations as a state monad, the
  helpers of codegen_common.cpp, and the two facts every code generator is proved
  to have: \<open>gen_ok\<close>, it only appends to the function, and \<open>triple\<close>, executing what
  it appended has a given effect, in every function that contains it.
  LLVM's builder folds an operation on two constants into a constant; the model
  emits the instruction, which computes the same value.
\<close>

record builder =
  blocks :: "block list"
  cur :: nat
  nextreg :: nat

type_synonym 'a gen = "(builder, 'a) state"

section \<open>Builder operations\<close>

definition empty_block :: block where
  "empty_block = \<lparr>phis = [], body = [], terminator = None\<rparr>"

definition append_instr :: "instr \<Rightarrow> builder \<Rightarrow> builder" where
  "append_instr i B = B\<lparr>blocks := (blocks B)
     [cur B := (blocks B ! cur B)\<lparr>body := body (blocks B ! cur B) @ [i]\<rparr>]\<rparr>"

definition set_terminator :: "terminator \<Rightarrow> builder \<Rightarrow> builder" where
  "set_terminator t B = B\<lparr>blocks := (blocks B)
     [cur B := (blocks B ! cur B)\<lparr>terminator := Some t\<rparr>]\<rparr>"

definition emit :: "(nat \<Rightarrow> instr) \<Rightarrow> operand gen" where
  "emit f = State (\<lambda>B. (Reg (nextreg B), (append_instr (f (nextreg B)) B)\<lparr>nextreg := Suc (nextreg B)\<rparr>))"

definition emit_void :: "instr \<Rightarrow> unit gen" where
  "emit_void i = State (\<lambda>B. ((), append_instr i B))"

definition CreatePtrToInt :: "operand \<Rightarrow> operand gen" where
  "CreatePtrToInt a = emit (\<lambda>r. PtrToInt r a)"

definition CreateIntToPtr :: "operand \<Rightarrow> operand gen" where
  "CreateIntToPtr a = emit (\<lambda>r. IntToPtr r a)"

definition CreateBitCast :: "operand \<Rightarrow> operand gen" where
  "CreateBitCast a = emit (\<lambda>r. BitCast r a)"

definition CreateAdd :: "operand \<Rightarrow> operand \<Rightarrow> operand gen" where
  "CreateAdd a b = emit (\<lambda>r. Add r a b)"

definition CreateSub :: "operand \<Rightarrow> operand \<Rightarrow> operand gen" where
  "CreateSub a b = emit (\<lambda>r. Sub r a b)"

definition CreateMul :: "operand \<Rightarrow> operand \<Rightarrow> operand gen" where
  "CreateMul a b = emit (\<lambda>r. Mul r a b)"

definition CreateZExt :: "operand \<Rightarrow> operand gen" where
  "CreateZExt a = emit (\<lambda>r. ZExt r a)"

definition CreateICmpEQ :: "operand \<Rightarrow> operand \<Rightarrow> operand gen" where
  "CreateICmpEQ a b = emit (\<lambda>r. ICmpEQ r a b)"

definition CreateAlignedLoad :: "operand \<Rightarrow> nat \<Rightarrow> operand gen" where
  "CreateAlignedLoad a n = emit (\<lambda>r. LoadVec r a n)"

definition CreateAlignedStore :: "operand \<Rightarrow> operand \<Rightarrow> unit gen" where
  "CreateAlignedStore v a = emit_void (StoreVec v a)"

definition CreateMemCpy :: "operand \<Rightarrow> operand \<Rightarrow> operand \<Rightarrow> unit gen" where
  "CreateMemCpy d s n = emit_void (MemCpy d s n)"

definition CreateGEP :: "operand \<Rightarrow> operand \<Rightarrow> operand gen" where
  "CreateGEP a i = emit (\<lambda>r. GEP r a i)"

definition CreateLoad :: "operand \<Rightarrow> operand gen" where
  "CreateLoad a = emit (\<lambda>r. LoadI32 r a)"

definition GetInsertBlock :: "nat gen" where
  "GetInsertBlock = State (\<lambda>B. (cur B, B))"

definition SetInsertPoint :: "nat \<Rightarrow> unit gen" where
  "SetInsertPoint b = State (\<lambda>B. ((), B\<lparr>cur := b\<rparr>))"

definition CreateBlock :: "nat gen" where
  "CreateBlock = State (\<lambda>B. (length (blocks B), B\<lparr>blocks := blocks B @ [empty_block]\<rparr>))"

definition CreateBr :: "nat \<Rightarrow> unit gen" where
  "CreateBr t = State (\<lambda>B. ((), set_terminator (Br t) B))"

definition CreateCondBr :: "operand \<Rightarrow> nat \<Rightarrow> nat \<Rightarrow> unit gen" where
  "CreateCondBr c t f = State (\<lambda>B. ((), set_terminator (CondBr c t f) B))"

definition CreateRetVoid :: "unit gen" where
  "CreateRetVoid = State (\<lambda>B. ((), set_terminator RetVoid B))"

definition CreatePHI :: "operand gen" where
  "CreatePHI = State (\<lambda>B. (Reg (nextreg B), B\<lparr>nextreg := Suc (nextreg B), blocks := (blocks B)
     [cur B := (blocks B ! cur B)\<lparr>phis := phis (blocks B ! cur B) @ [(nextreg B, [])]\<rparr>]\<rparr>))"

text \<open>\<open>phi->addIncoming(a, p)\<close>; a phi node is known by its register.\<close>

definition add_entry :: "operand \<Rightarrow> operand \<Rightarrow> nat \<Rightarrow> block \<Rightarrow> block" where
  "add_entry r a p b =
     b\<lparr>phis := map (\<lambda>(r', inc). (r', if Reg r' = r then inc @ [(a, p)] else inc)) (phis b)\<rparr>"

definition addIncoming :: "operand \<Rightarrow> operand \<Rightarrow> nat \<Rightarrow> unit gen" where
  "addIncoming r a p = State (\<lambda>B. ((), B\<lparr>blocks := map (add_entry r a p) (blocks B)\<rparr>))"

section \<open>Helpers of codegen\_common.cpp\<close>

definition constNode :: "int \<Rightarrow> operand" where
  "constNode v = CI32 (word_of_int v)"

definition constNode_long :: "int \<Rightarrow> operand" where
  "constNode_long v = CI64 (word_of_int v)"

definition multNode :: "int \<Rightarrow> operand \<Rightarrow> operand gen" where
  "multNode op1 op2 = do {
     let op1Node = constNode_long op1;
     op2Node \<leftarrow> CreateZExt op2;
     CreateMul op1Node op2Node }"

text \<open>The element types of the vector registers and the bytes each occupies.\<close>

datatype llvm_type = LLVM_INT8 | LLVM_INT32 | LLVM_FLOAT | LLVM_DOUBLE

fun store_size :: "llvm_type \<Rightarrow> nat" where
  "store_size LLVM_INT8 = 1"
| "store_size LLVM_INT32 = 4"
| "store_size LLVM_FLOAT = 4"
| "store_size LLVM_DOUBLE = 8"

datatype PrimitiveType = BYTE | CHARACTER | DOUBLE | FLOAT | INTEGER

fun toLLVMType :: "PrimitiveType \<Rightarrow> llvm_type" where
  "toLLVMType DOUBLE = LLVM_DOUBLE"
| "toLLVMType INTEGER = LLVM_INT32"
| "toLLVMType FLOAT = LLVM_FLOAT"
| "toLLVMType BYTE = LLVM_INT8"
| "toLLVMType CHARACTER = LLVM_INT8"

definition vmove :: "operand \<Rightarrow> operand \<Rightarrow> int \<Rightarrow> llvm_type \<Rightarrow> unit gen" where
  "vmove dst src cnt elemtype = do {
     in_vec \<leftarrow> CreateBitCast src;
     out_vec \<leftarrow> CreateBitCast dst;
     elems \<leftarrow> CreateAlignedLoad in_vec (nat cnt * store_size elemtype);
     CreateAlignedStore elems out_vec }"

definition incrementPtr :: "operand \<Rightarrow> int \<Rightarrow> operand gen" where
  "incrementPtr ptr byteInc = do {
     addr \<leftarrow> CreatePtrToInt ptr;
     newaddr \<leftarrow> CreateAdd addr (constNode_long byteInc);
     CreateIntToPtr newaddr }"

section \<open>The shape of the emitted loops\<close>

text \<open>
  Every loop the generators emit is built by the same calls: a new block, a branch
  to it, its phi nodes with their entry for the block before (\<open>do_while\<close> up to the
  call of the body), the body, then a block to leave to, the conditional branch,
  and the phi entries for the back edge.  The body returns the block it names as
  the origin of the back edge, the next values of the phi nodes and the exit test.
  The result is the list of those next values, which the code after a loop may use.
  The entries of different phi nodes may be added in any order, so one definition
  serves the emitters that add them before the conditional branch or after it.
\<close>

fun create_phis :: "nat \<Rightarrow> operand list \<Rightarrow> operand list gen" where
  "create_phis p [] = State_Monad.return []"
| "create_phis p (a # as) = do {
     r \<leftarrow> CreatePHI;
     addIncoming r a p;
     rs \<leftarrow> create_phis p as;
     State_Monad.return (r # rs) }"

fun add_backedges :: "nat \<Rightarrow> operand list \<Rightarrow> operand list \<Rightarrow> unit gen" where
  "add_backedges p (r # rs) (a # as) = do { addIncoming r a p; add_backedges p rs as }"
| "add_backedges p _ _ = State_Monad.return ()"

definition do_while ::
  "operand list \<Rightarrow> (nat \<Rightarrow> operand list \<Rightarrow> (nat \<times> operand list \<times> operand) gen) \<Rightarrow> operand list gen" where
  "do_while inits loop_body = do {
     preheader \<leftarrow> GetInsertBlock;
     loop \<leftarrow> CreateBlock;
     CreateBr loop;
     SetInsertPoint loop;
     rs \<leftarrow> create_phis preheader inits;
     (origin, nexts, exit_cond) \<leftarrow> loop_body loop rs;
     after \<leftarrow> CreateBlock;
     CreateCondBr exit_cond after loop;
     SetInsertPoint after;
     add_backedges origin rs nexts;
     State_Monad.return nexts }"

end
