(* ===== verification/Datatypes.thy ===== *)
theory Datatypes
  imports IR_Builder
begin

text \<open>
  The class hierarchy of ddt\_jit.hpp and ddt\_jit.cpp: the eight datatypes with the
  fields the code stores, their constructors, getters and \<open>clone\<close>.  A C++
  \<open>int\<close> is an integer: the model is exact while no \<open>int\<close> computation overflows,
  which the language leaves undefined.  The places where the code converts a
  \<open>long\<close> to an \<open>int\<close> truncate, as the conversion does.
\<close>

record dims =
  dsize :: int
  lower_bound :: int
  upper_bound :: int
  true_lower_bound :: int
  true_upper_bound :: int

datatype DatatypeName =
  PRIMITIVE | CONTIGUOUS | VECTOR | HVECTOR | INDEXEDBLOCK | HINDEXED | STRUCT | RESIZED

datatype ddt =
    Primitive dims PrimitiveType
  | Contiguous dims int ddt
  | Vector dims int int int ddt
  | HVector dims int int int ddt
  | IndexedBlock dims int int "int list" ddt "nat option"
  | HIndexed dims int "int list" "int list" ddt
  | Struct dims int "int list" "int list" "ddt list"
  | Resized dims ddt

definition int_of_long :: "int \<Rightarrow> int" where
  "int_of_long x = signed_take_bit 31 x"

lemma int_of_long_id: "- (2 ^ 31) \<le> x \<Longrightarrow> x < 2 ^ 31 \<Longrightarrow> int_of_long x = x"
  by (simp add: int_of_long_def signed_take_bit_int_eq_self)

section \<open>Getters\<close>

fun dims_of :: "ddt \<Rightarrow> dims" where
  "dims_of (Primitive d _) = d"
| "dims_of (Contiguous d _ _) = d"
| "dims_of (Vector d _ _ _ _) = d"
| "dims_of (HVector d _ _ _ _) = d"
| "dims_of (IndexedBlock d _ _ _ _ _) = d"
| "dims_of (HIndexed d _ _ _ _) = d"
| "dims_of (Struct d _ _ _ _) = d"
| "dims_of (Resized d _) = d"

definition getExtent :: "ddt \<Rightarrow> int" where
  "getExtent t = upper_bound (dims_of t) - lower_bound (dims_of t)"

definition getTrueExtent :: "ddt \<Rightarrow> int" where
  "getTrueExtent t = true_upper_bound (dims_of t) - true_lower_bound (dims_of t)"

definition getSize :: "ddt \<Rightarrow> int" where
  "getSize t = dsize (dims_of t)"

definition getLowerBound :: "ddt \<Rightarrow> int" where
  "getLowerBound t = lower_bound (dims_of t)"

definition getUpperBound :: "ddt \<Rightarrow> int" where
  "getUpperBound t = upper_bound (dims_of t)"

definition getTrueUpperBound :: "ddt \<Rightarrow> int" where
  "getTrueUpperBound t = true_upper_bound (dims_of t)"

text \<open>Only the first two classes return the field of that name.\<close>

fun getTrueLowerBound :: "ddt \<Rightarrow> int" where
  "getTrueLowerBound (Primitive d _) = true_lower_bound d"
| "getTrueLowerBound (Contiguous d _ _) = true_lower_bound d"
| "getTrueLowerBound t = lower_bound (dims_of t)"

fun getDatatypeName :: "ddt \<Rightarrow> DatatypeName" where
  "getDatatypeName (Primitive _ _) = PRIMITIVE"
| "getDatatypeName (Contiguous _ _ _) = CONTIGUOUS"
| "getDatatypeName (Vector _ _ _ _ _) = VECTOR"
| "getDatatypeName (HVector _ _ _ _ _) = HVECTOR"
| "getDatatypeName (IndexedBlock _ _ _ _ _ _) = INDEXEDBLOCK"
| "getDatatypeName (HIndexed _ _ _ _ _) = HINDEXED"
| "getDatatypeName (Struct _ _ _ _ _) = STRUCT"
| "getDatatypeName (Resized _ _) = RESIZED"

fun getSubtypes :: "ddt \<Rightarrow> ddt list" where
  "getSubtypes (Primitive _ _) = []"
| "getSubtypes (Contiguous _ _ b) = [b]"
| "getSubtypes (Vector _ _ _ _ b) = [b]"
| "getSubtypes (HVector _ _ _ _ b) = [b]"
| "getSubtypes (IndexedBlock _ _ _ _ b _) = [b]"
| "getSubtypes (HIndexed _ _ _ _ b) = [b]"
| "getSubtypes (Struct _ _ _ _ bs) = bs"
| "getSubtypes (Resized _ b) = [b]"

section \<open>Constructors\<close>

text \<open>
  A constructor computes the bounds from its argument and stores a clone of it; the
  clone is the second argument of the functions \<open>new_...\<close>, from which the constructors
  and \<open>clone\<close> are defined below.
\<close>

definition new_Primitive :: "PrimitiveType \<Rightarrow> ddt" where
  "new_Primitive type =
     (let sz = int (store_size (toLLVMType type))
      in Primitive \<lparr>dsize = sz, lower_bound = 0, upper_bound = sz,
           true_lower_bound = 0, true_upper_bound = sz\<rparr> type)"

definition new_Contiguous :: "int \<Rightarrow> ddt \<Rightarrow> ddt \<Rightarrow> ddt" where
  "new_Contiguous count basetype cloned =
     (let basetype_ub = getLowerBound basetype + getExtent basetype
      in Contiguous \<lparr>dsize = count * getSize cloned,
           lower_bound = getLowerBound basetype,
           upper_bound = basetype_ub + getExtent basetype * (count - 1),
           true_lower_bound = getTrueLowerBound basetype,
           true_upper_bound = getTrueUpperBound basetype + getExtent basetype * (count - 1)\<rparr> count cloned)"

definition new_Vector :: "int \<Rightarrow> int \<Rightarrow> int \<Rightarrow> ddt \<Rightarrow> ddt \<Rightarrow> ddt" where
  "new_Vector count blocklen stride basetype cloned =
     (let last = (stride * (count - 1) + blocklen - 1) * getExtent basetype;
          sz = count * blocklen * getSize cloned
      in Vector (if stride > 0 then
           \<lparr>dsize = sz,
            lower_bound = getLowerBound basetype,
            upper_bound = getUpperBound basetype + last,
            true_lower_bound = getTrueLowerBound basetype,
            true_upper_bound = getTrueUpperBound basetype + last\<rparr>
         else
           \<lparr>dsize = sz,
            lower_bound = getUpperBound basetype + last,
            upper_bound = blocklen * getExtent basetype,
            true_lower_bound = getUpperBound basetype + last,
            true_upper_bound = blocklen * getTrueExtent basetype\<rparr>)
         count blocklen stride cloned)"

definition new_HVector :: "int \<Rightarrow> int \<Rightarrow> int \<Rightarrow> ddt \<Rightarrow> ddt \<Rightarrow> ddt" where
  "new_HVector count blocklen stride basetype cloned =
     (let last = stride * (count - 1) + (blocklen - 1) * getExtent basetype;
          sz = count * blocklen * getSize cloned
      in HVector (if count = 0 then
           \<lparr>dsize = sz, lower_bound = 0, upper_bound = 0, true_lower_bound = 0, true_upper_bound = 0\<rparr>
         else if stride > 0 then
           \<lparr>dsize = sz,
            lower_bound = getLowerBound basetype,
            upper_bound = getUpperBound basetype + last,
            true_lower_bound = getTrueLowerBound basetype,
            true_upper_bound = getTrueUpperBound basetype + last\<rparr>
         else
           \<lparr>dsize = sz,
            lower_bound = getUpperBound basetype + (stride * (count - 1) + blocklen - 1) * getExtent basetype,
            upper_bound = blocklen * getExtent basetype,
            true_lower_bound = getUpperBound basetype + last,
            true_upper_bound = blocklen * getTrueExtent basetype\<rparr>)
         count blocklen stride cloned)"

text \<open>The loops of the constructors that widen the bounds block by block.\<close>

fun widen :: "int \<times> int \<Rightarrow> (int \<times> int) list \<Rightarrow> int \<times> int" where
  "widen (lb, ub) [] = (lb, ub)"
| "widen (lb, ub) ((tmp_lb, tmp_ub) # bs) =
     widen (if tmp_lb < lb then tmp_lb else lb, if tmp_ub > ub then tmp_ub else ub) bs"

definition with_bounds :: "int \<Rightarrow> int \<times> int \<Rightarrow> dims" where
  "with_bounds sz b = \<lparr>dsize = sz, lower_bound = fst b, upper_bound = snd b,
     true_lower_bound = fst b, true_upper_bound = snd b\<rparr>"

definition new_IndexedBlock :: "int \<Rightarrow> int \<Rightarrow> int list \<Rightarrow> ddt \<Rightarrow> ddt \<Rightarrow> ddt" where
  "new_IndexedBlock count blocklen displ basetype cloned =
     (let ext = getExtent basetype;
          start = (if count > 0 then (displ ! 0, displ ! 0 + blocklen * ext) else (0, 0));
          displs = take (nat count) displ;
          ext' = getExtent cloned;
          bounds = widen start (map (\<lambda>d. (d * ext', (d + blocklen) * ext')) displs)
      in IndexedBlock (with_bounds (getSize basetype * count) bounds) count blocklen displs cloned None)"

definition new_HIndexed :: "int \<Rightarrow> int list \<Rightarrow> int list \<Rightarrow> ddt \<Rightarrow> ddt \<Rightarrow> ddt" where
  "new_HIndexed count blocklen displ basetype cloned =
     (let ext = getExtent basetype;
          start = (if count > 0 then (int_of_long (displ ! 0), int_of_long (displ ! 0 + blocklen ! 0 * ext))
                   else (0, 0));
          blocklens = take (nat count) blocklen;
          displs = take (nat count) displ;
          bounds = widen start (map2 (\<lambda>d l. (int_of_long d, int_of_long (d + l * ext))) displs blocklens)
      in HIndexed (with_bounds (sum_list (map (\<lambda>l. getSize basetype * l) blocklens)) bounds)
           count blocklens displs cloned)"

text \<open>The constructor of a struct fills its three vectors twice.\<close>

definition new_Struct :: "int \<Rightarrow> int list \<Rightarrow> int list \<Rightarrow> ddt list \<Rightarrow> ddt list \<Rightarrow> ddt" where
  "new_Struct count blocklen displ types cloned =
     (let blocklens = take (nat count) blocklen;
          displs = take (nat count) displ;
          basetypes = take (nat count) cloned;
          bounds = widen (0, 0) (map (\<lambda>i. (int_of_long (displ ! i),
             int_of_long (displ ! i + blocklen ! i * getExtent (types ! i)))) [0..<nat count]);
          sz = sum_list (map (\<lambda>i. getSize (types ! i) * blocklen ! i) [0..<nat count])
      in Struct (with_bounds sz bounds) count (blocklens @ blocklens) (displs @ displs) (basetypes @ basetypes))"

definition new_Resized :: "ddt \<Rightarrow> int \<Rightarrow> int \<Rightarrow> ddt \<Rightarrow> ddt" where
  "new_Resized basetype lb extent cloned =
     Resized \<lparr>dsize = getSize basetype, lower_bound = lb, upper_bound = lb + extent,
       true_lower_bound = getTrueLowerBound basetype, true_upper_bound = getTrueUpperBound basetype\<rparr> cloned"

fun clone :: "ddt \<Rightarrow> ddt" where
  "clone (Primitive d type) = new_Primitive type"
| "clone (Contiguous d count b) = new_Contiguous count b (clone b)"
| "clone (Vector d count blocklen stride b) = new_Vector count blocklen stride b (clone b)"
| "clone (HVector d count blocklen stride b) = new_HVector count blocklen stride b (clone b)"
| "clone (IndexedBlock d count blocklen displs b _) = new_IndexedBlock count blocklen displs b (clone b)"
| "clone (HIndexed d count blocklens displs b) = new_HIndexed count blocklens displs b (clone b)"
| "clone (Struct d count blocklens displs bs) = new_Struct count blocklens displs bs (map clone bs)"
| "clone (Resized d b) = new_Resized b (lower_bound d) (upper_bound d - lower_bound d) (clone b)"

definition PrimitiveDatatype :: "PrimitiveType \<Rightarrow> ddt" where
  "PrimitiveDatatype type = new_Primitive type"

definition ContiguousDatatype :: "int \<Rightarrow> ddt \<Rightarrow> ddt" where
  "ContiguousDatatype count basetype = new_Contiguous count basetype (clone basetype)"

definition VectorDatatype :: "int \<Rightarrow> int \<Rightarrow> int \<Rightarrow> ddt \<Rightarrow> ddt" where
  "VectorDatatype count blocklen stride basetype = new_Vector count blocklen stride basetype (clone basetype)"

definition HVectorDatatype :: "int \<Rightarrow> int \<Rightarrow> int \<Rightarrow> ddt \<Rightarrow> ddt" where
  "HVectorDatatype count blocklen stride basetype = new_HVector count blocklen stride basetype (clone basetype)"

definition IndexedBlockDatatype :: "int \<Rightarrow> int \<Rightarrow> int list \<Rightarrow> ddt \<Rightarrow> ddt" where
  "IndexedBlockDatatype count blocklen displ basetype = new_IndexedBlock count blocklen displ basetype (clone basetype)"

definition HIndexedDatatype :: "int \<Rightarrow> int list \<Rightarrow> int list \<Rightarrow> ddt \<Rightarrow> ddt" where
  "HIndexedDatatype count blocklen displ basetype = new_HIndexed count blocklen displ basetype (clone basetype)"

definition StructDatatype :: "int \<Rightarrow> int list \<Rightarrow> int list \<Rightarrow> ddt list \<Rightarrow> ddt" where
  "StructDatatype count blocklen displ types = new_Struct count blocklen displ types (map clone types)"

definition ResizedDatatype :: "ddt \<Rightarrow> int \<Rightarrow> int \<Rightarrow> ddt" where
  "ResizedDatatype basetype lb extent = new_Resized basetype lb extent (clone basetype)"

lemmas ctor_defs = PrimitiveDatatype_def ContiguousDatatype_def VectorDatatype_def HVectorDatatype_def
  IndexedBlockDatatype_def HIndexedDatatype_def StructDatatype_def ResizedDatatype_def

text \<open>The datatypes a program can build.\<close>

inductive built :: "ddt \<Rightarrow> bool" where
  built_Primitive: "built (PrimitiveDatatype type)"
| built_Contiguous: "built b \<Longrightarrow> built (ContiguousDatatype count b)"
| built_Vector: "built b \<Longrightarrow> built (VectorDatatype count blocklen stride b)"
| built_HVector: "built b \<Longrightarrow> built (HVectorDatatype count blocklen stride b)"
| built_IndexedBlock: "built b \<Longrightarrow> nat count \<le> length displ \<Longrightarrow>
    built (IndexedBlockDatatype count blocklen displ b)"
| built_HIndexed: "built b \<Longrightarrow> nat count \<le> length displ \<Longrightarrow> nat count \<le> length blocklen \<Longrightarrow>
    built (HIndexedDatatype count blocklen displ b)"
| built_Struct: "(\<forall>b \<in> set types. built b) \<Longrightarrow> nat count \<le> length displ \<Longrightarrow> nat count \<le> length blocklen \<Longrightarrow>
    nat count \<le> length types \<Longrightarrow> built (StructDatatype count blocklen displ types)"
| built_Resized: "built b \<Longrightarrow> built (ResizedDatatype b lb extent)"

text \<open>A clone of a built datatype is the datatype itself.\<close>

lemma clone_built: "built t \<Longrightarrow> clone t = t"
proof (induction rule: built.induct)
  case (built_Struct types count displ blocklen)
  then have cl: "map clone types = types" by (simp add: map_idI)
  let ?n = "nat count"
  have tk: "take ?n (take ?n xs @ take ?n xs) = take ?n xs" if "?n \<le> length xs" for xs :: "'b list"
    using that by simp
  have nth: "(take ?n xs @ take ?n xs) ! i = xs ! i" if "?n \<le> length xs" "i < ?n" for xs :: "'b list" and i
    using that by (simp add: nth_append)
  have eqs: "map (\<lambda>i. f ((take ?n displ @ take ?n displ) ! i) ((take ?n blocklen @ take ?n blocklen) ! i)
      ((take ?n types @ take ?n types) ! i)) [0..<?n] = map (\<lambda>i. f (displ ! i) (blocklen ! i) (types ! i)) [0..<?n]"
    for f :: "int \<Rightarrow> int \<Rightarrow> ddt \<Rightarrow> 'c"
    using built_Struct by (intro map_cong) (auto simp: nth)
  have cl2: "map clone (take ?n types @ take ?n types) = take ?n types @ take ?n types"
    using cl by (simp add: take_map [symmetric])
  show ?case
    unfolding StructDatatype_def cl new_Struct_def Let_def clone.simps cl2
      eqs [of "\<lambda>d l t. (int_of_long d, int_of_long (d + l * getExtent t))"]
      eqs [of "\<lambda>d l t. getSize t * l"]
    using built_Struct by (simp add: tk)
qed (auto simp: ctor_defs new_Primitive_def new_Contiguous_def new_Vector_def new_HVector_def
    new_IndexedBlock_def new_HIndexed_def new_Resized_def Let_def)

end
