(* ===== verification/Emit_Logic.thy ===== *)
theory Emit_Logic
  imports IR_Builder
begin

text \<open>
  Reasoning about emitted code.  \<open>code_le\<close> relates the function under construction
  to the finished one, which has longer blocks, more blocks and more phi entries;
  \<open>gen_ok\<close> says a generator leaves the phi nodes of existing blocks alone and only
  extends the block it was started in; \<open>triple\<close> says what the emitted code does
  when it is run from the insertion point, in any finished function.
\<close>

section \<open>Growing functions\<close>

definition phi_le :: "nat \<times> (operand \<times> nat) list \<Rightarrow> nat \<times> (operand \<times> nat) list \<Rightarrow> bool" where
  "phi_le p q \<longleftrightarrow> fst p = fst q \<and> prefix (snd p) (snd q)"

definition body_le :: "block \<Rightarrow> block \<Rightarrow> bool" where
  "body_le b b' \<longleftrightarrow> prefix (body b) (body b') \<and>
     (terminator b \<noteq> None \<longrightarrow> terminator b' = terminator b \<and> body b' = body b)"

definition block_le :: "block \<Rightarrow> block \<Rightarrow> bool" where
  "block_le b b' \<longleftrightarrow> list_all2 phi_le (phis b) (phis b') \<and> body_le b b'"

definition block_grows :: "block \<Rightarrow> block \<Rightarrow> bool" where
  "block_grows b b' \<longleftrightarrow> phis b = phis b' \<and> body_le b b'"

definition code_le :: "func \<Rightarrow> func \<Rightarrow> bool" where
  "code_le bs bs' \<longleftrightarrow> length bs \<le> length bs' \<and> (\<forall>i < length bs. block_le (bs ! i) (bs' ! i))"

definition grows :: "func \<Rightarrow> func \<Rightarrow> bool" where
  "grows bs bs' \<longleftrightarrow> length bs \<le> length bs' \<and> (\<forall>i < length bs. block_grows (bs ! i) (bs' ! i))"

lemma phi_le_refl [simp]: "phi_le p p" by (simp add: phi_le_def)

lemma body_le_refl [simp]: "body_le b b" by (simp add: body_le_def)

lemma body_le_trans: "body_le a b \<Longrightarrow> body_le b c \<Longrightarrow> body_le a c"
  unfolding body_le_def by (metis prefix_order.trans)

lemma block_grows_refl [simp]: "block_grows b b" by (simp add: block_grows_def)

lemma block_grows_trans: "block_grows a b \<Longrightarrow> block_grows b c \<Longrightarrow> block_grows a c"
  unfolding block_grows_def using body_le_trans by metis

lemma block_le_refl [simp]: "block_le b b"
  by (simp add: block_le_def list_all2_refl)

lemma phi_le_trans: "phi_le p q \<Longrightarrow> phi_le q r \<Longrightarrow> phi_le p r"
  unfolding phi_le_def by (metis prefix_order.trans)

lemma block_le_trans: "block_le a b \<Longrightarrow> block_le b c \<Longrightarrow> block_le a c"
  unfolding block_le_def using body_le_trans by (blast intro: list_all2_trans phi_le_trans)

lemma block_grows_le: "block_grows a b \<Longrightarrow> block_le a b"
  by (simp add: block_grows_def block_le_def list_all2_refl)

lemma grows_refl [simp]: "grows bs bs" by (simp add: grows_def)

lemma grows_trans: "grows a b \<Longrightarrow> grows b c \<Longrightarrow> grows a c"
  unfolding grows_def by (meson block_grows_trans le_trans less_le_trans)

lemma code_le_refl [simp]: "code_le bs bs" by (simp add: code_le_def)

lemma code_le_trans: "code_le a b \<Longrightarrow> code_le b c \<Longrightarrow> code_le a c"
  unfolding code_le_def by (meson block_le_trans le_trans less_le_trans)

lemma grows_code_le: "grows a b \<Longrightarrow> code_le a b"
  by (simp add: grows_def code_le_def block_grows_le)

lemma grows_update:
  "block_grows (bs ! i) b \<Longrightarrow> grows bs (bs[i := b])"
  by (cases "i < length bs") (auto simp: grows_def nth_list_update)

lemma grows_append: "grows bs (bs @ bs')"
  by (simp add: grows_def nth_append)

section \<open>Well-formed builders and generators\<close>

definition phi_regs_below :: "nat \<Rightarrow> func \<Rightarrow> bool" where
  "phi_regs_below n bs \<longleftrightarrow> (\<forall>b \<in> set bs. \<forall>p \<in> set (phis b). fst p < n)"

definition wfB :: "builder \<Rightarrow> bool" where
  "wfB B \<longleftrightarrow> cur B < length (blocks B) \<and> terminator (blocks B ! cur B) = None \<and>
     phi_regs_below (nextreg B) (blocks B)"

definition extends :: "builder \<Rightarrow> builder \<Rightarrow> bool" where
  "extends B B' \<longleftrightarrow> wfB B' \<and> grows (blocks B) (blocks B') \<and> nextreg B \<le> nextreg B'"

definition gen_ok :: "'a gen \<Rightarrow> bool" where
  "gen_ok g \<longleftrightarrow> (\<forall>B. wfB B \<longrightarrow> extends B (snd (run_state g B)))"

lemma extends_refl: "wfB B \<Longrightarrow> extends B B" by (simp add: extends_def)

lemma extends_trans: "extends A B \<Longrightarrow> extends B C \<Longrightarrow> extends A C"
  unfolding extends_def using grows_trans le_trans by blast

lemma gen_okD: "gen_ok g \<Longrightarrow> wfB B \<Longrightarrow> extends B (snd (run_state g B))"
  by (simp add: gen_ok_def)

lemma gen_ok_return [gen_mono]: "gen_ok (State_Monad.return a)"
  by (simp add: gen_ok_def extends_refl)

lemma gen_ok_bind [gen_mono]:
  assumes "gen_ok g" "\<And>a. gen_ok (h a)" shows "gen_ok (State_Monad.bind g h)"
  unfolding gen_ok_def
proof (intro allI impI)
  fix B assume B: "wfB B"
  obtain a B1 where r: "run_state g B = (a, B1)" by fastforce
  have 1: "extends B B1" using gen_okD [OF assms(1) B] r by simp
  then have "wfB B1" by (simp add: extends_def)
  from gen_okD [OF assms(2) this, of a] 1
  show "extends B (snd (run_state (State_Monad.bind g h) B))" using r extends_trans by simp
qed

lemma gen_ok_if [gen_mono]: "gen_ok g \<Longrightarrow> gen_ok h \<Longrightarrow> gen_ok (if c then g else h)"
  by simp

lemma gen_ok_case_prod [gen_mono]: "(\<And>a b. gen_ok (f a b)) \<Longrightarrow> gen_ok (case p of (a, b) \<Rightarrow> f a b)"
  by (cases p) simp

lemma phi_regs_below_mono: "phi_regs_below n bs \<Longrightarrow> n \<le> k \<Longrightarrow> phi_regs_below k bs"
  unfolding phi_regs_below_def by fastforce

lemma phi_regs_below_update:
  "phi_regs_below n bs \<Longrightarrow> \<forall>p \<in> set (phis b). fst p < n \<Longrightarrow> phi_regs_below n (bs[i := b])"
  unfolding phi_regs_below_def using set_update_subset_insert [of bs i b] by blast

lemma extends_append_instr:
  assumes "wfB B" "nextreg B \<le> k" shows "extends B ((append_instr i B)\<lparr>nextreg := k\<rparr>)"
proof -
  let ?b = "blocks B ! cur B"
  have "block_grows ?b (?b\<lparr>body := body ?b @ [i]\<rparr>)"
    using assms by (simp add: block_grows_def body_le_def wfB_def)
  moreover have "\<forall>p \<in> set (phis ?b). fst p < nextreg B"
    using assms unfolding wfB_def phi_regs_below_def by (meson nth_mem)
  then have "phi_regs_below k ((blocks B)[cur B := ?b\<lparr>body := body ?b @ [i]\<rparr>])"
    using assms by (intro phi_regs_below_update) (auto simp: wfB_def intro: phi_regs_below_mono)
  ultimately show ?thesis
    using assms by (simp add: extends_def append_instr_def wfB_def grows_update)
qed

lemma gen_ok_emit [gen_mono]: "gen_ok (emit f)"
  using extends_append_instr by (auto simp: gen_ok_def emit_def)

lemma gen_ok_emit_void [gen_mono]: "gen_ok (emit_void i)"
  unfolding gen_ok_def emit_void_def
proof (intro allI impI)
  fix B :: builder assume "wfB B"
  from extends_append_instr [OF this order.refl, of i]
  show "extends B (snd (run_state (State (\<lambda>B. ((), append_instr i B))) B))"
    by (simp add: append_instr_def)
qed

lemma gen_ok_GetInsertBlock [gen_mono]: "gen_ok GetInsertBlock"
  by (simp add: gen_ok_def GetInsertBlock_def extends_refl)

lemmas emit_defs =
  CreatePtrToInt_def CreateIntToPtr_def CreateBitCast_def CreateAdd_def CreateSub_def
  CreateMul_def CreateZExt_def CreateICmpEQ_def CreateAlignedLoad_def CreateAlignedStore_def
  CreateMemCpy_def CreateGEP_def CreateLoad_def

lemma gen_ok_ops [gen_mono]:
  "gen_ok (CreatePtrToInt a)" "gen_ok (CreateIntToPtr a)" "gen_ok (CreateBitCast a)"
  "gen_ok (CreateAdd a b)" "gen_ok (CreateSub a b)" "gen_ok (CreateMul a b)"
  "gen_ok (CreateZExt a)" "gen_ok (CreateICmpEQ a b)" "gen_ok (CreateAlignedLoad a n)"
  "gen_ok (CreateAlignedStore v a)" "gen_ok (CreateMemCpy a b c)" "gen_ok (CreateGEP a b)"
  "gen_ok (CreateLoad a)"
  unfolding emit_defs by (intro gen_mono)+

lemma gen_ok_helpers [gen_mono]:
  "gen_ok (multNode n a)" "gen_ok (vmove d s c k)" "gen_ok (incrementPtr p n)"
  unfolding multNode_def vmove_def incrementPtr_def Let_def by (intro gen_mono)+

section \<open>Loops: what the builder holds before and after the body\<close>

definition header_builder :: "operand list \<Rightarrow> builder \<Rightarrow> builder" where
  "header_builder inits B = B\<lparr>
     blocks := (blocks B)[cur B := (blocks B ! cur B)\<lparr>terminator := Some (Br (length (blocks B)))\<rparr>] @
       [\<lparr>phis = zip [nextreg B..<nextreg B + length inits] (map (\<lambda>a. [(a, cur B)]) inits),
         body = [], terminator = None\<rparr>],
     cur := length (blocks B), nextreg := nextreg B + length inits\<rparr>"

definition add_all :: "nat \<Rightarrow> operand list \<Rightarrow> operand list \<Rightarrow> block \<Rightarrow> block" where
  "add_all p rs as = fold (\<lambda>(r, a). add_entry r a p) (zip rs as)"

definition footer_builder :: "nat \<Rightarrow> nat \<Rightarrow> operand list \<Rightarrow> operand list \<Rightarrow> operand \<Rightarrow> builder \<Rightarrow> builder" where
  "footer_builder loop origin rs nexts c B = B\<lparr>
     blocks := map (add_all origin rs nexts)
       ((blocks B)[cur B := (blocks B ! cur B)\<lparr>terminator := Some (CondBr c (length (blocks B)) loop)\<rparr>] @
        [empty_block]),
     cur := length (blocks B)\<rparr>"

lemma add_entry_fresh:
  assumes "\<forall>q \<in> set (phis b). Reg (fst q) \<noteq> r" shows "add_entry r a p b = b"
proof -
  have "map (\<lambda>(r', inc). (r', if Reg r' = r then inc @ [(a, p)] else inc)) (phis b) = phis b"
    using assms by (intro map_idI) force
  then show ?thesis by (simp add: add_entry_def)
qed

lemma phi_regs_belowD: "phi_regs_below n bs \<Longrightarrow> b \<in> set bs \<Longrightarrow> q \<in> set (phis b) \<Longrightarrow> fst q < n"
  by (simp add: phi_regs_below_def)

lemma map_add_entry_fresh:
  assumes "phi_regs_below n bs" "n \<le> r" shows "map (add_entry (Reg r) a p) bs = bs"
proof (rule map_idI)
  fix b assume "b \<in> set bs"
  then have "\<forall>q \<in> set (phis b). Reg (fst q) \<noteq> Reg r"
    using phi_regs_belowD [OF assms(1)] assms(2) by fastforce
  then show "add_entry (Reg r) a p b = b" by (rule add_entry_fresh)
qed

lemma run_create_phis:
  assumes "cur B < length (blocks B)" "phi_regs_below (nextreg B) (blocks B)"
  shows "run_state (create_phis p as) B =
    (map Reg [nextreg B..<nextreg B + length as],
     B\<lparr>nextreg := nextreg B + length as, blocks := (blocks B)[cur B := (blocks B ! cur B)
       \<lparr>phis := phis (blocks B ! cur B) @
         zip [nextreg B..<nextreg B + length as] (map (\<lambda>a. [(a, p)]) as)\<rparr>]\<rparr>)"
  using assms
proof (induction as arbitrary: B)
  case (Cons a as)
  let ?n = "nextreg B" and ?b = "blocks B ! cur B"
  let ?b1 = "?b\<lparr>phis := phis ?b @ [(?n, [])]\<rparr>" and ?b2 = "?b\<lparr>phis := phis ?b @ [(?n, [(a, p)])]\<rparr>"
  let ?B2 = "B\<lparr>nextreg := Suc ?n, blocks := (blocks B)[cur B := ?b2]\<rparr>"
  have regs: "\<forall>q \<in> set (phis ?b). fst q < ?n"
    using phi_regs_belowD [OF Cons.prems(2) nth_mem [OF Cons.prems(1)]] by blast
  have "map (\<lambda>(r', inc). (r', if r' = ?n then inc @ [(a, p)] else inc)) (phis ?b) = phis ?b"
    using regs by (intro map_idI) auto
  then have "add_entry (Reg ?n) a p ?b1 = ?b2" by (simp add: add_entry_def)
  then have 1: "map (add_entry (Reg ?n) a p) ((blocks B)[cur B := ?b1]) = (blocks B)[cur B := ?b2]"
    using map_add_entry_fresh [OF Cons.prems(2) order.refl] by (simp add: map_update)
  have "phi_regs_below (Suc ?n) ((blocks B)[cur B := ?b2])"
    using phi_regs_below_mono [OF Cons.prems(2), of "Suc ?n"] regs
    by (intro phi_regs_below_update) auto
  then have "run_state (create_phis p as) ?B2 =
    (map Reg [Suc ?n..<Suc ?n + length as],
     B\<lparr>nextreg := Suc ?n + length as, blocks := (blocks B)[cur B :=
       ?b\<lparr>phis := (phis ?b @ [(?n, [(a, p)])]) @
         zip [Suc ?n..<Suc ?n + length as] (map (\<lambda>a. [(a, p)]) as)\<rparr>]\<rparr>)"
    using Cons.IH [of ?B2] Cons.prems(1) by simp
  moreover have "[?n..<?n + length (a # as)] = ?n # [Suc ?n..<Suc ?n + length as]"
    by (simp add: upt_conv_Cons del: upt_Suc)
  ultimately show ?case
    using 1 by (simp add: CreatePHI_def addIncoming_def split: prod.splits del: upt_Suc)
qed (simp add: builder.surjective)

lemma run_add_backedges:
  "run_state (add_backedges p rs as) B = ((), B\<lparr>blocks := map (add_all p rs as) (blocks B)\<rparr>)"
proof (induction p rs as arbitrary: B rule: add_backedges.induct)
  case (1 p r rs a as)
  then show ?case by (simp add: addIncoming_def add_all_def comp_def)
qed (simp_all add: add_all_def)

lemma run_do_while:
  assumes B: "wfB B" and l: "l = length (blocks B)"
    and body: "run_state (loop_body l (map Reg [nextreg B..<nextreg B + length inits])) (header_builder inits B)
      = ((origin, nexts, c), B3)"
    and c3: "cur B3 < length (blocks B3)"
  shows "run_state (do_while inits loop_body) B =
    (nexts, footer_builder l origin (map Reg [nextreg B..<nextreg B + length inits]) nexts c B3)"
proof -
  let ?rs = "map Reg [nextreg B..<nextreg B + length inits]"
  let ?bs = "(blocks B)[cur B := (blocks B ! cur B)\<lparr>terminator := Some (Br l)\<rparr>] @ [empty_block]"
  let ?B1 = "B\<lparr>blocks := ?bs, cur := l\<rparr>"
  have c: "cur B < length (blocks B)" using B by (simp add: wfB_def)
  have "\<forall>q \<in> set (phis (blocks B ! cur B)). fst q < nextreg B"
    using B phi_regs_belowD [OF _ nth_mem [OF c]] by (auto simp: wfB_def)
  then have "phi_regs_below (nextreg B) ((blocks B)[cur B := (blocks B ! cur B)\<lparr>terminator := Some (Br l)\<rparr>])"
    using B by (intro phi_regs_below_update) (auto simp: wfB_def)
  then have "phi_regs_below (nextreg B) ?bs"
    by (auto simp: phi_regs_below_def empty_block_def)
  then have "run_state (create_phis (cur B) inits) ?B1 = (?rs, header_builder inits B)"
    using run_create_phis [of ?B1 "cur B" inits] c l
    by (simp add: header_builder_def empty_block_def list_update_append nth_append)
  then show ?thesis
    using c l body c3
    by (simp add: do_while_def GetInsertBlock_def CreateBlock_def CreateBr_def SetInsertPoint_def
        set_terminator_def CreateCondBr_def run_add_backedges footer_builder_def nth_append
        list_update_append split: prod.splits)
qed

lemma wfB_header: "wfB B \<Longrightarrow> wfB (header_builder inits B)"
proof -
  assume B: "wfB B"
  let ?b = "(blocks B ! cur B)\<lparr>terminator := Some (Br (length (blocks B)))\<rparr>"
  let ?n = "nextreg B + length inits"
  have "\<forall>q \<in> set (phis ?b). fst q < nextreg B"
    using B phi_regs_belowD [OF _ nth_mem, of "nextreg B" "blocks B" "cur B"] by (auto simp: wfB_def)
  then have "phi_regs_below (nextreg B) ((blocks B)[cur B := ?b])"
    using B by (intro phi_regs_below_update) (auto simp: wfB_def)
  then have "phi_regs_below ?n ((blocks B)[cur B := ?b])" by (rule phi_regs_below_mono) simp
  then have "phi_regs_below ?n (blocks (header_builder inits B))"
    by (auto simp: header_builder_def phi_regs_below_def dest!: set_zip_leftD)
  then show ?thesis by (simp add: wfB_def header_builder_def nth_append)
qed

lemma code_le_header: "wfB B \<Longrightarrow> grows (blocks B) (blocks (header_builder inits B))"
  unfolding header_builder_def
  by (auto simp: wfB_def block_grows_def body_le_def intro!: grows_trans [OF grows_update grows_append])

lemma add_all_simps [simp]:
  "body (add_all p rs as b) = body b" "terminator (add_all p rs as b) = terminator b"
proof -
  have "body (fold (\<lambda>(r, a). add_entry r a p) xs b) = body b \<and>
    terminator (fold (\<lambda>(r, a). add_entry r a p) xs b) = terminator b" for xs
    by (induction xs arbitrary: b) (auto simp: add_entry_def)
  then show "body (add_all p rs as b) = body b" "terminator (add_all p rs as b) = terminator b"
    by (auto simp: add_all_def)
qed

lemma add_all_fresh:
  "\<forall>q \<in> set (phis b). Reg (fst q) \<notin> set rs \<Longrightarrow> add_all p rs as b = b"
proof (induction rs arbitrary: as)
  case (Cons r rs)
  then show ?case
    by (cases as) (auto simp: add_all_def add_entry_fresh)
qed (simp add: add_all_def)

lemma add_entry_le: "list_all2 phi_le (phis b) (phis (add_entry r a p b))"
  by (auto simp: add_entry_def list_all2_map2 phi_le_def intro!: list_all2_refl)

lemma add_all_le: "block_le b (add_all p rs as b)"
proof -
  have "list_all2 phi_le (phis b) (phis (fold (\<lambda>(r, a). add_entry r a p) xs b))" for xs
  proof (induction xs arbitrary: b)
    case (Cons x xs)
    then show ?case using add_entry_le [of b "fst x" "snd x" p]
      by (auto simp: case_prod_beta intro: list_all2_trans [OF phi_le_trans])
  qed (simp add: list_all2_refl)
  then show ?thesis by (simp add: block_le_def body_le_def) (simp add: add_all_def)
qed

lemma grows_footer:
  assumes B: "wfB B" and g: "grows (blocks (header_builder inits B)) (blocks B3)" and B3: "wfB B3"
    and n: "nextreg B \<le> nextreg B3"
  shows "extends B (footer_builder (length (blocks B)) origin
    (map Reg [nextreg B..<nextreg B + length inits]) nexts c B3)"
proof -
  let ?rs = "map Reg [nextreg B..<nextreg B + length inits]"
  let ?B5 = "footer_builder (length (blocks B)) origin ?rs nexts c B3"
  let ?b = "(blocks B3 ! cur B3)\<lparr>terminator := Some (CondBr c (length (blocks B3)) (length (blocks B)))\<rparr>"
  let ?bs = "(blocks B3)[cur B3 := ?b]"
  have g3: "grows (blocks B) (blocks B3)" using code_le_header [OF B] g by (rule grows_trans)
  have "grows (blocks B3) ?bs"
    using B3 by (intro grows_update) (simp add: block_grows_def body_le_def wfB_def)
  with g3 have g4: "grows (blocks B) ?bs" by (rule grows_trans)
  have "block_grows (blocks B ! i) (blocks ?B5 ! i)" if i: "i < length (blocks B)" for i
  proof -
    have i4: "i < length ?bs" and b4: "block_grows (blocks B ! i) (?bs ! i)"
      using g4 i by (auto simp: grows_def)
    have "fst q < nextreg B" if "q \<in> set (phis (?bs ! i))" for q
      using B b4 phi_regs_belowD [OF _ nth_mem [OF i]] that by (simp add: wfB_def block_grows_def)
    then have "\<forall>q \<in> set (phis (?bs ! i)). Reg (fst q) \<notin> set ?rs" by fastforce
    then have "add_all origin ?rs nexts (?bs ! i) = ?bs ! i" by (rule add_all_fresh)
    then have "blocks ?B5 ! i = ?bs ! i"
      using i4 by (simp add: footer_builder_def nth_append)
    with b4 show ?thesis by simp
  qed
  moreover have "length (blocks B) \<le> length (blocks ?B5)"
    using g3 by (simp add: footer_builder_def grows_def)
  moreover have "wfB ?B5"
  proof -
    have "\<forall>q \<in> set (phis ?b). fst q < nextreg B3"
      using B3 phi_regs_belowD [OF _ nth_mem, of "nextreg B3" "blocks B3" "cur B3"] by (auto simp: wfB_def)
    then have "phi_regs_below (nextreg B3) ((blocks B3)[cur B3 := ?b] @ [empty_block])"
      using B3 phi_regs_below_update [of "nextreg B3" "blocks B3" ?b "cur B3"]
      by (auto simp: wfB_def phi_regs_below_def empty_block_def)
    moreover have "phi_regs_below k (map (add_all origin ?rs nexts) bs)" if "phi_regs_below k bs" for k bs
      unfolding phi_regs_below_def
    proof (intro ballI)
      fix b q assume "b \<in> set (map (add_all origin ?rs nexts) bs)" and q: "q \<in> set (phis b)"
      then obtain b0 where b0: "b0 \<in> set bs" "b = add_all origin ?rs nexts b0" by auto
      then have "list_all2 phi_le (phis b0) (phis b)" using add_all_le by (auto simp: block_le_def)
      then obtain q0 where "q0 \<in> set (phis b0)" "phi_le q0 q"
        using q by (metis in_set_conv_nth list_all2_conv_all_nth)
      then show "fst q < k" using phi_regs_belowD [OF that b0(1)] by (metis phi_le_def)
    qed
    ultimately have "phi_regs_below (nextreg B3) (map (add_all origin ?rs nexts) (?bs @ [empty_block]))"
      by blast
    then have "phi_regs_below (nextreg ?B5) (blocks ?B5)" by (simp add: footer_builder_def)
    then show ?thesis
      by (simp add: wfB_def) (simp add: footer_builder_def nth_append empty_block_def)
  qed
  ultimately show ?thesis using n by (simp add: extends_def grows_def footer_builder_def)
qed

lemma gen_ok_do_while [gen_mono]:
  assumes "\<And>l rs. gen_ok (loop_body l rs)" shows "gen_ok (do_while inits loop_body)"
  unfolding gen_ok_def
proof (intro allI impI)
  fix B :: builder assume B: "wfB B"
  let ?rs = "map Reg [nextreg B..<nextreg B + length inits]" and ?H = "header_builder inits B"
  obtain origin nexts c B3 where r: "run_state (loop_body (length (blocks B)) ?rs) ?H = ((origin, nexts, c), B3)"
    by (metis prod_cases3 surj_pair)
  have "extends ?H B3" using gen_okD [OF assms wfB_header [OF B]] r by (metis snd_conv)
  then have e: "grows (blocks ?H) (blocks B3)" "wfB B3" "nextreg B \<le> nextreg B3"
    by (auto simp: extends_def header_builder_def)
  have "run_state (do_while inits loop_body) B = (nexts, footer_builder (length (blocks B)) origin ?rs nexts c B3)"
    using e(2) r by (intro run_do_while [OF B refl]) (auto simp: wfB_def)
  then show "extends B (snd (run_state (do_while inits loop_body) B))"
    using grows_footer [OF B e] by simp
qed

section \<open>Executing emitted code\<close>

definition insertion_point :: "builder \<Rightarrow> env \<Rightarrow> mem \<Rightarrow> config" where
  "insertion_point B e m = Run (cur B) (length (body (blocks B ! cur B))) e m"

definition agree :: "nat \<Rightarrow> env \<Rightarrow> env \<Rightarrow> bool" where
  "agree n e e' \<longleftrightarrow> (\<forall>r < n. e' r = e r)"

definition below :: "nat \<Rightarrow> operand \<Rightarrow> bool" where
  "below n a \<longleftrightarrow> (case a of Reg r \<Rightarrow> r < n | _ \<Rightarrow> True)"

definition holds :: "nat \<Rightarrow> env \<Rightarrow> operand \<Rightarrow> val \<Rightarrow> bool" where
  "holds n e a v \<longleftrightarrow> below n a \<and> ev e a = Some v"

definition triple ::
  "globals \<Rightarrow> func \<Rightarrow> 'a gen \<Rightarrow> builder \<Rightarrow> env \<Rightarrow> mem \<Rightarrow> ('a \<Rightarrow> builder \<Rightarrow> env \<Rightarrow> mem \<Rightarrow> bool) \<Rightarrow> bool" where
  "triple G F g B e m Q \<longleftrightarrow> (wfB B \<longrightarrow> extends B (snd (run_state g B)) \<and>
     (code_le (blocks (snd (run_state g B))) F \<longrightarrow>
       (\<exists>e' m'. steps G F (insertion_point B e m) (insertion_point (snd (run_state g B)) e' m') \<and>
          agree (nextreg B) e e' \<and> Q (fst (run_state g B)) (snd (run_state g B)) e' m')))"

lemma agree_refl [simp]: "agree n e e" by (simp add: agree_def)

lemma agree_trans: "agree n e e' \<Longrightarrow> agree k e' e'' \<Longrightarrow> n \<le> k \<Longrightarrow> agree n e e''"
  by (simp add: agree_def)

lemma agree_upd [simp]: "agree n e (e(r \<mapsto> v)) \<longleftrightarrow> r \<ge> n \<or> e r = Some v"
  by (auto simp: agree_def)

lemma holds_mono: "holds n e a v \<Longrightarrow> agree n e e' \<Longrightarrow> n \<le> k \<Longrightarrow> holds k e' a v"
  by (cases a) (auto simp: holds_def agree_def below_def)

lemma holds_const [simp]: "holds n e (CI32 w) v \<longleftrightarrow> v = VI32 w" "holds n e (CI64 x) v \<longleftrightarrow> v = VI64 x"
  "holds n e (GlobalRef g) v \<longleftrightarrow> v = VGlob g 0"
  by (auto simp: holds_def below_def)

lemma holds_new [simp]: "holds (Suc n) (e(n \<mapsto> v)) (Reg n) v' \<longleftrightarrow> v' = v"
  by (auto simp: holds_def below_def)

lemma holds_old: "holds n e a v \<Longrightarrow> holds (Suc n) (e(n \<mapsto> v')) a v"
  by (rule holds_mono) auto

lemma triple_return: "Q a B e m \<Longrightarrow> triple G F (State_Monad.return a) B e m Q"
  using steps_refl agree_refl by (fastforce simp: triple_def extends_refl)

lemma triple_conseq:
  "triple G F g B e m Q \<Longrightarrow>
   (\<And>a B' e' m'. extends B B' \<Longrightarrow> agree (nextreg B) e e' \<Longrightarrow> Q a B' e' m' \<Longrightarrow> R a B' e' m') \<Longrightarrow>
   triple G F g B e m R"
  unfolding triple_def by blast

lemma triple_bind:
  assumes g: "triple G F g B e m Q" and h_ok: "\<And>a. gen_ok (h a)"
    and h: "\<And>a B1 e1 m1. wfB B1 \<Longrightarrow> extends B B1 \<Longrightarrow> agree (nextreg B) e e1 \<Longrightarrow> Q a B1 e1 m1 \<Longrightarrow>
      triple G F (h a) B1 e1 m1 R"
  shows "triple G F (State_Monad.bind g h) B e m R"
  unfolding triple_def
proof (intro impI)
  assume B: "wfB B"
  obtain a B1 where ra: "run_state g B = (a, B1)" by fastforce
  obtain b B2 where rb: "run_state (h a) B1 = (b, B2)" by fastforce
  have r: "run_state (State_Monad.bind g h) B = (b, B2)" using ra rb by simp
  have e1: "extends B B1" using g B ra by (simp add: triple_def)
  then have B1: "wfB B1" by (simp add: extends_def)
  then have e2: "extends B1 B2" using gen_okD [OF h_ok, of B1 a] rb by simp
  have "\<exists>e' m'. steps G F (insertion_point B e m) (insertion_point B2 e' m') \<and>
      agree (nextreg B) e e' \<and> R b B2 e' m'" if F: "code_le (blocks B2) F"
  proof -
    have "code_le (blocks B1) F"
      using e2 F by (auto simp: extends_def intro: code_le_trans [OF grows_code_le])
    then obtain e1 m1 where 1: "steps G F (insertion_point B e m) (insertion_point B1 e1 m1)"
      "agree (nextreg B) e e1" "Q a B1 e1 m1"
      using g B ra by (auto simp: triple_def)
    from h [OF B1 e1 1(2,3)] F B1 rb obtain e2 m2 where
      2: "steps G F (insertion_point B1 e1 m1) (insertion_point B2 e2 m2)"
      "agree (nextreg B1) e1 e2" "R b B2 e2 m2"
      by (auto simp: triple_def)
    from 1 2 e1 show ?thesis
      by (meson agree_trans extends_def steps_trans)
  qed
  then show "extends B (snd (run_state (State_Monad.bind g h) B)) \<and>
     (code_le (blocks (snd (run_state (State_Monad.bind g h) B))) F \<longrightarrow>
       (\<exists>e' m'. steps G F (insertion_point B e m) (insertion_point (snd (run_state (State_Monad.bind g h) B)) e' m') \<and>
          agree (nextreg B) e e' \<and> R (fst (run_state (State_Monad.bind g h) B)) (snd (run_state (State_Monad.bind g h) B)) e' m'))"
    using extends_trans [OF e1 e2] r by simp
qed

lemma code_le_nth:
  assumes "code_le bs F" "b < length bs"
  shows "b < length F" "block_le (bs ! b) (F ! b)"
  using assms by (auto simp: code_le_def)

lemma body_le_at:
  "body_le b b' \<Longrightarrow> body b = is @ i # is' \<Longrightarrow> length is < length (body b') \<and> body b' ! length is = i"
  by (auto simp: body_le_def prefix_def)

lemma step_emitted:
  assumes B: "wfB B" and F: "code_le (blocks (append_instr i B)) F"
    and x: "exec_instr G i e m = Some (e', m')"
  shows "step G F (insertion_point B e m) = Some (insertion_point ((append_instr i B)\<lparr>nextreg := k\<rparr>) e' m')"
proof -
  let ?b = "blocks B ! cur B"
  have c: "cur B < length (blocks (append_instr i B))" and l: "cur B < length (blocks B)"
    using B by (auto simp: wfB_def append_instr_def)
  have nth: "blocks (append_instr i B) ! cur B = ?b\<lparr>body := body ?b @ [i]\<rparr>"
    using l by (simp add: append_instr_def)
  have "body_le (?b\<lparr>body := body ?b @ [i]\<rparr>) (F ! cur B)"
    using code_le_nth [OF F c] nth by (simp add: block_le_def)
  then have "length (body ?b) < length (body (F ! cur B)) \<and> body (F ! cur B) ! length (body ?b) = i"
    by (rule body_le_at) simp
  then show ?thesis
    using code_le_nth(1) [OF F c] x nth l by (simp add: insertion_point_def append_instr_def)
qed

text \<open>
  \<open>emits\<close> forgets all of the builder but the block it inserts into and the next
  register: what the emitted code does depends on nothing else.
\<close>

definition emits ::
  "globals \<Rightarrow> func \<Rightarrow> 'a gen \<Rightarrow> nat \<Rightarrow> nat \<Rightarrow> env \<Rightarrow> mem \<Rightarrow> ('a \<Rightarrow> nat \<Rightarrow> nat \<Rightarrow> env \<Rightarrow> mem \<Rightarrow> bool) \<Rightarrow> bool" where
  "emits G F g c n e m Q \<longleftrightarrow> (\<forall>B. cur B = c \<and> nextreg B = n \<longrightarrow>
     triple G F g B e m (\<lambda>a B'. Q a (cur B') (nextreg B')))"

lemma emits_return: "Q a c n e m \<Longrightarrow> emits G F (State_Monad.return a) c n e m Q"
  by (simp add: emits_def triple_return)

lemma emits_bind:
  assumes "emits G F g c n e m Q" "\<And>a. gen_ok (h a)"
    and "\<And>a c1 n1 e1 m1. n \<le> n1 \<Longrightarrow> agree n e e1 \<Longrightarrow> Q a c1 n1 e1 m1 \<Longrightarrow> emits G F (h a) c1 n1 e1 m1 R"
  shows "emits G F (State_Monad.bind g h) c n e m R"
  unfolding emits_def
proof (intro allI impI)
  fix B :: builder assume "cur B = c \<and> nextreg B = n"
  with assms show "triple G F (State_Monad.bind g h) B e m (\<lambda>a B'. R a (cur B') (nextreg B'))"
    by (intro triple_bind [where Q = "\<lambda>a B'. Q a (cur B') (nextreg B')"])
      (auto simp: emits_def extends_def)
qed

lemma emits_conseq:
  assumes "emits G F g c n e m Q"
    and "\<And>a c1 n1 e1 m1. n \<le> n1 \<Longrightarrow> agree n e e1 \<Longrightarrow> Q a c1 n1 e1 m1 \<Longrightarrow> R a c1 n1 e1 m1"
  shows "emits G F g c n e m R"
  using assms unfolding emits_def by (fastforce elim!: triple_conseq simp: extends_def)

lemma emits_emit:
  assumes x: "exec_instr G (f n) e m = Some (e(n \<mapsto> v), m)"
    and k: "emits G F (h (Reg n)) c (Suc n) (e(n \<mapsto> v)) m Q"
  shows "emits G F (State_Monad.bind (emit f) h) c n e m Q"
  unfolding emits_def
proof (intro allI impI)
  fix B :: builder assume Bn: "cur B = c \<and> nextreg B = n"
  let ?B1 = "(append_instr (f n) B)\<lparr>nextreg := Suc n\<rparr>"
  have run: "run_state (State_Monad.bind (emit f) h) B = run_state (h (Reg n)) ?B1"
    using Bn by (simp add: emit_def)
  have "cur ?B1 = c" using Bn by (simp add: append_instr_def)
  then have t: "triple G F (h (Reg n)) ?B1 (e(n \<mapsto> v)) m (\<lambda>a B'. Q a (cur B') (nextreg B'))"
    using k by (simp add: emits_def)
  show "triple G F (State_Monad.bind (emit f) h) B e m (\<lambda>a B'. Q a (cur B') (nextreg B'))"
    unfolding triple_def run
  proof (intro impI conjI)
    assume B: "wfB B"
    have e1: "extends B ?B1" using extends_append_instr [OF B, of "Suc n" "f n"] Bn by simp
    then have B1: "wfB ?B1" by (simp add: extends_def)
    have e2: "extends ?B1 (snd (run_state (h (Reg n)) ?B1))" using t B1 by (simp add: triple_def)
    show "extends B (snd (run_state (h (Reg n)) ?B1))" using e1 e2 by (rule extends_trans)
    assume F: "code_le (blocks (snd (run_state (h (Reg n)) ?B1))) F"
    then have "code_le (blocks ?B1) F"
      using e2 by (auto simp: extends_def intro: code_le_trans [OF grows_code_le])
    then have s: "step G F (insertion_point B e m) = Some (insertion_point ?B1 (e(n \<mapsto> v)) m)"
      using step_emitted [OF B _ x] by simp
    obtain e' m' where "steps G F (insertion_point ?B1 (e(n \<mapsto> v)) m)
        (insertion_point (snd (run_state (h (Reg n)) ?B1)) e' m')" "agree (Suc n) (e(n \<mapsto> v)) e'"
      "Q (fst (run_state (h (Reg n)) ?B1)) (cur (snd (run_state (h (Reg n)) ?B1)))
         (nextreg (snd (run_state (h (Reg n)) ?B1))) e' m'"
      using t B1 F by (auto simp: triple_def)
    moreover have "agree n e e'" using calculation(2) by (auto simp: agree_def)
    ultimately show "\<exists>e' m'. steps G F (insertion_point B e m)
        (insertion_point (snd (run_state (h (Reg n)) ?B1)) e' m') \<and> agree (nextreg B) e e' \<and>
        Q (fst (run_state (h (Reg n)) ?B1)) (cur (snd (run_state (h (Reg n)) ?B1)))
         (nextreg (snd (run_state (h (Reg n)) ?B1))) e' m'"
      using Bn steps_step [OF s] by blast
  qed
qed

lemma emits_emit_void:
  assumes x: "exec_instr G i e m = Some (e, m')" and k: "emits G F (h ()) c n e m' Q"
  shows "emits G F (State_Monad.bind (emit_void i) h) c n e m Q"
  unfolding emits_def
proof (intro allI impI)
  fix B :: builder assume Bn: "cur B = c \<and> nextreg B = n"
  let ?B1 = "append_instr i B"
  have run: "run_state (State_Monad.bind (emit_void i) h) B = run_state (h ()) ?B1"
    by (simp add: emit_void_def)
  have same: "?B1\<lparr>nextreg := nextreg B\<rparr> = ?B1" by (simp add: append_instr_def)
  have "cur ?B1 = c" "nextreg ?B1 = n" using Bn by (auto simp: append_instr_def)
  then have t: "triple G F (h ()) ?B1 e m' (\<lambda>a B'. Q a (cur B') (nextreg B'))"
    using k by (simp add: emits_def)
  show "triple G F (State_Monad.bind (emit_void i) h) B e m (\<lambda>a B'. Q a (cur B') (nextreg B'))"
    unfolding triple_def run
  proof (intro impI conjI)
    assume B: "wfB B"
    have e1: "extends B ?B1" using extends_append_instr [OF B order.refl, of i] same by simp
    then have B1: "wfB ?B1" by (simp add: extends_def)
    have e2: "extends ?B1 (snd (run_state (h ()) ?B1))" using t B1 by (simp add: triple_def)
    show "extends B (snd (run_state (h ()) ?B1))" using e1 e2 by (rule extends_trans)
    assume F: "code_le (blocks (snd (run_state (h ()) ?B1))) F"
    then have "code_le (blocks ?B1) F"
      using e2 by (auto simp: extends_def intro: code_le_trans [OF grows_code_le])
    then have "step G F (insertion_point B e m) = Some (insertion_point ?B1 e m')"
      using step_emitted [OF B _ x, of F "nextreg B"] same by simp
    then show "\<exists>e' m'. steps G F (insertion_point B e m)
        (insertion_point (snd (run_state (h ()) ?B1)) e' m') \<and> agree (nextreg B) e e' \<and>
        Q (fst (run_state (h ()) ?B1)) (cur (snd (run_state (h ()) ?B1)))
         (nextreg (snd (run_state (h ()) ?B1))) e' m'"
      using t B1 F steps_step by (fastforce simp: triple_def append_instr_def)
  qed
qed

section \<open>Executing loops\<close>

lemma incoming_prefix: "prefix xs ys \<Longrightarrow> incoming p xs = Some a \<Longrightarrow> incoming p ys = Some a"
proof (induction xs arbitrary: ys)
  case (Cons x xs)
  then show ?case by (cases x; cases ys) (auto split: if_splits)
qed simp

lemma those_map_nth:
  assumes "length xs = length vs" "\<forall>j < length vs. f (xs ! j) = Some (vs ! j)"
  shows "those (map f xs) = Some vs"
  using assms
proof (induction xs arbitrary: vs)
  case (Cons x xs)
  then obtain v vs' where vs: "vs = v # vs'" by (cases vs) auto
  then have "f x = Some v" "those (map f xs) = Some vs'"
    using Cons.prems Cons.IH [of vs'] by force+
  then show ?case by (simp add: vs)
qed simp

text \<open>Entering a block whose phi nodes have, for this predecessor, the operands \<open>as\<close>.\<close>

lemma enter_phis:
  assumes l: "l < length F" and le: "list_all2 phi_le ps (phis (F ! l))"
    and ps: "length ps = length as" "\<forall>j < length as. fst (ps ! j) = k + j \<and>
      incoming p (snd (ps ! j)) = Some (as ! j)"
    and vs: "list_all2 (holds n e) as vs"
  shows "enter F p l e m = Some (Run l 0 (e([k..<k + length as] [\<mapsto>] vs)) m)"
proof -
  have len: "length (phis (F ! l)) = length as" "length vs = length as"
    using le ps(1) vs by (auto dest: list_all2_lengthD)
  have j: "fst (phis (F ! l) ! j) = k + j \<and> phi_value p e (snd (phis (F ! l) ! j)) = Some (vs ! j)"
    if "j < length as" for j
  proof -
    have "phi_le (ps ! j) (phis (F ! l) ! j)" using le that ps(1) by (simp add: list_all2_conv_all_nth)
    moreover have "ev e (as ! j) = Some (vs ! j)"
      using vs that by (simp add: list_all2_conv_all_nth holds_def)
    ultimately show ?thesis
      using ps(2) that incoming_prefix by (fastforce simp: phi_le_def phi_value_def)
  qed
  have "those (map (\<lambda>(r, inc). phi_value p e inc) (phis (F ! l))) = Some vs"
    using j len by (intro those_map_nth) (auto simp: case_prod_beta)
  moreover have "map fst (phis (F ! l)) = [k..<k + length as]"
    using j len by (intro nth_equalityI) auto
  ultimately show ?thesis using l by (simp add: enter_def)
qed

lemma agree_upds: "n \<le> k \<Longrightarrow> agree n e (e([k..<j] [\<mapsto>] vs))"
  by (auto simp: agree_def intro!: map_upds_apply_nontin)

lemma upds_nth:
  "i < length vs \<Longrightarrow> (e([k..<k + length vs] [\<mapsto>] vs)) (k + i) = Some (vs ! i)"
proof (induction vs arbitrary: e k i)
  case (Cons v vs)
  have eq: "[k..<Suc (k + length vs)] = k # [Suc k..<Suc (k + length vs)]"
    by (simp add: upt_conv_Cons del: upt_Suc)
  show ?case
  proof (cases i)
    case 0
    then show ?thesis by (simp add: eq map_upds_apply_nontin del: upt_Suc)
  next
    case (Suc i')
    then show ?thesis using Cons.IH [of i' "e(k \<mapsto> v)" "Suc k"] Cons.prems by (simp add: eq del: upt_Suc map_upds_twist fun_upd_apply)
  qed
qed simp

lemma holds_upds:
  assumes "length vs = j" "n \<ge> k + j"
  shows "list_all2 (holds n (e([k..<k + j] [\<mapsto>] vs))) (map Reg [k..<k + j]) vs"
  using assms upds_nth [of _ vs e k] by (auto simp: list_all2_conv_all_nth holds_def below_def)

lemma add_all_phis:
  "distinct rs \<Longrightarrow> phis (add_all p rs as b) = map (\<lambda>(r, inc).
     (r, inc @ (case map_of (zip rs as) (Reg r) of None \<Rightarrow> [] | Some a \<Rightarrow> [(a, p)]))) (phis b)"
proof (induction rs arbitrary: as b)
  case (Cons r rs)
  show ?case
  proof (cases as)
    case (Cons a as')
    have "map_of (zip rs as') r = None"
      using Cons.prems by (auto simp: map_of_eq_None_iff dest: set_zip_leftD)
    then show ?thesis
      using Cons.IH [of as' "add_entry r a p b"] Cons.prems Cons
      by (auto simp: add_all_def add_entry_def)
  qed (simp add: add_all_def)
qed (simp add: add_all_def)

lemma add_all_zip:
  assumes "phis b = zip [k..<k + length incs] incs" "length as = length incs"
  shows "phis (add_all p (map Reg [k..<k + length incs]) as b) =
    zip [k..<k + length incs] (map2 (\<lambda>inc a. inc @ [(a, p)]) incs as)"
proof -
  let ?rs = "map Reg [k..<k + length incs]"
  have d: "distinct ?rs" by (simp add: distinct_map inj_on_def)
  have "map_of (zip ?rs as) (Reg (k + i)) = Some (as ! i)" if "i < length incs" for i
    using map_of_zip_nth [of ?rs as i] d that assms(2) by simp
  then show ?thesis
    using assms by (intro nth_equalityI) (auto simp: add_all_phis [OF d])
qed

lemma nth_header: "blocks (header_builder inits B) ! length (blocks B) =
    \<lparr>phis = zip [nextreg B..<nextreg B + length inits] (map (\<lambda>a. [(a, cur B)]) inits),
     body = [], terminator = None\<rparr>"
  by (simp add: header_builder_def nth_append)

lemma nth_header_cur: "wfB B \<Longrightarrow> blocks (header_builder inits B) ! cur B =
    (blocks B ! cur B)\<lparr>terminator := Some (Br (length (blocks B)))\<rparr>"
  by (simp add: header_builder_def nth_append wfB_def)

lemma footer_loop_phis:
  fixes cond :: operand and origin :: nat
  assumes g: "grows (blocks (header_builder inits B)) (blocks B3)" and len: "length nexts = length inits"
  defines "l \<equiv> length (blocks B)" and "n \<equiv> nextreg B"
  defines "B5 \<equiv> footer_builder l origin (map Reg [n..<n + length inits]) nexts cond B3"
  shows "phis (blocks B5 ! l) =
    zip [n..<n + length inits] (map2 (\<lambda>a x. [(a, cur B), (x, origin)]) inits nexts)"
proof -
  let ?b = "(blocks B3 ! cur B3)\<lparr>terminator := Some (CondBr cond (length (blocks B3)) l)\<rparr>"
  let ?bs = "(blocks B3)[cur B3 := ?b]" and ?incs = "map (\<lambda>a. [(a, cur B)]) inits"
  have lH: "l < length (blocks (header_builder inits B))" by (simp add: l_def header_builder_def)
  have l3: "l < length (blocks B3)" and p3: "phis (blocks B3 ! l) = zip [n..<n + length ?incs] ?incs"
    using g lH nth_header [of inits B] by (auto simp: grows_def l_def n_def block_grows_def)
  then have "phis (?bs ! l) = zip [n..<n + length ?incs] ?incs"
    by (cases "l = cur B3") auto
  from add_all_zip [OF this, of nexts origin] len
  have "phis (add_all origin (map Reg [n..<n + length inits]) nexts (?bs ! l)) =
    zip [n..<n + length inits] (map2 (\<lambda>a x. [(a, cur B), (x, origin)]) inits nexts)"
    by (simp add: zip_map1 case_prod_unfold comp_def)
  then show ?thesis using l3 by (simp add: B5_def footer_builder_def nth_append)
qed

lemma footer_le:
  assumes "wfB B3"
  shows "code_le (blocks B3) (blocks (footer_builder l origin rs nexts cond B3))"
proof -
  let ?b = "(blocks B3 ! cur B3)\<lparr>terminator := Some (CondBr cond (length (blocks B3)) l)\<rparr>"
  have "block_le (blocks B3 ! i) (blocks (footer_builder l origin rs nexts cond B3) ! i)"
    if i: "i < length (blocks B3)" for i
  proof -
    have "block_grows (blocks B3 ! i) ((blocks B3)[cur B3 := ?b] ! i)"
      using i assms by (cases "i = cur B3") (auto simp: block_grows_def body_le_def wfB_def)
    then show ?thesis using i
      by (auto simp: footer_builder_def nth_append intro: block_le_trans [OF block_grows_le add_all_le])
  qed
  then show ?thesis by (simp add: code_le_def footer_builder_def)
qed

text \<open>The end of the body: the conditional branch leaves the loop or takes the back edge.\<close>

lemma loop_exit:
  assumes B3: "wfB B3" and F: "code_le (blocks (footer_builder l (cur B3) rs nexts cond B3)) F"
    and c: "holds k e cond (VI1 True)"
  shows "step G F (insertion_point B3 e m) =
    Some (insertion_point (footer_builder l (cur B3) rs nexts cond B3) e m)"
proof -
  let ?B5 = "footer_builder l (cur B3) rs nexts cond B3" and ?a = "length (blocks B3)"
  have cur: "cur B3 < length (blocks B3)" using B3 by (simp add: wfB_def)
  then have c5: "cur B3 < length (blocks ?B5)" "?a < length (blocks ?B5)"
    by (auto simp: footer_builder_def)
  have fresh: "add_all (cur B3) rs nexts empty_block = empty_block"
    by (rule add_all_fresh) (simp add: empty_block_def)
  have a: "blocks ?B5 ! ?a = empty_block" using cur by (simp add: footer_builder_def nth_append fresh)
  have "body (F ! cur B3) = body (blocks B3 ! cur B3) \<and> terminator (F ! cur B3) = Some (CondBr cond ?a l)"
    using code_le_nth(2) [OF F c5(1)] cur
    by (auto simp: block_le_def body_le_def footer_builder_def nth_append)
  moreover have "phis (F ! ?a) = []" using code_le_nth(2) [OF F c5(2)] a
    by (simp add: block_le_def empty_block_def)
  then have "enter F (cur B3) ?a e m = Some (Run ?a 0 e m)"
    using code_le_nth(1) [OF F c5(2)] by (simp add: enter_def)
  moreover have "cur ?B5 = ?a" by (simp add: footer_builder_def)
  ultimately show ?thesis
    using code_le_nth(1) [OF F c5(1)] c a by (simp add: insertion_point_def holds_def empty_block_def)
qed

lemma loop_back:
  assumes B: "wfB B" and g: "grows (blocks (header_builder inits B)) (blocks B3)" and B3: "wfB B3"
    and F: "code_le (blocks (footer_builder (length (blocks B)) (cur B3)
      (map Reg [nextreg B..<nextreg B + length inits]) nexts cond B3)) F"
    and c: "holds k e cond (VI1 False)" and vs: "list_all2 (holds k e) nexts vs" "length vs = length inits"
  shows "step G F (insertion_point B3 e m) = Some (Run (length (blocks B)) 0
    (e([nextreg B..<nextreg B + length inits] [\<mapsto>] vs)) m)"
proof -
  let ?l = "length (blocks B)" and ?n = "nextreg B"
  let ?B5 = "footer_builder ?l (cur B3) (map Reg [?n..<?n + length inits]) nexts cond B3"
  let ?H = "header_builder inits B"
  have cur: "cur B3 < length (blocks B3)" using B3 by (simp add: wfB_def)
  have l5: "?l < length (blocks ?B5)" "cur B3 < length (blocks ?B5)"
    using cur g by (auto simp: footer_builder_def grows_def header_builder_def)
  have len: "length nexts = length inits" using vs by (simp add: list_all2_lengthD)
  have ne: "cur B3 \<noteq> cur B"
  proof
    assume eq: "cur B3 = cur B"
    have bl: "cur B < length (blocks ?H)" using B by (simp add: wfB_def header_builder_def)
    have "terminator (blocks ?H ! cur B) \<noteq> None" using nth_header_cur [OF B] by simp
    then have "terminator (blocks B3 ! cur B) \<noteq> None"
      using g bl by (auto simp: grows_def block_grows_def body_le_def)
    then show False using B3 eq by (simp add: wfB_def)
  qed
  have "body (F ! cur B3) = body (blocks B3 ! cur B3) \<and>
      terminator (F ! cur B3) = Some (CondBr cond (length (blocks B3)) ?l)"
    using code_le_nth(2) [OF F l5(2)] cur
    by (auto simp: block_le_def body_le_def footer_builder_def nth_append)
  moreover have "enter F (cur B3) ?l e m = Some (Run ?l 0 (e([?n..<?n + length nexts] [\<mapsto>] vs)) m)"
    using code_le_nth [OF F l5(1)] vs ne len
    by (intro enter_phis [where ps = "phis (blocks ?B5 ! ?l)"])
      (auto simp: block_le_def footer_loop_phis [OF g len])
  ultimately show ?thesis
    using code_le_nth(1) [OF F l5(2)] c len by (simp add: insertion_point_def holds_def)
qed

lemma loop_start:
  assumes B: "wfB B" and F: "code_le (blocks (header_builder inits B)) F"
    and vs: "list_all2 (holds k e) inits vs"
  shows "step G F (insertion_point B e m) = Some (Run (length (blocks B)) 0
    (e([nextreg B..<nextreg B + length inits] [\<mapsto>] vs)) m)"
proof -
  let ?l = "length (blocks B)" and ?n = "nextreg B" and ?H = "header_builder inits B"
  let ?ps = "zip [?n..<?n + length inits] (map (\<lambda>a. [(a, cur B)]) inits)"
  have l: "?l < length (blocks ?H)" and b: "cur B < length (blocks ?H)"
    using B by (auto simp: header_builder_def wfB_def)
  have "phis (blocks ?H ! ?l) = ?ps" by (simp add: nth_header)
  then have "enter F (cur B) ?l e m = Some (Run ?l 0 (e([?n..<?n + length inits] [\<mapsto>] vs)) m)"
    using code_le_nth [OF F l] vs by (intro enter_phis [where ps = ?ps]) (auto simp: block_le_def)
  moreover have "blocks ?H ! cur B = (blocks B ! cur B)\<lparr>terminator := Some (Br ?l)\<rparr>"
    using B by (rule nth_header_cur)
  then have "body (F ! cur B) = body (blocks B ! cur B) \<and> terminator (F ! cur B) = Some (Br ?l)"
    using code_le_nth(2) [OF F b] by (simp add: block_le_def body_le_def)
  ultimately show ?thesis using code_le_nth(1) [OF F b] by (simp add: insertion_point_def)
qed

lemma rounds:
  assumes r: "\<And>k s. k < N \<Longrightarrow> J k s \<Longrightarrow>
      \<exists>s'. steps G F (C s) (if Suc k = N then D s' else C s') \<and> J (Suc k) s'"
    and "k < N" "J k s"
  shows "\<exists>s'. steps G F (C s) (D s') \<and> J N s'"
  using assms(2,3)
proof (induction "N - k" arbitrary: k s)
  case (Suc d)
  obtain s' where s': "steps G F (C s) (if Suc k = N then D s' else C s')" "J (Suc k) s'"
    using r [OF Suc.prems] by blast
  show ?case
  proof (cases "Suc k = N")
    case False
    then have "Suc k < N" using Suc.prems by simp
    moreover have "d = N - Suc k" using Suc.hyps(2) by simp
    ultimately obtain s'' where "steps G F (C s') (D s'')" "J N s''"
      using Suc.hyps(1) s'(2) by blast
    then show ?thesis using s'(1) False by (auto intro: steps_trans)
  qed (use s' in auto)
qed simp

lemma insertion_point_header: "insertion_point (header_builder inits B) e m = Run (length (blocks B)) 0 e m"
proof -
  have "cur (header_builder inits B) = length (blocks B)" by (simp add: header_builder_def)
  then show ?thesis by (simp add: insertion_point_def nth_header)
qed

text \<open>One round of a loop: the body, then the exit branch or the back edge.\<close>

lemma loop_round:
  fixes B :: builder and inits :: "operand list"
  defines "l \<equiv> length (blocks B)" and "n \<equiv> nextreg B"
  defines "rs \<equiv> map Reg [n..<n + length inits]"
  assumes B: "wfB B" and run: "run_state (loop_body l rs) (header_builder inits B) = ((origin, nexts, c), B3)"
    and ok: "gen_ok (loop_body l rs)"
    and F: "code_le (blocks (footer_builder l origin rs nexts c B3)) F"
    and body: "emits G F (loop_body l rs) l (n + length inits) e m (\<lambda>(origin, nexts, c) cu n3 e3 m3.
        origin = cu \<and> (\<exists>vs'. length vs' = length inits \<and> list_all2 (holds n3 e3) nexts vs' \<and>
          holds n3 e3 c (VI1 x) \<and> P vs' m3))"
  shows "\<exists>vs' e' m'. steps G F (Run l 0 e m)
      (if x then insertion_point (footer_builder l origin rs nexts c B3) e' m'
       else Run l 0 (e'([n..<n + length inits] [\<mapsto>] vs')) m') \<and>
    length vs' = length inits \<and> agree (n + length inits) e e' \<and>
    list_all2 (holds (nextreg B3) e') nexts vs' \<and> P vs' m'"
proof -
  let ?H = "header_builder inits B"
  have H: "wfB ?H" using B by (rule wfB_header)
  have "extends ?H B3" using gen_okD [OF ok H] run by simp
  then have g: "grows (blocks ?H) (blocks B3)" and B3: "wfB B3" by (auto simp: extends_def)
  have "code_le (blocks B3) F" using footer_le [OF B3] F by (rule code_le_trans)
  moreover have "cur ?H = l" "nextreg ?H = n + length inits"
    by (auto simp: header_builder_def l_def n_def)
  ultimately obtain e' m' vs' where s: "steps G F (Run l 0 e m) (insertion_point B3 e' m')"
    and a: "agree (n + length inits) e e'" and o: "origin = cur B3"
    and vs': "length vs' = length inits" "list_all2 (holds (nextreg B3) e') nexts vs'"
      "holds (nextreg B3) e' c (VI1 x)" "P vs' m'"
    using body H run by (fastforce simp: emits_def triple_def insertion_point_header l_def)
  show ?thesis
  proof (cases x)
    case True
    have "step G F (insertion_point B3 e' m') =
        Some (insertion_point (footer_builder l origin rs nexts c B3) e' m')"
      using loop_exit [OF B3, of l rs nexts c F "nextreg B3" e' G m'] F vs'(3) True o by simp
    then have "steps G F (Run l 0 e m) (insertion_point (footer_builder l origin rs nexts c B3) e' m')"
      using s by (blast intro: steps_trans steps_one)
    then show ?thesis using True a vs'(1,2,4) by auto
  next
    case False
    have "step G F (insertion_point B3 e' m') = Some (Run l 0 (e'([n..<n + length inits] [\<mapsto>] vs')) m')"
      using loop_back [OF B g B3, of nexts c F "nextreg B3" e' vs' G m'] F vs' False o
      by (simp add: l_def n_def rs_def)
    then have "steps G F (Run l 0 e m) (Run l 0 (e'([n..<n + length inits] [\<mapsto>] vs')) m')"
      using s by (blast intro: steps_trans steps_one)
    then show ?thesis using False a vs'(1,2,4) by auto
  qed
qed

lemma emits_do_while:
  fixes inits :: "operand list" and I :: "nat \<Rightarrow> val list \<Rightarrow> mem \<Rightarrow> bool"
  assumes ok: "\<And>l rs. gen_ok (loop_body l rs)" and init: "list_all2 (holds n e) inits ivals"
    and I0: "I 0 ivals m" and N: "0 < N"
    and body: "\<And>k vs l rs n2 e2 m2. k < N \<Longrightarrow> I k vs m2 \<Longrightarrow> n \<le> n2 \<Longrightarrow> agree n e e2 \<Longrightarrow>
      list_all2 (holds n2 e2) rs vs \<Longrightarrow> length vs = length inits \<Longrightarrow>
      emits G F (loop_body l rs) l n2 e2 m2 (\<lambda>(origin, nexts, c) cu n3 e3 m3. origin = cu \<and>
        (\<exists>vs'. length vs' = length inits \<and> list_all2 (holds n3 e3) nexts vs' \<and>
          holds n3 e3 c (VI1 (Suc k = N)) \<and> I (Suc k) vs' m3))"
    and post: "\<And>nexts vs cu n' e' m'. n \<le> n' \<Longrightarrow> agree n e e' \<Longrightarrow> I N vs m' \<Longrightarrow>
      list_all2 (holds n' e') nexts vs \<Longrightarrow> Q nexts cu n' e' m'"
  shows "emits G F (do_while inits loop_body) b n e m Q"
  unfolding emits_def triple_def
proof (intro allI impI, elim conjE)
  fix B :: builder assume B: "wfB B" and Bn: "cur B = b" "nextreg B = n"
  let ?l = "length (blocks B)" and ?R = "[n..<n + length inits]" and ?H = "header_builder inits B"
  let ?rs = "map Reg ?R"
  obtain origin nexts c B3 where r: "run_state (loop_body ?l ?rs) ?H = ((origin, nexts, c), B3)"
    by (metis prod_cases3 surj_pair)
  let ?B5 = "footer_builder ?l origin ?rs nexts c B3"
  have "extends ?H B3" using gen_okD [OF ok wfB_header [OF B]] r by (metis snd_conv)
  then have g: "grows (blocks ?H) (blocks B3)" "wfB B3" "nextreg B \<le> nextreg B3"
    by (auto simp: extends_def header_builder_def)
  have run: "run_state (do_while inits loop_body) B = (nexts, ?B5)"
    using g(2) r Bn by (intro run_do_while [OF B refl, unfolded Bn]) (auto simp: wfB_def)
  have ext: "extends B ?B5" using grows_footer [OF B g] Bn by simp
  have "\<exists>e' m'. steps G F (insertion_point B e m) (insertion_point ?B5 e' m') \<and>
      agree n e e' \<and> Q nexts (cur ?B5) (nextreg ?B5) e' m'" if F: "code_le (blocks ?B5) F"
  proof -
    have "code_le (blocks ?H) F"
      using g(1) footer_le [OF g(2)] F by (meson code_le_trans grows_code_le)
    from loop_start [OF B this init] Bn
    have s0: "step G F (insertion_point B e m) = Some (Run ?l 0 (e(?R [\<mapsto>] ivals)) m)" by simp
    let ?C = "\<lambda>(vs, e, m). Run ?l 0 (e(?R [\<mapsto>] vs)) m" and ?D = "\<lambda>(vs, e, m). insertion_point ?B5 e m"
    let ?J = "\<lambda>k (vs, e', m'). I k vs m' \<and> length vs = length inits \<and> agree n e e' \<and>
      (0 < k \<longrightarrow> list_all2 (holds (nextreg B3) e') nexts vs)"
    have round: "\<exists>s'. steps G F (?C s) (if Suc k = N then ?D s' else ?C s') \<and> ?J (Suc k) s'"
      if k: "k < N" and J: "?J k s" for k s
    proof -
      obtain vs e2 m2 where s: "s = (vs, e2, m2)" by (cases s)
      let ?e = "e2(?R [\<mapsto>] vs)"
      have a: "agree n e ?e" using J s agree_trans [OF _ agree_upds] by fastforce
      have "list_all2 (holds (n + length inits) ?e) ?rs vs" using J s by (simp add: holds_upds)
      then have "emits G F (loop_body ?l ?rs) ?l (n + length inits) ?e m2 (\<lambda>(origin, nexts, c) cu n3 e3 m3.
          origin = cu \<and> (\<exists>vs'. length vs' = length inits \<and> list_all2 (holds n3 e3) nexts vs' \<and>
          holds n3 e3 c (VI1 (Suc k = N)) \<and> I (Suc k) vs' m3))"
        using J s by (intro body [OF k _ le_add1 a]) auto
      from loop_round [where B = B and inits = inits and loop_body = loop_body and P = "I (Suc k)",
          unfolded Bn, OF B r ok F this] J s
      obtain vs' e' m' where "steps G F (?C s) (if Suc k = N then ?D (vs', e', m') else ?C (vs', e', m'))"
        "length vs' = length inits" "agree (n + length inits) ?e e'" "I (Suc k) vs' m'"
        "list_all2 (holds (nextreg B3) e') nexts vs'"
        by auto
      then show ?thesis using agree_trans [OF a] by (intro exI [of _ "(vs', e', m')"]) (auto simp: agree_def)
    qed
    have "?J 0 (ivals, e, m)" using I0 init by (auto dest: list_all2_lengthD)
    from rounds [where J = ?J, OF round N this] obtain vs' e' m' where
      "steps G F (Run ?l 0 (e(?R [\<mapsto>] ivals)) m) (insertion_point ?B5 e' m')" "I N vs' m'" "agree n e e'"
      "list_all2 (holds (nextreg B3) e') nexts vs'"
      using N by auto
    note end_state = this
    have n5: "n \<le> nextreg ?B5" "nextreg ?B5 = nextreg B3"
      using ext Bn by (auto simp: extends_def footer_builder_def)
    have "Q nexts (cur ?B5) (nextreg ?B5) e' m'"
      using end_state n5 by (intro post) auto
    moreover have "steps G F (insertion_point B e m) (insertion_point ?B5 e' m')"
      using s0 end_state(1) by (rule steps_step)
    ultimately show ?thesis using end_state(3) by blast
  qed
  then show "extends B (snd (run_state (do_while inits loop_body) B)) \<and>
     (code_le (blocks (snd (run_state (do_while inits loop_body) B))) F \<longrightarrow>
       (\<exists>e' m'. steps G F (insertion_point B e m) (insertion_point (snd (run_state (do_while inits loop_body) B)) e' m') \<and>
          agree (nextreg B) e e' \<and> Q (fst (run_state (do_while inits loop_body) B))
           (cur (snd (run_state (do_while inits loop_body) B))) (nextreg (snd (run_state (do_while inits loop_body) B))) e' m'))"
    using ext Bn by (simp add: run)
qed

end
