(* ===== verification/Emit_Rules.thy ===== *)
theory Emit_Rules
  imports Emit_Logic
begin

text \<open>
  One rule per builder operation, in the order an emitter calls them: the rule of
  an operation executes the instruction it emits and goes on with the rest of the
  emitter, whose operands then hold the values computed.  \<open>vcg\<close> collects the rules,
  \<open>hold\<close> the facts about which operand holds which value.  \<open>bytecode\<close> is the
  interface between a datatype and its basetype: code that moves the bytes at the
  displacements \<open>D n\<close> between a scattered and a compact buffer.
\<close>

named_theorems hold \<open>which value an operand holds\<close>

section \<open>Rules of the builder operations\<close>

lemma emits_tail: "emits G F (State_Monad.bind g State_Monad.return) c n e m Q \<Longrightarrow> emits G F g c n e m Q"
  by simp

lemma emits_if: "P \<Longrightarrow> emits G F g c n e m Q \<Longrightarrow> emits G F (if P then g else h) c n e m Q"
  by simp

lemma holds_newI [hold]: "holds (Suc n) (e(n \<mapsto> v)) (Reg n) v"
  by simp

declare holds_old [hold]

lemma holds_constI [hold]: "holds n e (CI32 w) (VI32 w)" "holds n e (CI64 x) (VI64 x)"
  "holds n e (GlobalRef g) (VGlob g 0)"
  by simp_all

lemma holds_constNode [hold]: "holds n e (constNode v) (VI32 (word_of_int v))"
  "holds n e (constNode_long v) (VI64 (word_of_int v))"
  by (simp_all add: constNode_def constNode_long_def)

lemma holds_constNode_iff [simp]: "holds n e (constNode v) x \<longleftrightarrow> x = VI32 (word_of_int v)"
  "holds n e (constNode_long v) x \<longleftrightarrow> x = VI64 (word_of_int v)"
  by (simp_all add: constNode_def constNode_long_def)

lemma holds_ev: "holds n e a v \<Longrightarrow> ev e a = Some v"
  by (simp add: holds_def)

lemma emits_PtrToInt [vcg]:
  "holds n e a (VPtr p) \<Longrightarrow> emits G F (h (Reg n)) c (Suc n) (e(n \<mapsto> VI64 p)) m Q \<Longrightarrow>
   emits G F (State_Monad.bind (CreatePtrToInt a) h) c n e m Q"
  by (simp add: CreatePtrToInt_def emits_emit holds_ev)

lemma emits_IntToPtr [vcg]:
  "holds n e a (VI64 w) \<Longrightarrow> emits G F (h (Reg n)) c (Suc n) (e(n \<mapsto> VPtr w)) m Q \<Longrightarrow>
   emits G F (State_Monad.bind (CreateIntToPtr a) h) c n e m Q"
  by (simp add: CreateIntToPtr_def emits_emit holds_ev)

lemma emits_BitCast [vcg]:
  "holds n e a (VPtr p) \<Longrightarrow> emits G F (h (Reg n)) c (Suc n) (e(n \<mapsto> VPtr p)) m Q \<Longrightarrow>
   emits G F (State_Monad.bind (CreateBitCast a) h) c n e m Q"
  by (simp add: CreateBitCast_def emits_emit holds_ev)

text \<open>The operations that have a 32 bit and a 64 bit form.\<close>

fun add_val :: "val \<Rightarrow> val \<Rightarrow> val option" where
  "add_val (VI64 x) (VI64 y) = Some (VI64 (x + y))"
| "add_val (VI32 x) (VI32 y) = Some (VI32 (x + y))"
| "add_val _ _ = None"

fun eq_val :: "val \<Rightarrow> val \<Rightarrow> bool option" where
  "eq_val (VI64 x) (VI64 y) = Some (x = y)"
| "eq_val (VI32 x) (VI32 y) = Some (x = y)"
| "eq_val _ _ = None"

declare add_val.simps(1,2) [hold] eq_val.simps(1,2) [hold]

lemma emits_Add [vcg]:
  "holds n e a x \<Longrightarrow> holds n e b y \<Longrightarrow> add_val x y = Some v \<Longrightarrow>
   emits G F (h (Reg n)) c (Suc n) (e(n \<mapsto> v)) m Q \<Longrightarrow>
   emits G F (State_Monad.bind (CreateAdd a b) h) c n e m Q"
  by (cases x; cases y) (auto simp: CreateAdd_def emits_emit holds_ev)

lemma emits_Sub32 [vcg]:
  "holds n e a (VI32 x) \<Longrightarrow> holds n e b (VI32 y) \<Longrightarrow>
   emits G F (h (Reg n)) c (Suc n) (e(n \<mapsto> VI32 (x - y))) m Q \<Longrightarrow>
   emits G F (State_Monad.bind (CreateSub a b) h) c n e m Q"
  by (simp add: CreateSub_def emits_emit holds_ev)

lemma emits_Mul [vcg]:
  "holds n e a (VI64 x) \<Longrightarrow> holds n e b (VI64 y) \<Longrightarrow>
   emits G F (h (Reg n)) c (Suc n) (e(n \<mapsto> VI64 (x * y))) m Q \<Longrightarrow>
   emits G F (State_Monad.bind (CreateMul a b) h) c n e m Q"
  by (simp add: CreateMul_def emits_emit holds_ev)

lemma emits_ZExt [vcg]:
  "holds n e a (VI32 w) \<Longrightarrow> emits G F (h (Reg n)) c (Suc n) (e(n \<mapsto> VI64 (of_nat (unat w)))) m Q \<Longrightarrow>
   emits G F (State_Monad.bind (CreateZExt a) h) c n e m Q"
  using emits_emit [of G "\<lambda>r. ZExt r a" n e m "VI64 (of_nat (unat w))" F h c Q]
  by (simp add: CreateZExt_def holds_ev)

lemma emits_ICmpEQ [vcg]:
  "holds n e a x \<Longrightarrow> holds n e b y \<Longrightarrow> eq_val x y = Some t \<Longrightarrow>
   emits G F (h (Reg n)) c (Suc n) (e(n \<mapsto> VI1 t)) m Q \<Longrightarrow>
   emits G F (State_Monad.bind (CreateICmpEQ a b) h) c n e m Q"
  by (cases x; cases y) (auto simp: CreateICmpEQ_def emits_emit holds_ev)

lemma emits_GEP [vcg]:
  "holds n e a (VGlob g x) \<Longrightarrow> holds n e b (VI64 y) \<Longrightarrow>
   emits G F (h (Reg n)) c (Suc n) (e(n \<mapsto> VGlob g (x + y))) m Q \<Longrightarrow>
   emits G F (State_Monad.bind (CreateGEP a b) h) c n e m Q"
  by (simp add: CreateGEP_def emits_emit holds_ev)

lemma emits_LoadI32 [vcg]:
  "holds n e a (VGlob g x) \<Longrightarrow> g < length G \<Longrightarrow> unat x < length (G ! g) \<Longrightarrow>
   emits G F (h (Reg n)) c (Suc n) (e(n \<mapsto> VI32 (G ! g ! unat x))) m Q \<Longrightarrow>
   emits G F (State_Monad.bind (CreateLoad a) h) c n e m Q"
  by (simp add: CreateLoad_def emits_emit holds_ev)

lemma emits_GetInsertBlock [vcg]:
  "emits G F (h c) c n e m Q \<Longrightarrow> emits G F (State_Monad.bind GetInsertBlock h) c n e m Q"
  by (simp add: emits_def triple_def GetInsertBlock_def)

lemma emits_MemCpy [vcg]:
  "holds n e d (VPtr p) \<Longrightarrow> holds n e s (VPtr q) \<Longrightarrow> holds n e k (VI64 w) \<Longrightarrow>
   copyable (seg p q (unat w)) m \<Longrightarrow>
   emits G F (h ()) c n e (cps (seg p q (unat w)) m) Q \<Longrightarrow>
   emits G F (State_Monad.bind (CreateMemCpy d s k) h) c n e m Q"
  by (simp add: CreateMemCpy_def emits_emit_void holds_ev mem_copy_seg)

lemma emits_multNode [vcg]:
  "holds n e a (VI32 w) \<Longrightarrow>
   emits G F (h (Reg (Suc n))) c (Suc (Suc n))
     (e(n \<mapsto> VI64 (of_nat (unat w)), Suc n \<mapsto> VI64 (word_of_int op1 * of_nat (unat w)))) m Q \<Longrightarrow>
   emits G F (State_Monad.bind (multNode op1 a) h) c n e m Q"
  unfolding multNode_def Let_def State_Monad.bind_assoc
  by (assumption | rule vcg hold)+

lemma emits_incrementPtr [vcg]:
  "holds n e a (VPtr p) \<Longrightarrow>
   emits G F (h (Reg (Suc (Suc n)))) c (Suc (Suc (Suc n)))
     (e(n \<mapsto> VI64 p, Suc n \<mapsto> VI64 (p + word_of_int k), Suc (Suc n) \<mapsto> VPtr (p + word_of_int k))) m Q \<Longrightarrow>
   emits G F (State_Monad.bind (incrementPtr a k) h) c n e m Q"
  unfolding incrementPtr_def State_Monad.bind_assoc
  by (assumption | rule vcg hold)+

lemma emits_vmove [vcg]:
  assumes dst: "holds n e dst (VPtr q)" and src: "holds n e src (VPtr p)"
    and cp: "copyable (seg q p (nat cnt * store_size t)) m"
    and k: "\<And>bs. emits G F (h ()) c (Suc (Suc (Suc n)))
      (e(n \<mapsto> VPtr p, Suc n \<mapsto> VPtr q, Suc (Suc n) \<mapsto> VVec bs)) (cps (seg q p (nat cnt * store_size t)) m) Q"
  shows "emits G F (State_Monad.bind (vmove dst src cnt t) h) c n e m Q"
proof -
  obtain bs where bs: "load_bytes m p (nat cnt * store_size t) = Some bs"
    "store_bytes m q bs = Some (cps (seg q p (nat cnt * store_size t)) m)"
    using cp by (rule load_store_seg)
  let ?e1 = "e(n \<mapsto> VPtr p)" and ?e2 = "e(n \<mapsto> VPtr p, Suc n \<mapsto> VPtr q)"
  let ?e3 = "e(n \<mapsto> VPtr p, Suc n \<mapsto> VPtr q, Suc (Suc n) \<mapsto> VVec bs)"
  have "exec_instr G (LoadVec (Suc (Suc n)) (Reg n) (nat cnt * store_size t)) ?e2 m = Some (?e3, m)"
    using bs by simp
  moreover have "exec_instr G (StoreVec (Reg (Suc (Suc n))) (Reg (Suc n))) ?e3 m =
      Some (?e3, cps (seg q p (nat cnt * store_size t)) m)"
    using bs by simp
  ultimately show ?thesis
    unfolding vmove_def State_Monad.bind_assoc CreateAlignedLoad_def CreateAlignedStore_def
    apply (intro emits_BitCast [OF src] emits_BitCast [OF holds_old [OF dst]])
    apply (rule emits_emit, assumption)
    apply (rule emits_emit_void, assumption)
    apply (rule k)
    done
qed

end
