(* ===== verification/Layout.thy ===== *)
theory Layout
  imports Emit_Rules
begin

text \<open>
  Byte layouts.  A layout is the list of the displacements of the bytes of a
  datatype in the order they are packed.  \<open>rep\<close> repeats a layout at multiples of
  an extent, \<open>xfer\<close> is the list of copies that packs a layout (from the scattered
  input to the compact output) or unpacks it, and the locale \<open>bytecode\<close> is the
  interface between the code of a datatype and the code of its basetype.
\<close>

definition shift :: "int \<Rightarrow> int list \<Rightarrow> int list" where
  "shift d D = map (\<lambda>x. d + x) D"

definition blocks_at :: "(int \<times> int list) list \<Rightarrow> int list" where
  "blocks_at bs = concat (map (\<lambda>(d, D). shift d D) bs)"

definition rep :: "nat \<Rightarrow> int \<Rightarrow> int list \<Rightarrow> int list" where
  "rep n ext D = blocks_at (map (\<lambda>i. (int i * ext, D)) [0..<n])"

lemma length_shift [simp]: "length (shift d D) = length D"
  by (simp add: shift_def)

lemma shift_0 [simp]: "shift 0 D = D"
  by (simp add: shift_def)

lemma shift_shift [simp]: "shift a (shift b D) = shift (a + b) D"
  by (simp add: shift_def add.assoc)

lemma shift_append [simp]: "shift d (D @ D') = shift d D @ shift d D'"
  by (simp add: shift_def)

lemma shift_Nil [simp]: "shift d [] = []"
  by (simp add: shift_def)

lemma blocks_at_simps [simp]:
  "blocks_at [] = []" "blocks_at ((d, D) # bs) = shift d D @ blocks_at bs"
  "blocks_at (bs @ bs') = blocks_at bs @ blocks_at bs'"
  by (simp_all add: blocks_at_def)

lemma rep_0 [simp]: "rep 0 ext D = []"
  by (simp add: rep_def)

lemma rep_Suc: "rep (Suc n) ext D = rep n ext D @ shift (int n * ext) D"
  by (simp add: rep_def)

lemma rep_1 [simp]: "rep (Suc 0) ext D = D"
  by (simp add: rep_Suc)

lemma length_rep [simp]: "length (rep n ext D) = n * length D"
  by (induction n) (auto simp: rep_Suc)

lemma rep_add: "rep (n + k) ext D = rep n ext D @ shift (int n * ext) (rep k ext D)"
  by (induction k) (auto simp: rep_Suc algebra_simps)

lemma rep_mult: "rep (n * k) ext D = rep n (int k * ext) (rep k ext D)"
proof (induction n)
  case (Suc n)
  have "rep (Suc n * k) ext D = rep (n * k + k) ext D" by (simp add: add.commute)
  then show ?case by (simp only: rep_add Suc rep_Suc) (simp add: algebra_simps)
qed simp

lemma rep_le: "k \<le> n \<Longrightarrow> \<exists>D'. rep n ext D = rep k ext D @ D'"
  using rep_add [of k "n - k" ext D] by auto

lemma shift_rep: "shift d (rep n ext D) = rep n ext (shift d D)"
  by (induction n) (auto simp: rep_Suc add.commute)

lemma set_shift [simp]: "set (shift d D) = (\<lambda>x. d + x) ` set D"
  by (simp add: shift_def)

lemma set_rep: "set (rep n ext D) = (\<Union>i < n. (\<lambda>x. int i * ext + x) ` set D)"
  by (induction n) (auto simp: rep_Suc lessThan_Suc)

section \<open>Transfers\<close>

fun moves :: "bool \<Rightarrow> i64 \<Rightarrow> i64 \<Rightarrow> int list \<Rightarrow> copies" where
  "moves pack s c [] = []"
| "moves pack s c (d # D) =
     (if pack then (c, s + word_of_int d) else (s + word_of_int d, c)) # moves pack s (c + 1) D"

text \<open>The buffers are named by their role: \<open>inb\<close> is read and \<open>outb\<close> is written.\<close>

definition xfer :: "bool \<Rightarrow> i64 \<Rightarrow> i64 \<Rightarrow> int list \<Rightarrow> copies" where
  "xfer pack inb outb D = (if pack then moves True inb outb D else moves False outb inb D)"

lemma moves_append: "moves pack s c (D @ D') = moves pack s c D @ moves pack s (c + of_nat (length D)) D'"
  by (induction D arbitrary: c) (auto simp: algebra_simps)

lemma moves_shift: "moves pack s c (shift d D) = moves pack (s + word_of_int d) c D"
  by (induction D arbitrary: c) (auto simp: shift_def algebra_simps)

text \<open>Where the scattered and the compact buffer stand after \<open>k\<close> layouts of \<open>len\<close> bytes.\<close>

definition in_at :: "bool \<Rightarrow> i64 \<Rightarrow> int \<Rightarrow> int \<Rightarrow> i64" where
  "in_at pack inb d len = inb + word_of_int (if pack then d else len)"

definition out_at :: "bool \<Rightarrow> i64 \<Rightarrow> int \<Rightarrow> int \<Rightarrow> i64" where
  "out_at pack outb d len = outb + word_of_int (if pack then len else d)"

lemma xfer_nil [simp]: "xfer pack p q [] = []"
  by (simp add: xfer_def)

lemma xfer_append_shift:
  "xfer pack p q (A @ shift d B) = xfer pack p q A @
     xfer pack (in_at pack p d (int (length A))) (out_at pack q d (int (length A))) B"
  by (simp add: xfer_def moves_append moves_shift in_at_def out_at_def)

lemma xfer_append:
  "xfer pack p q (A @ B) = xfer pack p q A @
     xfer pack (in_at pack p 0 (int (length A))) (out_at pack q 0 (int (length A))) B"
  using xfer_append_shift [of pack p q A 0 B] by simp

lemma xfer_shift: "xfer pack p q (shift d B) = xfer pack (in_at pack p d 0) (out_at pack q d 0) B"
  using xfer_append_shift [of pack p q "[]" d B] by simp

text \<open>A run of consecutive displacements is a run of consecutive bytes.\<close>

lemma moves_upto:
  "moves True s c (map int [0..<n]) = seg c s n" "moves False s c (map int [0..<n]) = seg s c n"
proof (induction n)
  case (Suc n)
  have "seg c s (Suc n) = seg c s n @ [(c + of_nat n, s + of_nat n)]" for c s
    by (simp add: seg_def)
  then show "moves True s c (map int [0..<Suc n]) = seg c s (Suc n)"
    "moves False s c (map int [0..<Suc n]) = seg s c (Suc n)"
    using Suc by (simp_all add: moves_append)
qed (simp_all add: seg_def)

lemma xfer_upto: "xfer pack p q (map int [0..<n]) = seg q p n"
  by (simp add: xfer_def moves_upto)

lemma rep_upto: "rep n (int k) (map int [0..<k]) = map int [0..<n * k]"
proof (induction n)
  case (Suc n)
  have "[0..<Suc n * k] = [0..<n * k] @ map (\<lambda>i. i + n * k) [0..<k]"
    using map_add_upt [of "n * k" k] upt_add_eq_append [of 0 "n * k" k] by (simp add: add.commute)
  then show ?case by (simp add: rep_Suc Suc shift_def comp_def add.commute)
qed simp

lemma copyable_middle: "copyable (A @ B @ C) m \<Longrightarrow> copyable B (cps A m)"
  by (rule copyable_append1 [of B C]) (rule copyable_append2)

lemma copyable_xfer_block:
  assumes "copyable (xfer pack p q (A @ shift d B @ C)) m"
  shows "copyable (xfer pack (in_at pack p d (int (length A))) (out_at pack q d (int (length A))) B)
    (cps (xfer pack p q A) m)"
proof (rule copyable_middle)
  have "xfer pack p q (A @ shift d B @ C) = xfer pack p q A @
      xfer pack (in_at pack p d (int (length A))) (out_at pack q d (int (length A))) B @
      xfer pack (in_at pack p 0 (int (length (A @ shift d B)))) (out_at pack q 0 (int (length (A @ shift d B)))) C"
    using xfer_append [of pack p q "A @ shift d B" C] by (simp add: xfer_append_shift)
  then show "copyable (xfer pack p q A @
      xfer pack (in_at pack p d (int (length A))) (out_at pack q d (int (length A))) B @
      xfer pack (in_at pack p 0 (int (length (A @ shift d B)))) (out_at pack q 0 (int (length (A @ shift d B)))) C) m"
    using assms by simp
qed

lemma copyable_xfer_rep:
  assumes "copyable (xfer pack p q (rep N ext D)) m" "k < N"
  shows "copyable (xfer pack (in_at pack p (int k * ext) (int k * int (length D)))
    (out_at pack q (int k * ext) (int k * int (length D))) D) (cps (xfer pack p q (rep k ext D)) m)"
proof -
  obtain C where C: "rep N ext D = rep (Suc k) ext D @ C" using rep_le [of "Suc k" N ext D] assms(2) by auto
  then have "rep N ext D = rep k ext D @ shift (int k * ext) D @ C" by (simp add: rep_Suc)
  from copyable_xfer_block [OF assms(1) [unfolded this]] show ?thesis by simp
qed

lemma xfer_rep_Suc:
  "xfer pack p q (rep (Suc k) ext D) = xfer pack p q (rep k ext D) @
     xfer pack (in_at pack p (int k * ext) (int k * int (length D)))
       (out_at pack q (int k * ext) (int k * int (length D))) D"
  by (simp add: rep_Suc xfer_append_shift)

lemma at_0 [simp]: "in_at pack p 0 0 = p" "out_at pack p 0 0 = p"
  by (simp_all add: in_at_def out_at_def)

lemma at_step:
  "in_at pack p (int k * a) (int k * b) + word_of_int (if pack then a else b) =
     in_at pack p (int (Suc k) * a) (int (Suc k) * b)"
  "out_at pack p (int k * a) (int k * b) + word_of_int (if pack then b else a) =
     out_at pack p (int (Suc k) * a) (int (Suc k) * b)"
  by (simp_all add: in_at_def out_at_def algebra_simps)

section \<open>The interface between a datatype and its basetype\<close>

text \<open>
  \<open>code a k b\<close> emits code for \<open>k\<close> elements from the buffer \<open>a\<close> to the buffer \<open>b\<close>.
  A count is positive: the loops the generators emit test after the first round.
\<close>

locale bytecode =
  fixes pack :: bool and G :: globals and code :: "operand \<Rightarrow> operand \<Rightarrow> operand \<Rightarrow> unit gen"
    and D :: "nat \<Rightarrow> int list"
  assumes code_ok: "gen_ok (code a k b)"
    and code_moves: "\<lbrakk>holds n e a (VPtr p); holds n e k (VI32 w); holds n e b (VPtr q); 0 <s w;
      copyable (xfer pack p q (D (unat w))) m\<rbrakk> \<Longrightarrow>
      emits G F (code a k b) c n e m (\<lambda>_ _ _ _ m'. m' = cps (xfer pack p q (D (unat w))) m)"

text \<open>
  Code for a given number of elements that opens no block: what the loop of
  codegenIndexedBlock needs of the basetype, whose phi entries name the block the
  loop starts with.
\<close>

locale straight_bytecode = bytecode +
  fixes blocklen :: int
  assumes straight: "\<lbrakk>holds n e a (VPtr p); holds n e b (VPtr q); 0 < blocklen;
      copyable (xfer pack p q (D (nat blocklen))) m\<rbrakk> \<Longrightarrow>
      emits G F (code a (constNode blocklen) b) c n e m
        (\<lambda>_ c' _ _ m'. c' = c \<and> m' = cps (xfer pack p q (D (nat blocklen))) m)"

end
