(* ===== verification/Typemap.thy ===== *)
theory Typemap
  imports Datatypes Layout
begin

text \<open>
  The specification of a datatype: the type map that the MPI standard gives it, as
  the list of the displacements of its bytes with its lower and upper bound, and
  the datatypes whose stored fields are the ones the standard prescribes.
\<close>

record tm =
  tm_bytes :: "int list"
  tm_lb :: int
  tm_ub :: int

definition tm_extent :: "tm \<Rightarrow> int" where
  "tm_extent m = tm_ub m - tm_lb m"

text \<open>
  Type maps side by side at the given displacements.  The bounds are those of the
  blocks that hold data, and zero when there is none.
\<close>

definition tm_blocks :: "(int \<times> tm) list \<Rightarrow> tm" where
  "tm_blocks bs =
     (let data = filter (\<lambda>(d, m). tm_bytes m \<noteq> []) bs
      in \<lparr>tm_bytes = blocks_at (map (\<lambda>(d, m). (d, tm_bytes m)) bs),
          tm_lb = (if data = [] then 0 else Min (set (map (\<lambda>(d, m). d + tm_lb m) data))),
          tm_ub = (if data = [] then 0 else Max (set (map (\<lambda>(d, m). d + tm_ub m) data)))\<rparr>)"

definition tm_rep :: "nat \<Rightarrow> tm \<Rightarrow> tm" where
  "tm_rep n m = tm_blocks (map (\<lambda>i. (int i * tm_extent m, m)) [0..<n])"

fun mpi :: "ddt \<Rightarrow> tm" where
  "mpi (Primitive d type) =
     (let k = store_size (toLLVMType type) in \<lparr>tm_bytes = map int [0..<k], tm_lb = 0, tm_ub = int k\<rparr>)"
| "mpi (Contiguous d count b) = tm_rep (nat count) (mpi b)"
| "mpi (Vector d count blocklen stride b) =
     tm_blocks (map (\<lambda>j. (int j * (stride * tm_extent (mpi b)), tm_rep (nat blocklen) (mpi b))) [0..<nat count])"
| "mpi (HVector d count blocklen stride b) =
     tm_blocks (map (\<lambda>j. (int j * stride, tm_rep (nat blocklen) (mpi b))) [0..<nat count])"
| "mpi (IndexedBlock d count blocklen displs b _) =
     tm_blocks (map (\<lambda>x. (x * tm_extent (mpi b), tm_rep (nat blocklen) (mpi b))) (take (nat count) displs))"
| "mpi (HIndexed d count blocklens displs b) =
     tm_blocks (map2 (\<lambda>x l. (x, tm_rep (nat l) (mpi b))) (take (nat count) displs) blocklens)"
| "mpi (Struct d count blocklens displs bs) =
     tm_blocks (zip (take (nat count) displs) (map2 (\<lambda>l m. tm_rep (nat l) m) blocklens (map mpi bs)))"
| "mpi (Resized d b) = (mpi b)\<lparr>tm_lb := lower_bound d, tm_ub := upper_bound d\<rparr>"

definition dims_exact :: "ddt \<Rightarrow> bool" where
  "dims_exact t \<longleftrightarrow> getSize t = int (length (tm_bytes (mpi t))) \<and>
     getLowerBound t = tm_lb (mpi t) \<and> getUpperBound t = tm_ub (mpi t)"

text \<open>
  The datatypes whose stored size and bounds are exact: positive counts, block
  lengths and strides, and the conditions under which the constructors of the
  indexed types and of structs compute the bounds of the standard.
\<close>

definition spans :: "int \<times> int \<Rightarrow> (int \<times> int) list \<Rightarrow> bool" where
  "spans b bs \<longleftrightarrow> list_ex (\<lambda>x. fst x \<le> fst b) bs \<and> list_ex (\<lambda>x. snd b \<le> snd x) bs"

definition fits_int :: "int \<Rightarrow> bool" where
  "fits_int x \<longleftrightarrow> - (2 ^ 31) \<le> x \<and> x < 2 ^ 31"

fun regular :: "ddt \<Rightarrow> bool" where
  "regular (Primitive d type) = True"
| "regular (Contiguous d count b) = (regular b \<and> 0 < count)"
| "regular (Vector d count blocklen stride b) = (regular b \<and> 0 < count \<and> 0 < blocklen \<and> 0 < stride)"
| "regular (HVector d count blocklen stride b) = (regular b \<and> 0 < count \<and> 0 < blocklen \<and> 0 < stride)"
| "regular (IndexedBlock d count blocklen displs b _) =
     (let ext = getExtent b in regular b \<and> 0 < count \<and> blocklen = 1 \<and> getLowerBound b = 0 \<and>
        spans (displs ! 0, displs ! 0 + ext) (map (\<lambda>x. (x * ext, (x + 1) * ext)) displs))"
| "regular (HIndexed d count blocklens displs b) =
     (regular b \<and> 0 < count \<and> getLowerBound b = 0 \<and> list_all (\<lambda>l. 0 < l) blocklens \<and>
        list_all2 (\<lambda>x l. fits_int x \<and> fits_int (x + l * getExtent b)) displs blocklens)"
| "regular (Struct d count blocklens displs bs) =
     (list_all regular bs \<and> 0 < count \<and> list_all (\<lambda>l. 0 < l) blocklens \<and>
        list_all (\<lambda>b. getLowerBound b = 0) bs \<and>
        list_all2 (\<lambda>x (l, b). fits_int x \<and> fits_int (x + l * getExtent b)) displs (zip blocklens bs) \<and>
        spans (0, 0) (map2 (\<lambda>x (l, b). (x, x + l * getExtent b)) displs (zip blocklens bs)))"
| "regular (Resized d b) = (regular b \<and> lower_bound d < upper_bound d)"

section \<open>Type maps of repeated blocks\<close>

lemma tm_blocks_bytes [simp]: "tm_bytes (tm_blocks bs) = blocks_at (map (\<lambda>(d, m). (d, tm_bytes m)) bs)"
  by (simp add: tm_blocks_def Let_def)

lemma tm_rep_bytes [simp]: "tm_bytes (tm_rep n m) = rep n (tm_extent m) (tm_bytes m)"
  by (simp add: tm_rep_def rep_def comp_def)

lemma tm_blocks_bounds:
  assumes "bs \<noteq> []" "\<forall>(d, m) \<in> set bs. tm_bytes m \<noteq> []"
  shows "tm_lb (tm_blocks bs) = Min ((\<lambda>(d, m). d + tm_lb m) ` set bs)"
    and "tm_ub (tm_blocks bs) = Max ((\<lambda>(d, m). d + tm_ub m) ` set bs)"
proof -
  have "filter (\<lambda>(d, m). tm_bytes m \<noteq> []) bs = bs" using assms(2) by (intro filter_True) auto
  then show "tm_lb (tm_blocks bs) = Min ((\<lambda>(d, m). d + tm_lb m) ` set bs)"
    "tm_ub (tm_blocks bs) = Max ((\<lambda>(d, m). d + tm_ub m) ` set bs)"
    using assms(1) by (simp_all add: tm_blocks_def Let_def)
qed

text \<open>Blocks of one type map at increasing displacements.\<close>

lemma tm_steps:
  fixes n :: nat and step :: int
  assumes "0 < n" "0 \<le> step" "tm_bytes m \<noteq> []"
  defines "M \<equiv> tm_blocks (map (\<lambda>i. (int i * step, m)) [0..<n])"
  shows "tm_lb M = tm_lb m" "tm_ub M = tm_ub m + int (n - 1) * step"
proof -
  have ne: "map (\<lambda>i. (int i * step, m)) [0..<n] \<noteq> []" "\<forall>(d, m) \<in> set (map (\<lambda>i. (int i * step, m)) [0..<n]). tm_bytes m \<noteq> []"
    using assms by auto
  have "Min ((\<lambda>i. int i * step + tm_lb m) ` {0..<n}) = tm_lb m"
    using assms(1,2) by (intro Min_eqI) (auto intro: image_eqI [where x = 0])
  then show "tm_lb M = tm_lb m"
    unfolding M_def tm_blocks_bounds(1) [OF ne] by (simp add: image_image)
  have le: "int i * step \<le> int (n - 1) * step" if "i < n" for i
    using that assms(2) by (intro mult_right_mono) auto
  have "Max ((\<lambda>i. int i * step + tm_ub m) ` {0..<n}) = tm_ub m + int (n - 1) * step"
  proof (rule Max_eqI)
    show "tm_ub m + int (n - 1) * step \<in> (\<lambda>i. int i * step + tm_ub m) ` {0..<n}"
      using assms(1) by (intro image_eqI [where x = "n - 1"]) auto
  qed (use le in auto)
  then show "tm_ub M = tm_ub m + int (n - 1) * step"
    unfolding M_def tm_blocks_bounds(2) [OF ne] by (simp add: image_image)
qed

lemma rep_empty [simp]: "rep n ext D = [] \<longleftrightarrow> n = 0 \<or> D = []"
  by (metis length_0_conv length_rep mult_is_0)

lemma tm_rep_bounds:
  assumes "0 < n" "0 \<le> tm_extent m" "tm_bytes m \<noteq> []"
  shows "tm_lb (tm_rep n m) = tm_lb m" "tm_ub (tm_rep n m) = tm_ub m + int (n - 1) * tm_extent m"
    "tm_extent (tm_rep n m) = int n * tm_extent m"
proof -
  show "tm_lb (tm_rep n m) = tm_lb m" "tm_ub (tm_rep n m) = tm_ub m + int (n - 1) * tm_extent m"
    unfolding tm_rep_def using tm_steps [OF assms] .
  then show "tm_extent (tm_rep n m) = int n * tm_extent m"
    using assms(1) by (simp add: tm_extent_def algebra_simps of_nat_diff)
qed

lemma widen_bounds:
  "fst (widen b bs) = Min (insert (fst b) (fst ` set bs))"
  "snd (widen b bs) = Max (insert (snd b) (snd ` set bs))"
proof -
  have "fst (widen b bs) = Min (insert (fst b) (fst ` set bs)) \<and>
    snd (widen b bs) = Max (insert (snd b) (snd ` set bs))"
  proof (induction b bs rule: widen.induct)
    case (2 lb ub tmp_lb tmp_ub bs)
    have "Min (insert lb (insert tmp_lb (fst ` set bs))) = Min (insert (min lb tmp_lb) (fst ` set bs))"
      "Max (insert ub (insert tmp_ub (snd ` set bs))) = Max (insert (max ub tmp_ub) (snd ` set bs))"
      by (cases "set bs = {}"; simp add: min.assoc max.assoc)+
    then show ?case using 2 by (simp add: min_def max_def)
  qed simp
  then show "fst (widen b bs) = Min (insert (fst b) (fst ` set bs))"
    "snd (widen b bs) = Max (insert (snd b) (snd ` set bs))" by auto
qed

lemma widen_spans:
  assumes "spans b bs"
  shows "fst (widen b bs) = Min (fst ` set bs)" "snd (widen b bs) = Max (snd ` set bs)"
proof -
  obtain x y where x: "x \<in> set bs" "fst x \<le> fst b" and y: "y \<in> set bs" "snd b \<le> snd y"
    using assms by (auto simp: spans_def list_ex_iff)
  have ne: "set bs \<noteq> {}" using x by auto
  have mi: "Min (insert (fst b) (fst ` set bs)) = min (fst b) (Min (fst ` set bs))"
    and mx: "Max (insert (snd b) (snd ` set bs)) = max (snd b) (Max (snd ` set bs))"
    using ne by (auto intro: Min_insert Max_insert)
  have "Min (fst ` set bs) \<le> fst b" using x by (meson Min_le finite_imageI finite_set imageI order_trans)
  then show "fst (widen b bs) = Min (fst ` set bs)" by (simp only: widen_bounds mi min.absorb2)
  have "snd b \<le> Max (snd ` set bs)" using y by (meson Max_ge finite_imageI finite_set imageI order_trans)
  then show "snd (widen b bs) = Max (snd ` set bs)" by (simp only: widen_bounds mx max.absorb2)
qed

text \<open>The invariant of the bounds proof, and the constructors that keep it.\<close>

definition sound :: "ddt \<Rightarrow> bool" where
  "sound t \<longleftrightarrow> dims_exact t \<and> tm_bytes (mpi t) \<noteq> [] \<and> 0 < tm_extent (mpi t)"

lemma soundD:
  assumes "sound t"
  shows "getSize t = int (length (tm_bytes (mpi t)))" "getLowerBound t = tm_lb (mpi t)"
    "getUpperBound t = tm_ub (mpi t)" "getExtent t = tm_extent (mpi t)" "tm_bytes (mpi t) \<noteq> []"
    "0 < tm_extent (mpi t)"
  using assms by (auto simp: sound_def dims_exact_def tm_extent_def getExtent_def getLowerBound_def getUpperBound_def)

lemma sound_Primitive: "sound (PrimitiveDatatype type)"
  by (cases type) (auto simp: sound_def dims_exact_def PrimitiveDatatype_def new_Primitive_def
      tm_extent_def getSize_def getLowerBound_def getUpperBound_def)

lemma sound_Contiguous:
  assumes "sound b" "clone b = b" "0 < count" shows "sound (ContiguousDatatype count b)"
proof -
  note b = soundD [OF assms(1)]
  have n: "0 < nat count" "int (nat count) = count" using assms(3) by auto
  have m: "mpi (ContiguousDatatype count b) = tm_rep (nat count) (mpi b)"
    using assms(2) by (simp add: ContiguousDatatype_def new_Contiguous_def Let_def)
  have "tm_lb (mpi b) + tm_extent (mpi b) = tm_ub (mpi b)" by (simp add: tm_extent_def)
  then show ?thesis
    using tm_rep_bounds [OF n(1) order.strict_implies_order [OF b(6)] b(5)] b n assms(2,3)
    unfolding sound_def dims_exact_def m
    by (simp add: ContiguousDatatype_def new_Contiguous_def Let_def getSize_def getLowerBound_def
        getUpperBound_def of_nat_diff algebra_simps)
qed

lemma sound_Resized: "sound b \<Longrightarrow> clone b = b \<Longrightarrow> 0 < extent \<Longrightarrow> sound (ResizedDatatype b lb extent)"
  by (auto simp: sound_def dims_exact_def ResizedDatatype_def new_Resized_def tm_extent_def
      getSize_def getLowerBound_def getUpperBound_def)

text \<open>The bounds of strided blocks: vectors with the stride in elements or in bytes.\<close>

lemma strided_bounds:
  fixes step :: int
  assumes b: "sound b" and pos: "0 < count" "0 < blocklen" "0 \<le> step"
  defines "M \<equiv> tm_blocks (map (\<lambda>j. (int j * step, tm_rep (nat blocklen) (mpi b))) [0..<nat count])"
  shows "tm_lb M = getLowerBound b"
    "tm_ub M = getUpperBound b + step * (count - 1) + (blocklen - 1) * getExtent b"
    "int (length (tm_bytes M)) = count * blocklen * getSize b" "tm_bytes M \<noteq> []" "0 < tm_extent M"
proof -
  have n: "0 < nat count" "0 < nat blocklen" using pos by auto
  note b = soundD [OF b]
  note r = tm_rep_bounds [OF n(2) order.strict_implies_order [OF b(6)] b(5)]
  have ne: "tm_bytes (tm_rep (nat blocklen) (mpi b)) \<noteq> []" using n b(5) by simp
  note st = tm_steps [OF n(1) pos(3) ne, folded M_def]
  show lb: "tm_lb M = getLowerBound b" using st(1) r(1) b(2) by simp
  show ub: "tm_ub M = getUpperBound b + step * (count - 1) + (blocklen - 1) * getExtent b"
    using st(2) r(2) b(3,4) pos by (simp add: of_nat_diff algebra_simps)
  have "getUpperBound b = getLowerBound b + getExtent b"
    by (simp add: getExtent_def getUpperBound_def getLowerBound_def)
  then have "tm_extent M = step * (count - 1) + blocklen * getExtent b"
    unfolding tm_extent_def lb ub by (simp add: algebra_simps)
  moreover have "0 < step * (count - 1) + blocklen * getExtent b"
    using pos b(4,6) by (intro add_nonneg_pos mult_nonneg_nonneg) auto
  ultimately show "0 < tm_extent M" by simp
  have bytes: "tm_bytes M = rep (nat count) step (rep (nat blocklen) (tm_extent (mpi b)) (tm_bytes (mpi b)))"
    by (simp add: M_def rep_def comp_def)
  then show "int (length (tm_bytes M)) = count * blocklen * getSize b" "tm_bytes M \<noteq> []"
    using n b(1,5) pos by simp_all
qed

lemma sound_Vector:
  assumes "sound b" "clone b = b" "0 < count" "0 < blocklen" "0 < stride"
  shows "sound (VectorDatatype count blocklen stride b)"
proof -
  note b = soundD [OF assms(1)]
  let ?t = "VectorDatatype count blocklen stride b" and ?step = "stride * tm_extent (mpi b)"
  have m: "mpi ?t = tm_blocks (map (\<lambda>j. (int j * ?step, tm_rep (nat blocklen) (mpi b))) [0..<nat count])"
    using assms(2) by (simp add: VectorDatatype_def new_Vector_def Let_def)
  have step: "0 \<le> ?step" using assms(5) b(6) by simp
  note M = strided_bounds [OF assms(1,3,4) step, folded m]
  have ub: "getUpperBound ?t = tm_ub (mpi ?t)"
    unfolding M(2) using assms b(4)
    by (simp add: VectorDatatype_def new_Vector_def Let_def getUpperBound_def algebra_simps)
  have lb: "getLowerBound ?t = tm_lb (mpi ?t)"
    unfolding M(1) using assms by (simp add: VectorDatatype_def new_Vector_def Let_def getLowerBound_def)
  show ?thesis
    using M(3,4,5) lb ub assms(2) unfolding sound_def dims_exact_def
    by (simp add: VectorDatatype_def new_Vector_def Let_def getSize_def)
qed

lemma sound_HVector:
  assumes "sound b" "clone b = b" "0 < count" "0 < blocklen" "0 < stride"
  shows "sound (HVectorDatatype count blocklen stride b)"
proof -
  note b = soundD [OF assms(1)]
  let ?t = "HVectorDatatype count blocklen stride b"
  have m: "mpi ?t = tm_blocks (map (\<lambda>j. (int j * stride, tm_rep (nat blocklen) (mpi b))) [0..<nat count])"
    using assms(2) by (simp add: HVectorDatatype_def new_HVector_def Let_def)
  have step: "0 \<le> stride" using assms(5) by simp
  note M = strided_bounds [OF assms(1,3,4) step, folded m]
  have ub: "getUpperBound ?t = tm_ub (mpi ?t)"
    unfolding M(2) using assms b(4)
    by (simp add: HVectorDatatype_def new_HVector_def Let_def getUpperBound_def algebra_simps)
  have lb: "getLowerBound ?t = tm_lb (mpi ?t)"
    unfolding M(1) using assms by (simp add: HVectorDatatype_def new_HVector_def Let_def getLowerBound_def)
  show ?thesis
    using M(3,4,5) lb ub assms(2,3) unfolding sound_def dims_exact_def
    by (simp add: HVectorDatatype_def new_HVector_def Let_def getSize_def)
qed

text \<open>The bounds of blocks at arbitrary displacements.\<close>

definition windows :: "(int \<times> tm) list \<Rightarrow> (int \<times> int) list" where
  "windows bs = map (\<lambda>(d, m). (d, d + tm_ub m)) bs"

lemma placed_bounds:
  assumes "bs \<noteq> []" "\<forall>(d, m) \<in> set bs. tm_bytes m \<noteq> [] \<and> tm_lb m = 0 \<and> 0 < tm_ub m"
  shows "tm_lb (tm_blocks bs) = Min (fst ` set (windows bs))" "tm_ub (tm_blocks bs) = Max (snd ` set (windows bs))"
    "0 < tm_extent (tm_blocks bs)" "tm_bytes (tm_blocks bs) \<noteq> []"
proof -
  have ne: "\<forall>(d, m) \<in> set bs. tm_bytes m \<noteq> []" using assms(2) by auto
  show lb: "tm_lb (tm_blocks bs) = Min (fst ` set (windows bs))"
    unfolding tm_blocks_bounds(1) [OF assms(1) ne] windows_def set_map image_image
    using assms(2) by (intro arg_cong [where f = Min] image_cong) auto
  show ub: "tm_ub (tm_blocks bs) = Max (snd ` set (windows bs))"
    unfolding tm_blocks_bounds(2) [OF assms(1) ne] windows_def set_map image_image
    using assms(2) by (intro arg_cong [where f = Max] image_cong) auto
  obtain d m bs' where bs: "bs = (d, m) # bs'" using assms(1) by (cases bs) auto
  have "Min (fst ` set (windows bs)) \<le> d" "d + tm_ub m \<le> Max (snd ` set (windows bs))"
    by (auto simp: bs windows_def intro!: Min_le Max_ge)
  then show "0 < tm_extent (tm_blocks bs)" unfolding tm_extent_def lb ub using assms(2) bs by auto
  show "tm_bytes (tm_blocks bs) \<noteq> []" using ne bs by (auto simp: shift_def)
qed

lemma length_tm_blocks: "int (length (tm_bytes (tm_blocks bs))) = sum_list (map (\<lambda>(d, m). int (length (tm_bytes m))) bs)"
  by (induction bs) auto

text \<open>A run of elements of a sound basetype with lower bound zero is such a block.\<close>

lemma sound_run:
  assumes "sound b" "getLowerBound b = 0" "0 < l"
  shows "tm_bytes (tm_rep (nat l) (mpi b)) \<noteq> []" "tm_lb (tm_rep (nat l) (mpi b)) = 0"
    "tm_ub (tm_rep (nat l) (mpi b)) = l * getExtent b" "0 < l * getExtent b"
    "int (length (tm_bytes (tm_rep (nat l) (mpi b)))) = getSize b * l"
proof -
  note b = soundD [OF assms(1)]
  have n: "0 < nat l" using assms(3) by simp
  note r = tm_rep_bounds [OF n order.strict_implies_order [OF b(6)] b(5)]
  have "tm_ub (mpi b) = getExtent b" using b(2,4) assms(2) by (simp add: tm_extent_def)
  then show "tm_lb (tm_rep (nat l) (mpi b)) = 0" "tm_ub (tm_rep (nat l) (mpi b)) = l * getExtent b"
    using r(1,2) b(2,4) assms(2,3) by (simp_all add: of_nat_diff algebra_simps)
  show "tm_bytes (tm_rep (nat l) (mpi b)) \<noteq> []" "0 < l * getExtent b"
    "int (length (tm_bytes (tm_rep (nat l) (mpi b)))) = getSize b * l"
    using n b(1,4,5,6) assms(3) by simp_all
qed

lemma sound_IndexedBlock:
  assumes "sound b" "clone b = b" "0 < count" "nat count \<le> length displ" "getLowerBound b = 0"
    and sp: "spans (displ ! 0, displ ! 0 + getExtent b)
      (map (\<lambda>x. (x * getExtent b, (x + 1) * getExtent b)) (take (nat count) displ))"
  shows "sound (IndexedBlockDatatype count 1 displ b)"
proof -
  let ?t = "IndexedBlockDatatype count 1 displ b" and ?e = "getExtent b" and ?ds = "take (nat count) displ"
  note b = soundD [OF assms(1)] and r = sound_run [OF assms(1,5), of 1, simplified]
  define bs where "bs = map (\<lambda>x. (x * ?e, tm_rep 1 (mpi b))) ?ds"
  have m: "mpi ?t = tm_blocks bs"
    using assms(2) b(4) by (simp add: bs_def IndexedBlockDatatype_def new_IndexedBlock_def Let_def)
  have ne: "bs \<noteq> []" using assms(3,4) by (auto simp: bs_def)
  have ok: "\<forall>(d, m) \<in> set bs. tm_bytes m \<noteq> [] \<and> tm_lb m = 0 \<and> 0 < tm_ub m"
    using r by (auto simp: bs_def)
  have w: "windows bs = map (\<lambda>x. (x * ?e, (x + 1) * ?e)) ?ds"
    using r(3) by (simp add: windows_def bs_def comp_def algebra_simps)
  have dims: "dims_of ?t = with_bounds (getSize b * count) (widen (displ ! 0, displ ! 0 + ?e) (windows bs))"
    using assms(2,3) unfolding w by (simp add: IndexedBlockDatatype_def new_IndexedBlock_def Let_def)
  have "int (length (tm_bytes (mpi ?t))) = getSize b * count"
    unfolding m length_tm_blocks using b(1) assms(3,4)
    by (simp add: bs_def comp_def sum_list_triv min_def)
  then show ?thesis
    using placed_bounds [OF ne ok] widen_spans [OF sp [folded w]]
    unfolding sound_def dims_exact_def getSize_def getLowerBound_def getUpperBound_def dims
    by (simp add: m with_bounds_def)
qed

lemma spans_hd: "bs \<noteq> [] \<Longrightarrow> spans (hd bs) bs"
  by (cases bs) (auto simp: spans_def)

lemma sound_HIndexed:
  assumes "sound b" "clone b = b" "0 < count" "nat count \<le> length displ" "nat count \<le> length blocklen"
    and lb: "getLowerBound b = 0"
    and fit: "\<forall>i < nat count. 0 < blocklen ! i \<and> fits_int (displ ! i) \<and> fits_int (displ ! i + blocklen ! i * getExtent b)"
  shows "sound (HIndexedDatatype count blocklen displ b)"
proof -
  let ?t = "HIndexedDatatype count blocklen displ b" and ?e = "getExtent b" and ?n = "nat count"
  let ?ds = "take ?n displ" and ?ls = "take ?n blocklen"
  note b = soundD [OF assms(1)] and r = sound_run [OF assms(1) lb]
  define bs where "bs = map2 (\<lambda>x l. (x, tm_rep (nat l) (mpi b))) ?ds ?ls"
  have m: "mpi ?t = tm_blocks bs"
    using assms(2) by (simp add: bs_def HIndexedDatatype_def new_HIndexed_def Let_def)
  have len: "length ?ds = ?n" "length ?ls = ?n" "0 < ?n" using assms(3-5) by auto
  have ne: "bs \<noteq> []" using len by (auto simp: bs_def)
  have each: "\<forall>(d, l) \<in> set (zip ?ds ?ls). 0 < l \<and> int_of_long d = d \<and> int_of_long (d + l * ?e) = d + l * ?e"
    using fit len by (auto simp: set_zip fits_int_def int_of_long_id)
  have ok: "\<forall>(d, m) \<in> set bs. tm_bytes m \<noteq> [] \<and> tm_lb m = 0 \<and> 0 < tm_ub m"
    using each r by (auto simp: bs_def)
  have w: "windows bs = map2 (\<lambda>d l. (int_of_long d, int_of_long (d + l * ?e))) ?ds ?ls"
    unfolding windows_def bs_def map_map comp_def using each r(3) by (intro map_cong) auto
  have "hd (windows bs) = (int_of_long (displ ! 0), int_of_long (displ ! 0 + blocklen ! 0 * ?e))"
    unfolding w using len by (subst hd_conv_nth) auto
  then have "dims_of ?t = with_bounds (sum_list (map (\<lambda>l. getSize b * l) ?ls)) (widen (hd (windows bs)) (windows bs))"
    using assms(2,3) unfolding w by (simp add: HIndexedDatatype_def new_HIndexed_def Let_def)
  moreover have "int (length (tm_bytes (mpi ?t))) = sum_list (map (\<lambda>l. getSize b * l) ?ls)"
  proof -
    have "int (length (tm_bytes (mpi ?t))) = sum_list (map (\<lambda>(d, l). getSize b * l) (zip ?ds ?ls))"
      unfolding m length_tm_blocks bs_def map_map comp_def
      using each r(5) by (intro arg_cong [where f = sum_list] map_cong) auto
    also have "\<dots> = sum_list (map (\<lambda>l. getSize b * l) (map snd (zip ?ds ?ls)))"
      unfolding map_map by (intro arg_cong [where f = sum_list] map_cong) auto
    also have "map snd (zip ?ds ?ls) = ?ls" using len by (intro map_snd_zip) simp
    finally show ?thesis .
  qed
  moreover have "windows bs \<noteq> []" using ne by (simp add: windows_def)
  ultimately show ?thesis
    using placed_bounds [OF ne ok] widen_spans [OF spans_hd, of "windows bs"]
    unfolding sound_def dims_exact_def getSize_def getLowerBound_def getUpperBound_def
    by (simp add: m with_bounds_def)
qed

lemma sound_Struct:
  assumes cl: "map clone types = types" and b: "\<forall>i < nat count. sound (types ! i) \<and> getLowerBound (types ! i) = 0"
    and count: "0 < count"
    and len: "nat count \<le> length displ" "nat count \<le> length blocklen" "nat count \<le> length types"
    and fit: "\<forall>i < nat count. 0 < blocklen ! i \<and> fits_int (displ ! i) \<and>
      fits_int (displ ! i + blocklen ! i * getExtent (types ! i))"
    and sp: "spans (0, 0) (map (\<lambda>i. (displ ! i, displ ! i + blocklen ! i * getExtent (types ! i))) [0..<nat count])"
  shows "sound (StructDatatype count blocklen displ types)"
proof -
  let ?t = "StructDatatype count blocklen displ types" and ?n = "nat count"
  define bs where "bs = map (\<lambda>i. (displ ! i, tm_rep (nat (blocklen ! i)) (mpi (types ! i)))) [0..<?n]"
  have "zip (take ?n (take ?n displ @ take ?n displ))
      (map2 (\<lambda>l m. tm_rep (nat l) m) (take ?n blocklen @ take ?n blocklen)
        (map mpi (take ?n types @ take ?n types))) = bs"
    using len by (intro nth_equalityI) (auto simp: bs_def nth_append)
  then have m: "mpi ?t = tm_blocks bs"
    unfolding StructDatatype_def cl by (simp add: new_Struct_def Let_def)
  have each: "sound (types ! i)" "getLowerBound (types ! i) = 0" "0 < blocklen ! i"
    "int_of_long (displ ! i) = displ ! i"
    "int_of_long (displ ! i + blocklen ! i * getExtent (types ! i)) = displ ! i + blocklen ! i * getExtent (types ! i)"
    if "i < ?n" for i
    using that b len fit by (auto simp: fits_int_def int_of_long_id)
  note r = sound_run [OF each(1,2,3)]
  have ne: "bs \<noteq> []" using count by (simp add: bs_def)
  have ok: "\<forall>(d, m) \<in> set bs. tm_bytes m \<noteq> [] \<and> tm_lb m = 0 \<and> 0 < tm_ub m"
    unfolding bs_def using r by (auto simp del: tm_rep_bytes)
  have w: "windows bs = map (\<lambda>i. (displ ! i, displ ! i + blocklen ! i * getExtent (types ! i))) [0..<?n]"
    unfolding windows_def bs_def map_map comp_def using r(3) by (intro map_cong) auto
  have w': "windows bs = map (\<lambda>i. (int_of_long (displ ! i),
      int_of_long (displ ! i + blocklen ! i * getExtent (types ! i)))) [0..<?n]"
    unfolding w using each(4,5) by (intro map_cong) auto
  have "dims_of ?t = with_bounds (sum_list (map (\<lambda>i. getSize (types ! i) * blocklen ! i) [0..<?n])) (widen (0, 0) (windows bs))"
    unfolding w' by (simp add: StructDatatype_def new_Struct_def Let_def)
  moreover have "int (length (tm_bytes (mpi ?t))) = sum_list (map (\<lambda>i. getSize (types ! i) * blocklen ! i) [0..<?n])"
    unfolding m length_tm_blocks bs_def map_map comp_def case_prod_conv
    using r(5) by (intro arg_cong [where f = sum_list] map_cong) auto
  ultimately show ?thesis
    using placed_bounds [OF ne ok] widen_spans [OF sp [folded w]]
    unfolding sound_def dims_exact_def getSize_def getLowerBound_def getUpperBound_def
    by (simp add: m with_bounds_def)
qed

lemma regular_ctors:
  "regular (PrimitiveDatatype type)"
  "clone b = b \<Longrightarrow> regular (ContiguousDatatype count b) \<longleftrightarrow> regular b \<and> 0 < count"
  "clone b = b \<Longrightarrow> regular (VectorDatatype count blocklen stride b) \<longleftrightarrow>
     regular b \<and> 0 < count \<and> 0 < blocklen \<and> 0 < stride"
  "clone b = b \<Longrightarrow> regular (HVectorDatatype count blocklen stride b) \<longleftrightarrow>
     regular b \<and> 0 < count \<and> 0 < blocklen \<and> 0 < stride"
  "clone b = b \<Longrightarrow> regular (ResizedDatatype b lb extent) \<longleftrightarrow> regular b \<and> 0 < extent"
  by (simp_all add: ctor_defs new_Primitive_def new_Contiguous_def new_Vector_def new_HVector_def
      new_Resized_def Let_def)

text \<open>Every regular datatype a program builds is sound.\<close>

lemma built_sound: "built t \<Longrightarrow> regular t \<Longrightarrow> sound t"
proof (induction rule: built.induct)
  case (built_IndexedBlock b count displ blocklen)
  then have "regular b" "clone b = b" "0 < count" "blocklen = 1" "getLowerBound b = 0"
    "spans (displ ! 0, displ ! 0 + getExtent b)
      (map (\<lambda>x. (x * getExtent b, (x + 1) * getExtent b)) (take (nat count) displ))"
    by (auto simp: clone_built IndexedBlockDatatype_def new_IndexedBlock_def Let_def)
  then show ?case using built_IndexedBlock sound_IndexedBlock by simp
next
  case (built_HIndexed b count displ blocklen)
  have cl: "clone b = b" using built_HIndexed by (simp add: clone_built)
  have r: "regular b" "0 < count" "getLowerBound b = 0"
    "list_all (\<lambda>l. 0 < l) (take (nat count) blocklen)"
    "list_all2 (\<lambda>x l. fits_int x \<and> fits_int (x + l * getExtent b)) (take (nat count) displ) (take (nat count) blocklen)"
    using built_HIndexed.prems cl by (auto simp: HIndexedDatatype_def new_HIndexed_def Let_def)
  have "\<forall>i < nat count. 0 < blocklen ! i \<and> fits_int (displ ! i) \<and> fits_int (displ ! i + blocklen ! i * getExtent b)"
    using r(4,5) built_HIndexed.hyps by (auto simp: list_all_length list_all2_conv_all_nth)
  then show ?case
    using built_HIndexed r by (intro sound_HIndexed cl) auto
next
  case (built_Struct types count displ blocklen)
  let ?n = "nat count"
  have cl: "\<forall>b \<in> set types. clone b = b" using built_Struct by (simp add: clone_built)
  then have cl': "map clone types = types" by (simp add: map_idI)
  let ?t = "StructDatatype count blocklen displ types"
  let ?ds = "take ?n displ @ take ?n displ" and ?ls = "take ?n blocklen @ take ?n blocklen"
    and ?bs = "take ?n types @ take ?n types"
  obtain d where t: "?t = Struct d count ?ls ?ds ?bs"
    unfolding StructDatatype_def cl' by (simp add: new_Struct_def Let_def)
  have r: "list_all regular ?bs" "0 < count" "list_all (\<lambda>l. 0 < l) ?ls" "list_all (\<lambda>b. getLowerBound b = 0) ?bs"
    "list_all2 (\<lambda>x (l, b). fits_int x \<and> fits_int (x + l * getExtent b)) ?ds (zip ?ls ?bs)"
    "spans (0, 0) (map2 (\<lambda>x (l, b). (x, x + l * getExtent b)) ?ds (zip ?ls ?bs))"
    using built_Struct.prems unfolding t regular.simps by blast+
  have nth: "take ?n displ ! i = displ ! i" "take ?n blocklen ! i = blocklen ! i" "take ?n types ! i = types ! i"
    "i < length types" "i < length displ" "i < length blocklen" if "i < ?n" for i
    using that built_Struct.hyps by auto
  have "\<forall>i < ?n. sound (types ! i) \<and> getLowerBound (types ! i) = 0"
  proof (intro allI impI)
    fix i assume i: "i < ?n"
    then have "types ! i \<in> set ?bs" "types ! i \<in> set types"
      using built_Struct.hyps nth(3,4) [OF i] i by (auto simp: in_set_conv_nth intro!: exI [of _ i])
    then show "sound (types ! i) \<and> getLowerBound (types ! i) = 0"
      using r(1,4) built_Struct.IH unfolding list_all_iff by blast
  qed
  moreover have "\<forall>i < ?n. 0 < blocklen ! i \<and> fits_int (displ ! i) \<and>
      fits_int (displ ! i + blocklen ! i * getExtent (types ! i))"
  proof (intro allI impI)
    fix i assume i: "i < ?n"
    then have at: "?ls ! i = blocklen ! i" "?ds ! i = displ ! i" "?bs ! i = types ! i" "zip ?ls ?bs ! i = (blocklen ! i, types ! i)"
      and l: "i < length ?ls" "i < length ?ds"
      using built_Struct.hyps by (auto simp: nth_append)
    have "0 < ?ls ! i" using r(3) l(1) unfolding list_all_length by blast
    moreover have "case zip ?ls ?bs ! i of (l, b) \<Rightarrow> fits_int (?ds ! i) \<and> fits_int (?ds ! i + l * getExtent b)"
      using r(5) l(2) by (rule list_all2_nthD)
    ultimately show "0 < blocklen ! i \<and> fits_int (displ ! i) \<and>
      fits_int (displ ! i + blocklen ! i * getExtent (types ! i))"
      unfolding at by simp
  qed
  moreover have "spans (0, 0) (map (\<lambda>i. (displ ! i, displ ! i + blocklen ! i * getExtent (types ! i))) [0..<?n])"
  proof -
    have "map2 (\<lambda>x (l, b). (x, x + l * getExtent b)) ?ds (zip ?ls ?bs) =
        map (\<lambda>i. (displ ! i, displ ! i + blocklen ! i * getExtent (types ! i))) [0..<?n] @
        map (\<lambda>i. (displ ! i, displ ! i + blocklen ! i * getExtent (types ! i))) [0..<?n]"
      using built_Struct.hyps by (intro nth_equalityI) (auto simp: nth_append)
    then show ?thesis using r(6) by (auto simp: spans_def)
  qed
  ultimately show ?case
    using built_Struct.hyps r(2) by (intro sound_Struct cl') auto
qed (simp_all add: clone_built regular_ctors sound_Primitive sound_Contiguous sound_Vector sound_HVector sound_Resized)

end
