(* ===== verification/Codegen_Primitive.thy ===== *)
theory Codegen_Primitive
  imports Layout
begin

text \<open>
  The code generators of codegen\_primitive.cpp, in the configuration the Makefile
  builds (PACKVAR 1: unaligned vector moves).  A count known when the code is
  generated is copied by vector moves, in a loop of 16 moves a round when it is
  large; a count known at run time only is one memcpy.
\<close>

definition SIMD_BYTE_SIZE :: int where "SIMD_BYTE_SIZE = 16"
definition COPY_LOOP_TRESHOLD :: int where "COPY_LOOP_TRESHOLD = 64 * 8"
definition COPY_LOOP_UNROLL :: nat where "COPY_LOOP_UNROLL = 16"

text \<open>\<open>dyn_cast<ConstantInt>(incount)\<close> and its sign extended value.\<close>

fun const_count :: "operand \<Rightarrow> int option" where
  "const_count (CI32 w) = Some (sint w)"
| "const_count (CI64 w) = Some (sint w)"
| "const_count _ = None"

text \<open>The body of the copy loop: the address after the last read is its exit test.\<close>

fun copyloop_moves ::
  "nat \<Rightarrow> operand \<Rightarrow> operand \<Rightarrow> operand \<Rightarrow> int \<Rightarrow> int \<Rightarrow> llvm_type \<Rightarrow> (operand \<times> operand \<times> operand) gen" where
  "copyloop_moves 0 in_addr inbuf outbuf elsize vector_size elemtype =
     State_Monad.return (in_addr, inbuf, outbuf)"
| "copyloop_moves (Suc i) in_addr inbuf outbuf elsize vector_size elemtype = do {
     vmove outbuf inbuf vector_size elemtype;
     in_addr_cvi \<leftarrow> CreatePtrToInt inbuf;
     in_addr \<leftarrow> CreateAdd in_addr_cvi (constNode_long (elsize * vector_size));
     inbuf \<leftarrow> CreateIntToPtr in_addr;
     outbuf \<leftarrow> incrementPtr outbuf (elsize * vector_size);
     copyloop_moves i in_addr inbuf outbuf elsize vector_size elemtype }"

text \<open>The inner and the outer loop of the postamble.\<close>

fun postamble_moves ::
  "nat \<Rightarrow> operand \<Rightarrow> operand \<Rightarrow> int \<Rightarrow> int \<Rightarrow> llvm_type \<Rightarrow> (operand \<times> operand) gen" where
  "postamble_moves 0 inbuf outbuf elsize vecsize elemtype = State_Monad.return (inbuf, outbuf)"
| "postamble_moves (Suc i) inbuf outbuf elsize vecsize elemtype = do {
     vmove outbuf inbuf vecsize elemtype;
     inbuf \<leftarrow> incrementPtr inbuf (elsize * vecsize);
     outbuf \<leftarrow> incrementPtr outbuf (elsize * vecsize);
     postamble_moves i inbuf outbuf elsize vecsize elemtype }"

function (sequential) postamble ::
  "int \<Rightarrow> operand \<Rightarrow> operand \<Rightarrow> int \<Rightarrow> int \<Rightarrow> llvm_type \<Rightarrow> unit gen" where
  "postamble vecsize inbuf outbuf incount_val elsize elemtype =
     (if vecsize > 0 then
        (let veccount = incount_val sdiv vecsize in do {
           (inbuf, outbuf) \<leftarrow> postamble_moves (nat veccount) inbuf outbuf elsize vecsize elemtype;
           postamble (vecsize div 2) inbuf outbuf (incount_val - veccount * vecsize) elsize elemtype })
      else State_Monad.return ())"
  by pat_completeness auto
termination by (relation "measure (\<lambda>(v, _). nat v)") auto

declare postamble.simps [simp del]

definition codegenPrimitive_const ::
  "operand \<Rightarrow> int \<Rightarrow> operand \<Rightarrow> int \<Rightarrow> PrimitiveType \<Rightarrow> unit gen" where
  "codegenPrimitive_const inbuf incount_val outbuf elsize type =
     (let LOOP_ELEM_TRESHOLD = COPY_LOOP_TRESHOLD sdiv elsize;
          vector_size = SIMD_BYTE_SIZE sdiv elsize;
          elemtype = toLLVMType type;
          vectors_to_copy = ((incount_val sdiv vector_size) sdiv int COPY_LOOP_UNROLL) * int COPY_LOOP_UNROLL
      in if vectors_to_copy > 0 \<and> incount_val \<ge> LOOP_ELEM_TRESHOLD then do {
           inbuf_int \<leftarrow> CreatePtrToInt inbuf;
           exitval \<leftarrow> CreateAdd inbuf_int (constNode_long (vectors_to_copy * SIMD_BYTE_SIZE));
           ends \<leftarrow> do_while [inbuf, outbuf] (\<lambda>copyloop phis. do {
             (in_addr, inbuf, outbuf) \<leftarrow> copyloop_moves COPY_LOOP_UNROLL (constNode_long 0)
                (phis ! 0) (phis ! 1) elsize vector_size elemtype;
             exitcond \<leftarrow> CreateICmpEQ in_addr exitval;
             State_Monad.return (copyloop, [inbuf, outbuf], exitcond) });
           postamble vector_size (ends ! 0) (ends ! 1) (incount_val - vectors_to_copy * vector_size)
             elsize elemtype }
         else postamble vector_size inbuf outbuf incount_val elsize elemtype)"

definition codegenPrimitive ::
  "operand \<Rightarrow> operand \<Rightarrow> operand \<Rightarrow> int \<Rightarrow> PrimitiveType \<Rightarrow> unit gen" where
  "codegenPrimitive inbuf incount outbuf elsize type =
     (case const_count incount of
        None \<Rightarrow> do {
          contig_extend \<leftarrow> multNode elsize incount;
          CreateMemCpy outbuf inbuf contig_extend }
      | Some incount_val \<Rightarrow> codegenPrimitive_const inbuf incount_val outbuf elsize type)"

definition codegenPrimitiveResized ::
  "operand \<Rightarrow> operand \<Rightarrow> operand \<Rightarrow> int \<Rightarrow> int \<Rightarrow> PrimitiveType \<Rightarrow> unit gen" where
  "codegenPrimitiveResized inbuf incount outbuf elsize extent type = do {
     ends \<leftarrow> do_while [inbuf, outbuf, incount] (\<lambda>copyloop phis. do {
       CreateMemCpy (phis ! 1) (phis ! 0) (constNode_long elsize);
       in_addr_cvi \<leftarrow> CreatePtrToInt (phis ! 0);
       in_addr_cvi_next \<leftarrow> CreateAdd in_addr_cvi (constNode_long extent);
       inbuf_next \<leftarrow> CreateIntToPtr in_addr_cvi_next;
       out_addr_cvi \<leftarrow> CreatePtrToInt (phis ! 1);
       out_addr_cvi_next \<leftarrow> CreateAdd out_addr_cvi (constNode_long elsize);
       outbuf_next \<leftarrow> CreateIntToPtr out_addr_cvi_next;
       incount_next \<leftarrow> CreateSub (phis ! 2) (constNode 1);
       exitcond \<leftarrow> CreateICmpEQ incount_next (constNode 0);
       State_Monad.return (copyloop, [inbuf_next, outbuf_next, incount_next], exitcond) });
     State_Monad.return () }"

section \<open>The generators only append\<close>

lemma gen_ok_copyloop_moves [gen_mono]: "gen_ok (copyloop_moves i a b c s v t)"
  by (induction i arbitrary: a b c) (auto intro!: gen_mono)

lemma gen_ok_postamble_moves [gen_mono]: "gen_ok (postamble_moves i a b s v t)"
  by (induction i arbitrary: a b) (auto intro!: gen_mono)

lemma gen_ok_postamble [gen_mono]: "gen_ok (postamble v a b n s t)"
proof (induction v a b n s t rule: postamble.induct)
  case (1 v a b n s t)
  show ?case
    by (subst postamble.simps) (auto simp: Let_def intro!: gen_mono 1)
qed

lemma gen_ok_codegenPrimitive [gen_mono]: "gen_ok (codegenPrimitive a k b s t)"
  by (auto simp: codegenPrimitive_def codegenPrimitive_const_def Let_def split: option.split intro!: gen_mono)

lemma gen_ok_codegenPrimitiveResized [gen_mono]: "gen_ok (codegenPrimitiveResized a k b s x t)"
  unfolding codegenPrimitiveResized_def by (intro gen_mono)

section \<open>Vector moves\<close>

lemma emits_postamble_moves:
  assumes "holds n e a (VPtr p)" "holds n e b (VPtr q)" "copyable (seg q p (i * v)) m"
    and v: "v = nat vecsize * store_size t" "elsize * vecsize = int v"
  shows "emits G F (postamble_moves i a b elsize vecsize t) c n e m (\<lambda>(a, b) c' n' e' m'. c' = c \<and>
    holds n' e' a (VPtr (p + of_nat (i * v))) \<and> holds n' e' b (VPtr (q + of_nat (i * v))) \<and>
    m' = cps (seg q p (i * v)) m)"
  using assms(1-3)
proof (induction i arbitrary: a b n e m p q)
  case 0
  then show ?case by (simp add: emits_return)
next
  case (Suc i)
  have cp: "copyable (seg q p v) m" "copyable (seg (q + word_of_int (int v)) (p + word_of_int (int v)) (i * v)) (cps (seg q p v) m)"
    using copyable_seg_add [of q p v "i * v" m] Suc.prems(3) by simp_all
  note vmove = emits_vmove [where cnt = vecsize and t = t, folded v(1)]
  have "emits G F (postamble_moves (Suc i) a b elsize vecsize t) c n e m (\<lambda>(a, b) c' n' e' m'. c' = c \<and>
    holds n' e' a (VPtr (p + word_of_int (int v) + of_nat (i * v))) \<and>
    holds n' e' b (VPtr (q + word_of_int (int v) + of_nat (i * v))) \<and>
    m' = cps (seg (q + word_of_int (int v)) (p + word_of_int (int v)) (i * v)) (cps (seg q p v) m))"
    unfolding postamble_moves.simps v(2)
    using Suc.prems(1,2) cp
    by - (assumption | rule vmove emits_incrementPtr hold Suc.IH)+
  then show ?case by (simp add: seg_add add.assoc)
qed

lemma emits_copyloop_moves:
  assumes "holds n e a (VPtr p)" "holds n e b (VPtr q)" "i = 0 \<Longrightarrow> holds n e x (VI64 p)" "copyable (seg q p (i * v)) m"
    and v: "v = nat vecsize * store_size t" "elsize * vecsize = int v"
  shows "emits G F (copyloop_moves i x a b elsize vecsize t) c n e m (\<lambda>(x, a, b) c' n' e' m'. c' = c \<and>
    holds n' e' x (VI64 (p + of_nat (i * v))) \<and>
    holds n' e' a (VPtr (p + of_nat (i * v))) \<and> holds n' e' b (VPtr (q + of_nat (i * v))) \<and>
    m' = cps (seg q p (i * v)) m)"
  using assms(1-4)
proof (induction i arbitrary: x a b n e m p q)
  case 0
  then show ?case by (simp add: emits_return)
next
  case (Suc i)
  have cp: "copyable (seg q p v) m"
    "copyable (seg (q + word_of_int (int v)) (p + word_of_int (int v)) (i * v)) (cps (seg q p v) m)"
    using copyable_seg_add [of q p v "i * v" m] Suc.prems(4) by simp_all
  note vmove = emits_vmove [where cnt = vecsize and t = t, folded v(1)]
  have "emits G F (copyloop_moves (Suc i) x a b elsize vecsize t) c n e m (\<lambda>(x, a, b) c' n' e' m'. c' = c \<and>
    holds n' e' x (VI64 (p + word_of_int (int v) + of_nat (i * v))) \<and>
    holds n' e' a (VPtr (p + word_of_int (int v) + of_nat (i * v))) \<and>
    holds n' e' b (VPtr (q + word_of_int (int v) + of_nat (i * v))) \<and>
    m' = cps (seg (q + word_of_int (int v)) (p + word_of_int (int v)) (i * v)) (cps (seg q p v) m))"
    unfolding copyloop_moves.simps v(2)
    using Suc.prems(1,2) cp
    by - (assumption | rule vmove emits_incrementPtr emits_PtrToInt emits_Add emits_IntToPtr hold Suc.IH)+
  then show ?case by (simp add: seg_add add.assoc)
qed


lemma emits_postamble:
  assumes "holds n e a (VPtr p)" "holds n e b (VPtr q)" "copyable (seg q p (nat cnt * store_size t)) m"
    "0 < vecsize" "0 \<le> cnt" and elsize: "elsize = int (store_size t)"
  shows "emits G F (postamble vecsize a b cnt elsize t) c n e m (\<lambda>_ c' n' e' m'. c' = c \<and>
    m' = cps (seg q p (nat cnt * store_size t)) m)"
  using assms(1-5)
proof (induction "nat vecsize" arbitrary: vecsize a b cnt n e m p q rule: less_induct)
  case less
  let ?k = "cnt div vecsize" and ?v = "nat vecsize * store_size t"
  have k: "cnt sdiv vecsize = ?k" "0 \<le> ?k" using less.prems
    by (auto simp: sdiv_nonneg pos_imp_zdiv_nonneg_iff)
  have rest: "cnt - ?k * vecsize = cnt mod vecsize" "0 \<le> cnt mod vecsize"
    using less.prems(4) by (auto simp: minus_div_mult_eq_mod)
  have split: "nat cnt * store_size t = nat ?k * ?v + nat (cnt mod vecsize) * store_size t"
  proof -
    have "nat cnt = nat cnt div nat vecsize * nat vecsize + nat cnt mod nat vecsize" by simp
    also have "\<dots> = nat ?k * nat vecsize + nat (cnt mod vecsize)"
      using less.prems(4,5) by (simp only: nat_div_distrib nat_mod_distrib order.strict_implies_order)
    finally show ?thesis by (simp add: algebra_simps)
  qed
  let ?w = "of_nat (nat ?k * ?v) :: i64" and ?m = "cps (seg q p (nat ?k * ?v)) m"
  have cp: "copyable (seg q p (nat ?k * ?v)) m"
    "copyable (seg (q + ?w) (p + ?w) (nat (cnt mod vecsize) * store_size t)) ?m"
    using copyable_seg_add less.prems(3) unfolding split by blast+
  have sz: "elsize * vecsize = int ?v" using less.prems(4) elsize by simp
  have tail: "emits G F (postamble (vecsize div 2) a1 b1 (cnt - ?k * vecsize) elsize t) c n1 e1 ?m
      (\<lambda>_ c' n' e' m'. c' = c \<and> m' = cps (seg q p (nat cnt * store_size t)) m)"
    if "holds n1 e1 a1 (VPtr (p + ?w))" "holds n1 e1 b1 (VPtr (q + ?w))" for a1 b1 n1 e1
  proof (cases "vecsize = 1")
    case True
    then have "cps (seg q p (nat cnt * store_size t)) m = ?m" unfolding split by simp
    with True show ?thesis by (subst postamble.simps) (simp add: emits_return)
  next
    case False
    then have "nat (vecsize div 2) < nat vecsize" "0 < vecsize div 2" using less.prems(4) by auto
    from less.hyps [OF this(1) that cp(2) this(2) rest(2)] show ?thesis
      by (simp only: rest(1) split seg_add cps_append)
  qed
  show ?case
    using less.prems(4) unfolding k(1)
    apply (subst postamble.simps)
    apply (simp only: if_True Let_def k(1))
    apply (rule emits_bind [OF emits_postamble_moves [OF less.prems(1,2) cp(1) refl sz]])
     apply (intro gen_mono)
    apply (auto intro!: tail)
    done
qed

section \<open>A primitive moves its bytes\<close>

text \<open>The assertions of codegenPrimitive hold for the sizes of the primitive types.\<close>

definition vector_size_of :: "PrimitiveType \<Rightarrow> int" where
  "vector_size_of t = SIMD_BYTE_SIZE sdiv int (store_size (toLLVMType t))"

lemma vector_size_cases: "(store_size (toLLVMType t), vector_size_of t) \<in> {(1, 16), (4, 4), (8, 2)}"
  by (cases t) (simp_all add: vector_size_of_def SIMD_BYTE_SIZE_def)

lemma emits_copyloop:
  fixes R v :: nat
  assumes a: "holds n e a (VPtr p)" and b: "holds n e b (VPtr q)" and R: "0 < R" "R * 256 < 2 ^ 64"
    and x: "holds n e x (VI64 (p + of_nat (R * 256)))"
    and cp: "copyable (seg q p (R * 256)) m"
    and v: "nat vecsize * store_size t = 16" "elsize * vecsize = 16"
  shows "emits G F (do_while [a, b] (\<lambda>copyloop phis. do {
             (in_addr, inbuf, outbuf) \<leftarrow> copyloop_moves COPY_LOOP_UNROLL (constNode_long 0)
                (phis ! 0) (phis ! 1) elsize vecsize t;
             exitcond \<leftarrow> CreateICmpEQ in_addr x;
             State_Monad.return (copyloop, [inbuf, outbuf], exitcond) })) c n e m
    (\<lambda>ends c' n' e' m'. \<exists>a' b'. ends = [a', b'] \<and> holds n' e' a' (VPtr (p + of_nat (R * 256))) \<and>
       holds n' e' b' (VPtr (q + of_nat (R * 256))) \<and> m' = cps (seg q p (R * 256)) m)"
proof (rule emits_do_while [where N = R and
      ivals = "[VPtr p, VPtr q]" and I = "\<lambda>k vs m'. vs = [VPtr (p + of_nat (k * 256)), VPtr (q + of_nat (k * 256))] \<and>
        m' = cps (seg q p (k * 256)) m"])
  fix k l n2 m2 and vs :: "val list" and rs :: "operand list" and e2 :: env
  assume k: "k < R" and I: "vs = [VPtr (p + of_nat (k * 256)), VPtr (q + of_nat (k * 256))] \<and>
        m2 = cps (seg q p (k * 256)) m"
    and ext: "n \<le> n2" "agree n e e2" and rs: "list_all2 (holds n2 e2) rs vs"
  let ?p = "p + of_nat (k * 256)" and ?q = "q + of_nat (k * 256)"
  obtain r1 r2 where r: "rs = [r1, r2]" "holds n2 e2 r1 (VPtr ?p)" "holds n2 e2 r2 (VPtr ?q)"
    using rs I by (auto simp: list_all2_Cons2)
  have x2: "holds n2 e2 x (VI64 (p + of_nat (R * 256)))" using x ext(2,1) by (rule holds_mono)
  obtain d where R': "R = k + 1 + d" using k by (metis Suc_eq_plus1 add_Suc_right add.commute less_iff_Suc_add add.assoc)
  have "copyable (seg q p (k * 256 + 256)) m"
    using cp copyable_seg_add [of q p "k * 256 + 256" "d * 256" m] by (simp add: R' algebra_simps)
  then have cp2: "copyable (seg ?q ?p (16 * 16)) m2"
    using copyable_seg_add [of q p "k * 256" 256 m] I by simp
  have exit: "?p + of_nat (16 * 16) = p + of_nat (R * 256) \<longleftrightarrow> Suc k = R"
    using of_nat_eq_64 [of "Suc k * 256" "R * 256"] k R(2) by (auto simp: algebra_simps)
  show "emits G F (do {
             (in_addr, inbuf, outbuf) \<leftarrow> copyloop_moves COPY_LOOP_UNROLL (constNode_long 0)
                (rs ! 0) (rs ! 1) elsize vecsize t;
             exitcond \<leftarrow> CreateICmpEQ in_addr x;
             State_Monad.return (l, [inbuf, outbuf], exitcond) }) l n2 e2 m2
    (\<lambda>(origin, nexts, c) cu n3 e3 m3. origin = cu \<and> (\<exists>vs'. length vs' = length [a, b] \<and>
      list_all2 (holds n3 e3) nexts vs' \<and> holds n3 e3 c (VI1 (Suc k = R)) \<and>
      vs' = [VPtr (p + of_nat (Suc k * 256)), VPtr (q + of_nat (Suc k * 256))] \<and>
      m3 = cps (seg q p (Suc k * 256)) m))"
    unfolding r(1) nth_Cons_0 nth_Cons_Suc One_nat_def COPY_LOOP_UNROLL_def
  proof (rule emits_bind [OF emits_copyloop_moves [where i = 16 and v = 16, OF r(2,3)]], goal_cases)
    case (6 y c1 n1 e1 m1)
    obtain z a1 b1 where y: "y = (z, a1, b1)" by (cases y)
    have x1: "holds n1 e1 x (VI64 (p + of_nat (R * 256)))" using x2 6(2,1) by (rule holds_mono)
    have end_vals: "holds n1 e1 z (VI64 (?p + of_nat (16 * 16)))" "holds n1 e1 a1 (VPtr (?p + of_nat (16 * 16)))"
      "holds n1 e1 b1 (VPtr (?q + of_nat (16 * 16)))" "c1 = l" "m1 = cps (seg ?q ?p (16 * 16)) m2"
      using 6(3) y by simp_all
    have m1: "m1 = cps (seg q p (Suc k * 256)) m"
      using end_vals(5) I cps_seg_add [of q "k * 256" p 256 m] by (simp add: add.commute)
    show ?case unfolding y case_prod_conv
      apply (rule emits_ICmpEQ [OF end_vals(1) x1 eq_val.simps(1)])
      apply (rule emits_return)
      unfolding case_prod_conv
      apply (intro conjI exI [of _ "[VPtr (p + of_nat (Suc k * 256)), VPtr (q + of_nat (Suc k * 256))]"])
      using exit end_vals m1 holds_old [OF end_vals(2)] holds_old [OF end_vals(3)]
      apply (simp_all add: algebra_simps)
      done
  qed (use cp2 v in \<open>auto intro!: gen_mono\<close>)
qed (use a b R in \<open>auto intro!: gen_mono simp: list_all2_Cons2\<close>)


lemma emits_codegenPrimitive_const:
  fixes n :: nat and t :: PrimitiveType
  defines "k \<equiv> store_size (toLLVMType t)"
  assumes a: "holds n e a (VPtr p)" and b: "holds n e b (VPtr q)" and cnt: "0 < cnt" "cnt < 2 ^ 31"
    and cp: "copyable (seg q p (nat cnt * k)) m"
  shows "emits G F (codegenPrimitive_const a cnt b (int k) t) c n e m
    (\<lambda>_ _ _ _ m'. m' = cps (seg q p (nat cnt * k)) m)"
proof -
  let ?vs = "vector_size_of t" and ?t = "toLLVMType t"
  have vs: "nat ?vs * store_size ?t = 16" "int k * ?vs = 16" "0 < ?vs" "COPY_LOOP_TRESHOLD sdiv int k > 0"
    using vector_size_cases [of t] by (auto simp: k_def COPY_LOOP_TRESHOLD_def signed_divide_int_def)
  define R where "R = nat (cnt div ?vs div 16)"
  have Ri: "int R = cnt div ?vs div 16" using cnt vs(3)
    by (simp add: R_def pos_imp_zdiv_nonneg_iff)
  have vtc: "(cnt sdiv ?vs) sdiv int COPY_LOOP_UNROLL * int COPY_LOOP_UNROLL = int R * 16"
    using cnt vs(3) Ri by (simp add: sdiv_nonneg COPY_LOOP_UNROLL_def pos_imp_zdiv_nonneg_iff)
  have le: "int R * 16 * ?vs \<le> cnt"
  proof -
    have "int R * 16 \<le> cnt div ?vs" unfolding Ri by (rule div_times_le) simp
    then have "int R * 16 * ?vs \<le> cnt div ?vs * ?vs" using vs(3) by simp
    also have "\<dots> \<le> cnt" using vs(3) by (rule div_times_le)
    finally show ?thesis .
  qed
  let ?rest = "cnt - int R * 16 * ?vs"
  have post: "emits G F (postamble ?vs a1 b1 cnt1 (int k) ?t) c1 n1 e1 m1
      (\<lambda>_ _ _ _ m'. m' = cps (seg q1 p1 (nat cnt1 * k)) m1)"
    if "holds n1 e1 a1 (VPtr p1)" "holds n1 e1 b1 (VPtr q1)" "copyable (seg q1 p1 (nat cnt1 * k)) m1" "0 \<le> cnt1"
    for a1 b1 cnt1 c1 n1 e1 m1 p1 q1
    using emits_postamble [OF that(1,2) that(3) [unfolded k_def] vs(3) that(4) refl, of G F c1]
    by (auto elim!: emits_conseq simp: k_def)
  show ?thesis
  proof (cases "0 < R \<and> COPY_LOOP_TRESHOLD sdiv int k \<le> cnt")
    case False
    then have "codegenPrimitive_const a cnt b (int k) t = postamble ?vs a b cnt (int k) ?t"
      using vtc by (auto simp: codegenPrimitive_const_def Let_def vector_size_of_def k_def)
    then show ?thesis using post [OF a b cp] cnt by simp
  next
    case True
    have bytes: "nat cnt * k = R * 256 + nat ?rest * k"
    proof -
      have "int (nat cnt * k) = int R * 16 * (int k * ?vs) + ?rest * int k" using cnt by (simp add: algebra_simps)
      also have "\<dots> = int (R * 256 + nat ?rest * k)" using le by (simp add: vs(2))
      finally show ?thesis by (simp only: of_nat_eq_iff)
    qed
    have "nat cnt * k < 2 ^ 31 * 2 ^ 4"
      using cnt vector_size_cases [of t] by (auto simp: k_def)
    then have R: "0 < R" "R * 256 < 2 ^ 64" using True bytes by auto
    let ?w = "of_nat (R * 256) :: i64" and ?m = "cps (seg q p (R * 256)) m"
    have cp2: "copyable (seg q p (R * 256)) m" "copyable (seg (q + ?w) (p + ?w) (nat ?rest * k)) ?m"
      using copyable_seg_add cp unfolding bytes by blast+
    have result: "cps (seg (q + ?w) (p + ?w) (nat ?rest * k)) ?m = cps (seg q p (nat cnt * k)) m"
      unfolding bytes by (rule cps_seg_add)
    have x: "word_of_int (int R * 16 * SIMD_BYTE_SIZE) = ?w"
      by (simp add: SIMD_BYTE_SIZE_def)
    let ?e = "e(n \<mapsto> VI64 p, Suc n \<mapsto> VI64 (p + ?w))"
    have rest: "0 \<le> ?rest" using le by simp
    have vsk: "SIMD_BYTE_SIZE sdiv int k = ?vs" by (simp add: vector_size_of_def k_def)
    show ?thesis
      unfolding codegenPrimitive_const_def Let_def vsk vtc
      apply (rule emits_if, use True in simp)
      apply (rule emits_PtrToInt [OF a])
      apply (rule emits_Add [OF holds_newI holds_constNode(2) add_val.simps(1)])
      unfolding x
    proof (rule emits_bind [OF emits_copyloop [OF _ _ R holds_newI cp2(1) vs(1,2)]], goal_cases)
      case (4 ends c1 n1 e1 m1)
      then obtain a1 b1 where ends: "ends = [a1, b1]" "holds n1 e1 a1 (VPtr (p + ?w))"
        "holds n1 e1 b1 (VPtr (q + ?w))" "m1 = ?m" by blast
      show ?case
        unfolding ends(1) nth_Cons_0 nth_Cons_Suc One_nat_def ends(4)
        using post [OF ends(2,3) cp2(2) rest] unfolding result .
    qed (use a b in \<open>auto intro!: gen_mono holds_old\<close>)
  qed
qed

lemma emits_codegenPrimitive:
  fixes t :: PrimitiveType
  defines "k \<equiv> store_size (toLLVMType t)"
  assumes a: "holds n e a (VPtr p)" and i: "holds n e i (VI32 w)" and b: "holds n e b (VPtr q)"
    and w: "0 <s w" and cp: "copyable (seg q p (unat w * k)) m"
  shows "emits G F (codegenPrimitive a i b (int k) t) c n e m (\<lambda>_ _ _ _ m'. m' = cps (seg q p (unat w * k)) m)"
proof (cases "const_count i")
  case None
  have k8: "k \<le> 8" using vector_size_cases [of t] by (auto simp: k_def)
  have "unat w * k \<le> 2 ^ 31 * 2 ^ 4"
    using sless_unat(3) [OF w] k8 by (intro mult_le_mono) auto
  then have u: "unat (word_of_int (int k) * of_nat (unat w) :: i64) = unat w * k"
    using unat64 [of "unat w * k"] by (simp only: of_nat_mult of_int_of_nat_eq mult.commute) simp
  show ?thesis
    unfolding codegenPrimitive_def None option.case
    apply (rule emits_multNode [OF i])
    apply (rule emits_tail, rule emits_MemCpy)
    using a b cp u by (auto intro!: hold emits_return)
next
  case (Some cnt)
  then have "cnt = sint w" using i by (cases i) (auto simp: holds_def)
  then have cnt: "0 < cnt" "cnt < 2 ^ 31" "nat cnt = unat w"
    using sless_unat [OF w] by (simp_all only: sless_unat(2) [OF w] of_nat_0_less_iff nat_int of_nat_less_numeral_power_cancel_iff)
  show ?thesis
    using emits_codegenPrimitive_const [OF a b cnt(1,2), of t m G F c] cp
    by (simp only: cnt(3) k_def codegenPrimitive_def Some option.case)
qed

interpretation primitive: bytecode pack G
    "\<lambda>a i b. codegenPrimitive a i b (int (store_size (toLLVMType t))) t"
    "\<lambda>n. map int [0..<n * store_size (toLLVMType t)]" for pack G t
  by unfold_locales (auto simp: xfer_upto intro!: gen_mono emits_codegenPrimitive)

text \<open>Below the loop threshold the moves are unrolled in the current block.\<close>

lemma emits_codegenPrimitive_short:
  fixes t :: PrimitiveType
  defines "k \<equiv> store_size (toLLVMType t)"
  assumes a: "holds n e a (VPtr p)" and b: "holds n e b (VPtr q)"
    and cnt: "0 < cnt" "cnt < COPY_LOOP_TRESHOLD sdiv int k" and cp: "copyable (seg q p (nat cnt * k)) m"
  shows "emits G F (codegenPrimitive a (constNode cnt) b (int k) t) c n e m
    (\<lambda>_ c' _ _ m'. c' = c \<and> m' = cps (seg q p (nat cnt * k)) m)"
proof -
  have vs: "0 < vector_size_of t" using vector_size_cases [of t] by auto
  have "COPY_LOOP_TRESHOLD sdiv int k \<le> 512"
    using vector_size_cases [of t] by (auto simp: k_def COPY_LOOP_TRESHOLD_def signed_divide_int_def)
  then have "const_count (constNode cnt) = Some cnt"
    using cnt count32(3) [of cnt] by (simp add: constNode_def)
  then have "codegenPrimitive a (constNode cnt) b (int k) t =
      postamble (vector_size_of t) a b cnt (int k) (toLLVMType t)"
    using cnt by (simp add: codegenPrimitive_def codegenPrimitive_const_def Let_def vector_size_of_def k_def)
  then show ?thesis
    using emits_postamble [OF a b cp [unfolded k_def] vs _ refl, of G F c] cnt by (simp add: k_def)
qed

interpretation primitive_single: straight_bytecode pack G
    "\<lambda>a i b. codegenPrimitive a i b (int (store_size (toLLVMType t))) t"
    "\<lambda>n. map int [0..<n * store_size (toLLVMType t)]" 1 for pack G t
proof unfold_locales
  have "1 < COPY_LOOP_TRESHOLD sdiv int (store_size (toLLVMType t))"
    by (cases t) (auto simp: COPY_LOOP_TRESHOLD_def signed_divide_int_def)
  then show "holds n e a (VPtr p) \<Longrightarrow> holds n e b (VPtr q) \<Longrightarrow> 0 < (1 :: int) \<Longrightarrow>
      copyable (xfer pack p q (map int [0..<nat 1 * store_size (toLLVMType t)])) m \<Longrightarrow>
      emits G F (codegenPrimitive a (constNode 1) b (int (store_size (toLLVMType t))) t) c n e m
        (\<lambda>_ c' _ _ m'. c' = c \<and> m' = cps (xfer pack p q (map int [0..<nat 1 * store_size (toLLVMType t)])) m)"
    for n e a b p q m F c
    using emits_codegenPrimitive_short [of n e a p b q 1 t m G F c] by (simp add: xfer_upto)
qed

section \<open>Resized primitives\<close>

text \<open>
  The loop of codegenPrimitiveResized steps the input by the extent and the output
  by the size, which packs; both code generators of ResizedDatatype use it.
\<close>

lemma emits_codegenPrimitiveResized:
  assumes a: "holds n e a (VPtr p)" and i: "holds n e i (VI32 w)" and b: "holds n e b (VPtr q)"
    and w: "0 <s w" and k: "k < 2 ^ 63"
    and cp: "copyable (xfer True p q (rep (unat w) ext (map int [0..<k]))) m"
  shows "emits G F (codegenPrimitiveResized a i b (int k) ext t) c n e m
    (\<lambda>_ _ _ _ m'. m' = cps (xfer True p q (rep (unat w) ext (map int [0..<k]))) m)"
  unfolding codegenPrimitiveResized_def
proof (rule emits_bind [OF emits_do_while [where N = "unat w" and ivals = "[VPtr p, VPtr q, VI32 w]" and
      I = "\<lambda>j vs m'. vs = [VPtr (in_at True p (int j * ext) (int j * int k)),
        VPtr (out_at True q (int j * ext) (int j * int k)), VI32 (w - of_nat j)] \<and>
        m' = cps (xfer True p q (rep j ext (map int [0..<k]))) m"]], goal_cases)
  case (5 j vs l rs n2 e2 m2)
  let ?p = "in_at True p (int j * ext) (int j * int k)" and ?q = "out_at True q (int j * ext) (int j * int k)"
  obtain r1 r2 r3 where r: "rs = [r1, r2, r3]" "holds n2 e2 r1 (VPtr ?p)" "holds n2 e2 r2 (VPtr ?q)"
      "holds n2 e2 r3 (VI32 (w - of_nat j))"
    using 5 by (auto simp: list_all2_Cons2)
  have m2: "m2 = cps (xfer True p q (rep j ext (map int [0..<k]))) m" using 5 by simp
  have cp2: "copyable (seg ?q ?p k) m2"
    using copyable_xfer_rep [OF cp 5(1)] unfolding m2 by (simp add: xfer_upto)
  have m3: "cps (seg ?q ?p k) m2 = cps (xfer True p q (rep (Suc j) ext (map int [0..<k]))) m"
    unfolding m2 xfer_rep_Suc by (simp add: xfer_upto)
  have uk: "unat (word_of_int (int k) :: i64) = k" using k by (simp add: unat_of_nat)
  have exit: "(w - of_nat j - 1 = 0) = (Suc j = unat w)" using 5(1) by (rule countdown)
  have at: "?p + word_of_int ext = in_at True p (int (Suc j) * ext) (int (Suc j) * int k)"
    "?q + word_of_int (int k) = out_at True q (int (Suc j) * ext) (int (Suc j) * int k)"
    by (simp_all only: at_step [of True, unfolded if_True])
  show ?case unfolding r(1) nth_Cons_0 nth_Cons_Suc One_nat_def numeral_2_eq_2
    apply (rule emits_MemCpy [OF r(3,2) holds_constNode(2)])
    unfolding uk m3 using cp2
     apply assumption
    apply ((rule emits_PtrToInt emits_Add emits_IntToPtr emits_Sub32 emits_ICmpEQ hold r(2-4))+)[1]
    apply (rule emits_return)
    unfolding at case_prod_conv
    apply (intro conjI refl exI [of _ "[VPtr (in_at True p (int (Suc j) * ext) (int (Suc j) * int k)),
        VPtr (out_at True q (int (Suc j) * ext) (int (Suc j) * int k)), VI32 (w - of_nat (Suc j))]"])
    using exit apply (simp_all add: holds_def below_def)
    done
qed (use a b i w sless_unat(1) [OF w] in \<open>auto intro!: gen_mono emits_return\<close>)

end
