(* ===== verification/Codegen_Vector.thy ===== *)
theory Codegen_Vector
  imports Layout
begin

text \<open>
  The code generators of codegen\_contiguous.cpp and codegen\_vector.cpp, for any
  basetype.  A basetype is known by its two methods packCodegen and unpackCodegen,
  selected by the flag \<open>pack\<close>.
\<close>

type_synonym codegens = "bool \<Rightarrow> operand \<Rightarrow> operand \<Rightarrow> operand \<Rightarrow> unit gen"

definition codegenContiguous ::
  "operand \<Rightarrow> operand \<Rightarrow> operand \<Rightarrow> codegens \<Rightarrow> int \<Rightarrow> int \<Rightarrow> int \<Rightarrow> bool \<Rightarrow> unit gen" where
  "codegenContiguous inbuf incount outbuf basetype inptr_inc outptr_inc count pack = do {
     _ \<leftarrow> do_while [outbuf, inbuf, constNode 0] (\<lambda>_ phis. do {
       let out = phis ! 0; let inp = phis ! 1; let i = phis ! 2;
       basetype pack inp (constNode count) out;
       out_addr_cvi \<leftarrow> CreatePtrToInt out;
       out_addr \<leftarrow> CreateAdd out_addr_cvi (constNode_long outptr_inc);
       nextout \<leftarrow> CreateIntToPtr out_addr;
       in_addr_cvi \<leftarrow> CreatePtrToInt inp;
       in_addr \<leftarrow> CreateAdd in_addr_cvi (constNode_long inptr_inc);
       nextin \<leftarrow> CreateIntToPtr in_addr;
       nexti \<leftarrow> CreateAdd i (constNode 1);
       EndCond_outer \<leftarrow> CreateICmpEQ nexti incount;
       LoopEndBB \<leftarrow> GetInsertBlock;
       State_Monad.return (LoopEndBB, [nextout, nextin, nexti], EndCond_outer) });
     State_Monad.return () }"

definition codegenVector ::
  "operand \<Rightarrow> operand \<Rightarrow> operand \<Rightarrow> codegens \<Rightarrow> int \<Rightarrow> int \<Rightarrow> int \<Rightarrow> int \<Rightarrow> int \<Rightarrow> int \<Rightarrow> bool \<Rightarrow> unit gen" where
  "codegenVector inbuf incount outbuf basetype count blocklen elemstride_in elemstride_out extent elemsize pack = do {
     out \<leftarrow> CreatePtrToInt outbuf;
     inp \<leftarrow> CreatePtrToInt inbuf;
     _ \<leftarrow> do_while [out, inp, constNode 0] (\<lambda>_ phis. do {
       let out1 = phis ! 0; let in1 = phis ! 1; let i = phis ! 2;
       early \<leftarrow> (if pack then CreateAdd out1 (constNode_long elemsize)
                 else CreateAdd in1 (constNode_long extent));
       _ \<leftarrow> do_while [out1, in1] (\<lambda>_ phis. do {
         let out2 = phis ! 0; let in2 = phis ! 1;
         out2_addr \<leftarrow> CreateIntToPtr out2;
         in2_addr \<leftarrow> CreateIntToPtr in2;
         basetype pack in2_addr (constNode blocklen) out2_addr;
         nextout2 \<leftarrow> CreateAdd out2 (constNode_long elemstride_out);
         nextin2 \<leftarrow> CreateAdd in2 (constNode_long elemstride_in);
         EndCond_inner \<leftarrow> (if pack then CreateICmpEQ nextout2 early
                           else CreateICmpEQ nextin2 early);
         LoopEnd_inner_BB \<leftarrow> GetInsertBlock;
         State_Monad.return (LoopEnd_inner_BB, [nextout2, nextin2], EndCond_inner) });
       late \<leftarrow> (if pack then CreateAdd in1 (constNode_long extent)
                else CreateAdd out1 (constNode_long elemsize));
       let nextout1 = (if pack then early else late);
       let nextin1 = (if pack then late else early);
       nexti \<leftarrow> CreateAdd i (constNode 1);
       EndCond_outer \<leftarrow> CreateICmpEQ nexti incount;
       LoopEnd_outer_BB \<leftarrow> GetInsertBlock;
       State_Monad.return (LoopEnd_outer_BB, [nextout1, nextin1, nexti], EndCond_outer) });
     State_Monad.return () }"

section \<open>The generators only append\<close>

lemma gen_ok_codegenContiguous:
  assumes "\<And>a k b. gen_ok (basetype pack a k b)"
  shows "gen_ok (codegenContiguous a k b basetype x y cnt pack)"
  unfolding codegenContiguous_def Let_def by (intro gen_mono assms)

lemma gen_ok_codegenVector:
  assumes "\<And>a k b. gen_ok (basetype pack a k b)"
  shows "gen_ok (codegenVector a k b basetype cnt bl si so ext sz pack)"
  unfolding codegenVector_def Let_def by (intro gen_mono assms)

section \<open>What the loops move\<close>

context bytecode
begin

lemma contiguous_moves:
  assumes a: "holds n e a (VPtr p)" and i: "holds n e i (VI32 w)" and b: "holds n e b (VPtr q)" and w: "0 <s w"
    and base: "basetype pack = code" and cnt: "0 < cnt" "cnt < 2 ^ 31"
    and inc: "inptr_inc = (if pack then ext else int (length (D (nat cnt))))"
      "outptr_inc = (if pack then int (length (D (nat cnt))) else ext)"
    and cp: "copyable (xfer pack p q (rep (unat w) ext (D (nat cnt)))) m"
  shows "emits G F (codegenContiguous a i b basetype inptr_inc outptr_inc cnt pack) c n e m
    (\<lambda>_ _ _ _ m'. m' = cps (xfer pack p q (rep (unat w) ext (D (nat cnt)))) m)"
  unfolding codegenContiguous_def Let_def base
proof (rule emits_bind [OF emits_do_while [where N = "unat w" and ivals = "[VPtr q, VPtr p, VI32 0]" and
      I = "\<lambda>j vs m'. vs = [VPtr (out_at pack q (int j * ext) (int j * int (length (D (nat cnt))))),
        VPtr (in_at pack p (int j * ext) (int j * int (length (D (nat cnt))))), VI32 (of_nat j)] \<and>
        m' = cps (xfer pack p q (rep j ext (D (nat cnt)))) m"]], goal_cases)
  case (5 j vs l rs n2 e2 m2)
  let ?D = "D (nat cnt)"
  let ?p = "in_at pack p (int j * ext) (int j * int (length ?D))"
  let ?q = "out_at pack q (int j * ext) (int j * int (length ?D))"
  obtain r1 r2 r3 where r: "rs = [r1, r2, r3]" "holds n2 e2 r1 (VPtr ?q)" "holds n2 e2 r2 (VPtr ?p)"
      "holds n2 e2 r3 (VI32 (of_nat j))"
    using 5 by (auto simp: list_all2_Cons2)
  have m2: "m2 = cps (xfer pack p q (rep j ext ?D)) m" using 5 by simp
  have w2: "holds n2 e2 i (VI32 w)" using i 5(4,3) by (rule holds_mono)
  have cp2: "copyable (xfer pack ?p ?q (D (unat (word_of_int cnt :: i32)))) m2"
    using copyable_xfer_rep [OF cp 5(1)] unfolding m2 count32(2) [OF cnt] .
  have m3: "cps (xfer pack ?p ?q (D (unat (word_of_int cnt :: i32)))) m2 = cps (xfer pack p q (rep (Suc j) ext ?D)) m"
    unfolding m2 xfer_rep_Suc count32(2) [OF cnt] by simp
  have at: "?p + word_of_int inptr_inc = in_at pack p (int (Suc j) * ext) (int (Suc j) * int (length ?D))"
    "?q + word_of_int outptr_inc = out_at pack q (int (Suc j) * ext) (int (Suc j) * int (length ?D))"
    by (simp_all only: at_step inc)
  show ?case unfolding r(1) nth_Cons_0 nth_Cons_Suc One_nat_def numeral_2_eq_2
  proof (rule emits_bind [OF code_moves [OF r(3) holds_constNode(1) r(2) count32(1) [OF cnt] cp2]], goal_cases)
    case (2 y c1 n1 e1 m1)
    have r1: "holds n1 e1 r1 (VPtr ?q)" "holds n1 e1 r2 (VPtr ?p)" "holds n1 e1 r3 (VI32 (of_nat j))"
      "holds n1 e1 i (VI32 w)"
      using r(2-4) w2 2(1,2) by (auto intro: holds_mono)
    show ?case
      apply ((rule emits_PtrToInt emits_Add emits_IntToPtr emits_ICmpEQ emits_GetInsertBlock hold r1)+)[1]
      apply (rule emits_return)
      using countup [OF 5(1)] 2(3) m3
      by (simp add: holds_def below_def at)
  qed (intro gen_mono)
qed (use a b i w sless_unat(1) [OF w] code_ok in \<open>auto simp: base intro!: gen_mono emits_return\<close>)

text \<open>The inner loop moves \<open>N\<close> blocks; it ends when the compact buffer is full.\<close>

lemma vector_inner_moves:
  fixes N :: nat
  defines "L bl \<equiv> length (D (nat bl))"
  assumes o1: "holds n e out1 (VI64 q)" and i1: "holds n e in1 (VI64 p)"
    and x: "holds n e x (VI64 ((if pack then q else p) + word_of_int (int N * int (L bl))))"
    and base: "basetype pack = code" and bl: "0 < bl" "bl < 2 ^ 31"
    and N: "0 < N" "0 < L bl" "N * L bl < 2 ^ 64"
    and inc: "si = (if pack then ext else int (L bl))" "so = (if pack then int (L bl) else ext)"
    and cp: "copyable (xfer pack p q (rep N ext (D (nat bl)))) m"
  shows "emits G F (do_while [out1, in1] (\<lambda>_ phis. do {
         let out2 = phis ! 0; let in2 = phis ! 1;
         out2_addr \<leftarrow> CreateIntToPtr out2;
         in2_addr \<leftarrow> CreateIntToPtr in2;
         basetype pack in2_addr (constNode bl) out2_addr;
         nextout2 \<leftarrow> CreateAdd out2 (constNode_long so);
         nextin2 \<leftarrow> CreateAdd in2 (constNode_long si);
         EndCond_inner \<leftarrow> (if pack then CreateICmpEQ nextout2 x else CreateICmpEQ nextin2 x);
         LoopEnd_inner_BB \<leftarrow> GetInsertBlock;
         State_Monad.return (LoopEnd_inner_BB, [nextout2, nextin2], EndCond_inner) })) c n e m
    (\<lambda>_ _ _ _ m'. m' = cps (xfer pack p q (rep N ext (D (nat bl)))) m)"
  unfolding Let_def base
proof (rule emits_do_while [where N = N and ivals = "[VI64 q, VI64 p]" and
      I = "\<lambda>j vs m'. vs = [VI64 (out_at pack q (int j * ext) (int j * int (L bl))),
        VI64 (in_at pack p (int j * ext) (int j * int (L bl)))] \<and>
        m' = cps (xfer pack p q (rep j ext (D (nat bl)))) m"], goal_cases)
  case (5 j vs l rs n2 e2 m2)
  let ?D = "D (nat bl)"
  let ?p = "in_at pack p (int j * ext) (int j * int (L bl))"
  let ?q = "out_at pack q (int j * ext) (int j * int (L bl))"
  obtain r1 r2 where r: "rs = [r1, r2]" "holds n2 e2 r1 (VI64 ?q)" "holds n2 e2 r2 (VI64 ?p)"
    using 5 by (auto simp: list_all2_Cons2)
  have m2: "m2 = cps (xfer pack p q (rep j ext ?D)) m" using 5 by simp
  have cp2: "copyable (xfer pack ?p ?q (D (unat (word_of_int bl :: i32)))) m2"
    using copyable_xfer_rep [OF cp 5(1)] unfolding m2 count32(2) [OF bl] L_def .
  have m3: "cps (xfer pack ?p ?q (D (unat (word_of_int bl :: i32)))) m2 = cps (xfer pack p q (rep (Suc j) ext ?D)) m"
    unfolding m2 xfer_rep_Suc count32(2) [OF bl] L_def by simp
  have at: "?p + word_of_int si = in_at pack p (int (Suc j) * ext) (int (Suc j) * int (L bl))"
    "?q + word_of_int so = out_at pack q (int (Suc j) * ext) (int (Suc j) * int (L bl))"
    by (simp_all only: at_step inc)
  have exit: "word_of_int (int (Suc j) * int (L bl)) = (word_of_int (int N * int (L bl)) :: i64) \<longleftrightarrow> Suc j = N"
    using mult_eq_64 [OF _ N(2,3)] 5(1) by (simp only: Suc_le_eq)
  have exits: "pack \<Longrightarrow> out_at True q (int (Suc j) * ext) (int (Suc j) * int (L bl)) =
      q + word_of_int (int N * int (L bl)) \<longleftrightarrow> Suc j = N"
    "\<not> pack \<Longrightarrow> in_at False p (int (Suc j) * ext) (int (Suc j) * int (L bl)) =
      p + word_of_int (int N * int (L bl)) \<longleftrightarrow> Suc j = N"
    unfolding in_at_def out_at_def if_True if_False add_left_cancel by (rule exit)+
  show ?case unfolding r(1) nth_Cons_0 nth_Cons_Suc One_nat_def
    apply (rule emits_IntToPtr [OF r(2)])
    apply (rule emits_IntToPtr [OF holds_old [OF r(3)]])
  proof (rule emits_bind [OF code_moves [OF holds_newI holds_constNode(1) holds_old [OF holds_newI] count32(1) [OF bl] cp2]],
      goal_cases)
    case (2 y c1 n1 e1 m1)
    have n1: "n2 \<le> n1" "agree n2 e2 e1" using 2(1,2) by (auto simp: agree_def)
    have r1: "holds n1 e1 r1 (VI64 ?q)" "holds n1 e1 r2 (VI64 ?p)"
      "holds n1 e1 x (VI64 ((if pack then q else p) + word_of_int (int N * int (L bl))))"
      using holds_mono [OF r(2) n1(2,1)] holds_mono [OF r(3) n1(2,1)]
        holds_mono [OF holds_mono [OF x 5(4,3)] n1(2,1)] .
    show ?case
    proof (cases pack)
      case True
      show ?thesis unfolding if_P [OF True] simps
        apply ((rule emits_Add emits_ICmpEQ emits_GetInsertBlock hold r1)+)[1]
        apply (rule emits_return)
        unfolding at using 2(3) m3 exits(1) [OF True] True
        by (simp add: holds_def below_def del: of_nat_Suc of_int_mult of_int_of_nat_eq)
    next
      case False
      show ?thesis unfolding if_not_P [OF False]
        apply ((rule emits_Add emits_ICmpEQ emits_GetInsertBlock hold r1)+)[1]
        apply (rule emits_return)
        unfolding at using 2(3) m3 exits(2) [OF False] False
        by (simp add: holds_def below_def del: of_nat_Suc of_int_mult of_int_of_nat_eq)
    qed
  qed (intro gen_mono)
qed (use o1 i1 N code_ok in \<open>auto simp: base intro!: gen_mono\<close>)

lemma vector_moves:
  assumes a: "holds n e a (VPtr p)" and i: "holds n e i (VI32 w)" and b: "holds n e b (VPtr q)" and w: "0 <s w"
    and base: "basetype pack = code" and bl: "0 < bl" "bl < 2 ^ 31"
    and N: "0 < N" "0 < length (D (nat bl))" "N * length (D (nat bl)) < 2 ^ 64"
    and str: "si = (if pack then stride else int (length (D (nat bl))))"
      "so = (if pack then int (length (D (nat bl))) else stride)"
    and inc: "inc_in = (if pack then ext else int (N * length (D (nat bl))))"
      "inc_out = (if pack then int (N * length (D (nat bl))) else ext)"
    and cp: "copyable (xfer pack p q (rep (unat w) ext (rep N stride (D (nat bl))))) m"
  shows "emits G F (codegenVector a i b basetype (int N) bl si so inc_in inc_out pack) c n e m
    (\<lambda>_ _ _ _ m'. m' = cps (xfer pack p q (rep (unat w) ext (rep N stride (D (nat bl))))) m)"
  unfolding codegenVector_def Let_def
  apply (rule emits_PtrToInt [OF b])
  apply (rule emits_PtrToInt [OF holds_old [OF a]])
proof (rule emits_bind [OF emits_do_while [where N = "unat w" and ivals = "[VI64 q, VI64 p, VI32 0]" and
      I = "\<lambda>j vs m'. vs = [VI64 (out_at pack q (int j * ext) (int j * int (N * length (D (nat bl))))),
        VI64 (in_at pack p (int j * ext) (int j * int (N * length (D (nat bl))))), VI32 (of_nat j)] \<and>
        m' = cps (xfer pack p q (rep j ext (rep N stride (D (nat bl))))) m"]], goal_cases)
  case (5 j vs l rs n2 e2 m2)
  let ?D = "rep N stride (D (nat bl))" and ?L = "N * length (D (nat bl))"
  let ?p = "in_at pack p (int j * ext) (int j * int ?L)" and ?q = "out_at pack q (int j * ext) (int j * int ?L)"
  obtain r1 r2 r3 where r: "rs = [r1, r2, r3]" "holds n2 e2 r1 (VI64 ?q)" "holds n2 e2 r2 (VI64 ?p)"
      "holds n2 e2 r3 (VI32 (of_nat j))"
    using 5 by (auto simp: list_all2_Cons2)
  have ag: "n \<le> n2" "agree n e e2" using 5(3,4) by (auto simp: agree_def)
  have w2: "holds n2 e2 i (VI32 w)" using i ag(2,1) by (rule holds_mono)
  have m2: "m2 = cps (xfer pack p q (rep j ext ?D)) m" using 5 by simp
  have cp2: "copyable (xfer pack ?p ?q ?D) m2"
    using copyable_xfer_rep [OF cp 5(1)] unfolding m2 length_rep .
  have m3: "cps (xfer pack ?p ?q ?D) m2 = cps (xfer pack p q (rep (Suc j) ext ?D)) m"
    unfolding m2 xfer_rep_Suc length_rep by simp
  have at: "?p + word_of_int inc_in = in_at pack p (int (Suc j) * ext) (int (Suc j) * int ?L)"
    "?q + word_of_int inc_out = out_at pack q (int (Suc j) * ext) (int (Suc j) * int ?L)"
    by (simp_all only: at_step inc)
  have early: "pack \<Longrightarrow> ?q + word_of_int inc_out = ?q + word_of_int (int N * int (length (D (nat bl))))"
    "\<not> pack \<Longrightarrow> ?p + word_of_int inc_in = ?p + word_of_int (int N * int (length (D (nat bl))))"
    by (simp_all add: inc)
  note inner = vector_inner_moves [where basetype = basetype and x = "Reg n2" and n = "Suc n2" and F = F and c = l,
      OF _ _ _ base bl N str, unfolded Let_def nth_Cons_0 nth_Cons_Suc One_nat_def]
  have ws: "(of_nat (Suc j) :: i32) = of_nat j + 1" by simp
  note simps = r(1) nth_Cons_0 nth_Cons_Suc One_nat_def numeral_2_eq_2
  show ?case
  proof (cases pack)
    case True
    let ?e = "e2(n2 \<mapsto> VI64 (?q + word_of_int inc_out))"
    have rn: "holds (Suc n2) ?e (Reg n2) (VI64 ((if pack then ?q else ?p) + word_of_int (int N * int (length (D (nat bl))))))"
      using early(1) True by simp
    show ?thesis unfolding if_P [OF True] simps
      apply (rule emits_Add [OF r(2) holds_constNode(2) add_val.simps(1)])
    proof (rule emits_bind [OF inner [unfolded if_P [OF True], OF holds_old [OF r(2)] holds_old [OF r(3)] rn [unfolded if_P [OF True]] cp2]], goal_cases)
      case (2 y c1 n1 e1 m1)
      have n1: "n2 \<le> n1" "agree n2 e2 e1" using 2(1,2) by (auto simp: agree_def)
      have r1: "holds n1 e1 r1 (VI64 ?q)" "holds n1 e1 r2 (VI64 ?p)" "holds n1 e1 r3 (VI32 (of_nat j))"
        "holds n1 e1 i (VI32 w)"
        using r(2-4) w2 n1 by (auto intro: holds_mono)
      have rn1: "holds n1 e1 (Reg n2) (VI64 (?q + word_of_int inc_out))"
        using 2(2,1) by (rule holds_mono [OF holds_newI])
      show ?case
        apply ((rule emits_Add emits_ICmpEQ emits_GetInsertBlock hold r1)+)[1]
        apply (rule emits_return)
        using countup [OF 5(1)] 2(3) m3 rn1 by (simp add: holds_def below_def at ws del: of_nat_Suc of_nat_mult)
    qed (intro gen_mono)
  next
    case False
    let ?e = "e2(n2 \<mapsto> VI64 (?p + word_of_int inc_in))"
    have rn: "holds (Suc n2) ?e (Reg n2) (VI64 ((if pack then ?q else ?p) + word_of_int (int N * int (length (D (nat bl))))))"
      using early(2) False by simp
    show ?thesis unfolding if_not_P [OF False] simps
      apply (rule emits_Add [OF r(3) holds_constNode(2) add_val.simps(1)])
    proof (rule emits_bind [OF inner [unfolded if_not_P [OF False], OF holds_old [OF r(2)] holds_old [OF r(3)] rn [unfolded if_not_P [OF False]] cp2]], goal_cases)
      case (2 y c1 n1 e1 m1)
      have n1: "n2 \<le> n1" "agree n2 e2 e1" using 2(1,2) by (auto simp: agree_def)
      have r1: "holds n1 e1 r1 (VI64 ?q)" "holds n1 e1 r2 (VI64 ?p)" "holds n1 e1 r3 (VI32 (of_nat j))"
        "holds n1 e1 i (VI32 w)"
        using r(2-4) w2 n1 by (auto intro: holds_mono)
      have rn1: "holds n1 e1 (Reg n2) (VI64 (?p + word_of_int inc_in))"
        using 2(2,1) by (rule holds_mono [OF holds_newI])
      show ?case
        apply ((rule emits_Add emits_ICmpEQ emits_GetInsertBlock hold r1)+)[1]
        apply (rule emits_return)
        using countup [OF 5(1)] 2(3) m3 rn1 by (simp add: holds_def below_def at ws del: of_nat_Suc of_nat_mult)
    qed (intro gen_mono)
  qed
qed (use a b i w sless_unat(1) [OF w] code_ok in \<open>auto simp: base hold intro!: gen_mono emits_return hold\<close>)

end

end
