(* ===== verification/Codegen_Indexed.thy ===== *)
theory Codegen_Indexed
  imports Codegen_Vector
begin

text \<open>
  The code generators of codegen\_indexed.cpp.  The loops of codegenHindexed,
  codegenStruct and of codegenIndexedBlock with few blocks are the same code up to
  the displacements and basetypes of their blocks: \<open>codegenBlocks\<close>, which unrolls
  the blocks in a loop over the elements.  codegenIndexedBlock with many blocks
  emits a loop over a table of displacements instead.
\<close>

definition IDXB_LOOP_TRESHOLD :: int where "IDXB_LOOP_TRESHOLD = 16"
definition IDXB_LOOP_UNROLL :: nat where "IDXB_LOOP_UNROLL = 1"

text \<open>A block: its displacement, its length, its basetype and the bytes it packs to.\<close>

type_synonym block_desc = "int \<times> int \<times> codegens \<times> int"

fun unrolled_blocks :: "bool \<Rightarrow> operand \<Rightarrow> operand \<Rightarrow> operand \<Rightarrow> block_desc list \<Rightarrow> operand gen" where
  "unrolled_blocks pack scattered_disp_base compact_addr nextcompact [] = State_Monad.return nextcompact"
| "unrolled_blocks pack scattered_disp_base compact_addr nextcompact ((displ_i, blocklen, basetype, compact_bytes) # bs) = do {
     scattered_disp \<leftarrow> CreateAdd scattered_disp_base (constNode_long displ_i);
     scattered \<leftarrow> CreateIntToPtr scattered_disp;
     (if pack then basetype True scattered (constNode blocklen) nextcompact
      else basetype False nextcompact (constNode blocklen) scattered);
     compact_addr \<leftarrow> CreateAdd compact_addr (constNode_long compact_bytes);
     nextcompact \<leftarrow> CreateIntToPtr compact_addr;
     unrolled_blocks pack scattered_disp_base compact_addr nextcompact bs }"

definition codegenBlocks ::
  "operand \<Rightarrow> operand \<Rightarrow> operand \<Rightarrow> int \<Rightarrow> block_desc list \<Rightarrow> bool \<Rightarrow> unit gen" where
  "codegenBlocks compactbuf scatteredbuf incount extent bs pack = do {
     scatteredbuf_orig_int \<leftarrow> CreatePtrToInt scatteredbuf;
     incount_64 \<leftarrow> CreateZExt incount;
     incount_expanded \<leftarrow> CreateMul incount_64 (constNode_long extent);
     _ \<leftarrow> do_while [compactbuf, constNode_long 0] (\<lambda>_ phis. do {
       let compact = phis ! 0; let i = phis ! 1;
       compact_addr \<leftarrow> CreatePtrToInt compact;
       scattered_disp_base \<leftarrow> CreateAdd scatteredbuf_orig_int i;
       nextcompact \<leftarrow> unrolled_blocks pack scattered_disp_base compact_addr compact bs;
       nexti \<leftarrow> CreateAdd i (constNode_long extent);
       EndCond \<leftarrow> CreateICmpEQ nexti incount_expanded;
       LoopEndBB \<leftarrow> GetInsertBlock;
       State_Monad.return (LoopEndBB, [nextcompact, nexti], EndCond) });
     State_Monad.return () }"

text \<open>A basetype as these generators see it: its methods, its size and its extent.\<close>

record basetype_info =
  bt_codegen :: codegens
  bt_size :: int
  bt_extent :: int

definition codegenHindexed ::
  "operand \<Rightarrow> operand \<Rightarrow> operand \<Rightarrow> int \<Rightarrow> int \<Rightarrow> basetype_info \<Rightarrow> int list \<Rightarrow> int list \<Rightarrow> bool \<Rightarrow> unit gen" where
  "codegenHindexed compactbuf scatteredbuf incount extent count basetype blocklens displs pack =
     codegenBlocks compactbuf scatteredbuf incount extent
       (map (\<lambda>i. (displs ! i, blocklens ! i, bt_codegen basetype, bt_size basetype * blocklens ! i))
         [0..<nat count]) pack"

definition codegenStruct ::
  "operand \<Rightarrow> operand \<Rightarrow> operand \<Rightarrow> int \<Rightarrow> int \<Rightarrow> int list \<Rightarrow> int list \<Rightarrow> basetype_info list \<Rightarrow> bool \<Rightarrow> unit gen" where
  "codegenStruct compactbuf scatteredbuf incount extent count blocklens displs basetypes pack =
     codegenBlocks compactbuf scatteredbuf incount extent
       (map (\<lambda>i. (displs ! i, blocklens ! i, bt_codegen (basetypes ! i), bt_size (basetypes ! i) * blocklens ! i))
         [0..<nat count]) pack"

fun idxb_moves ::
  "nat \<Rightarrow> bool \<Rightarrow> operand \<Rightarrow> operand \<Rightarrow> basetype_info \<Rightarrow> int \<Rightarrow> operand \<Rightarrow> operand \<Rightarrow> (operand \<times> operand) gen" where
  "idxb_moves 0 pack indices_arr noncontig1 basetype blocklen nexti nextcontig2 =
     State_Monad.return (nexti, nextcontig2)"
| "idxb_moves (Suc j) pack indices_arr noncontig1 basetype blocklen nexti nextcontig2 = do {
     displloc \<leftarrow> CreateGEP indices_arr nexti;
     displ \<leftarrow> CreateLoad displloc;
     displ64 \<leftarrow> CreateZExt displ;
     noncontig2 \<leftarrow> CreateAdd noncontig1 displ64;
     contig2ptr \<leftarrow> CreateIntToPtr nextcontig2;
     noncontig2ptr \<leftarrow> CreateIntToPtr noncontig2;
     (if pack then bt_codegen basetype True noncontig2ptr (constNode blocklen) contig2ptr
      else bt_codegen basetype False contig2ptr (constNode blocklen) noncontig2ptr);
     nextcontig2 \<leftarrow> CreateAdd nextcontig2 (constNode_long (blocklen * bt_extent basetype));
     nexti \<leftarrow> CreateAdd nexti (constNode_long 1);
     idxb_moves j pack indices_arr noncontig1 basetype blocklen nexti nextcontig2 }"

definition codegenIndexedBlock ::
  "operand \<Rightarrow> operand \<Rightarrow> operand \<Rightarrow> int \<Rightarrow> int \<Rightarrow> int \<Rightarrow> int \<Rightarrow> basetype_info \<Rightarrow> int list \<Rightarrow>
    nat option \<Rightarrow> bool \<Rightarrow> unit gen" where
  "codegenIndexedBlock compactbuf scatteredbuf incount extent elemsize count blocklen basetype displs indices_arr pack =
     (if count > IDXB_LOOP_TRESHOLD then do {
        noncontig \<leftarrow> CreatePtrToInt scatteredbuf;
        contig \<leftarrow> CreatePtrToInt compactbuf;
        incount64 \<leftarrow> CreateZExt incount;
        bytestocopy \<leftarrow> CreateMul incount64 (constNode_long elemsize);
        exitcond \<leftarrow> CreateAdd contig bytestocopy;
        _ \<leftarrow> do_while [contig, noncontig] (\<lambda>_ phis. do {
          let contig1 = phis ! 0; let noncontig1 = phis ! 1;
          ends \<leftarrow> do_while [constNode_long 0, contig1] (\<lambda>innerloop phis. do {
            let i = phis ! 0; let contig2 = phis ! 1;
            (nexti, nextcontig2) \<leftarrow> idxb_moves IDXB_LOOP_UNROLL pack (GlobalRef (the indices_arr))
               noncontig1 basetype blocklen i contig2;
            innertest \<leftarrow> CreateICmpEQ nexti (constNode_long count);
            State_Monad.return (innerloop, [nexti, nextcontig2], innertest) });
          nextnoncontig1 \<leftarrow> CreateAdd noncontig1 (constNode_long extent);
          let nextcontig1 = ends ! 1;
          innerpost \<leftarrow> GetInsertBlock;
          outertest \<leftarrow> CreateICmpEQ nextcontig1 exitcond;
          State_Monad.return (innerpost, [nextcontig1, nextnoncontig1], outertest) });
        State_Monad.return () }
      else codegenBlocks compactbuf scatteredbuf incount extent
       (map (\<lambda>i. (displs ! i * bt_size basetype, blocklen, bt_codegen basetype, bt_size basetype * blocklen))
         [0..<nat count]) pack)"

section \<open>The generators only append\<close>

lemma gen_ok_directed:
  "(\<And>a k b. gen_ok (base pack a k b)) \<Longrightarrow>
     gen_ok (if pack then base True a k b else base False c j d)"
  by (cases pack) auto

lemma gen_ok_unrolled_blocks:
  assumes "\<forall>(d, l, base, s) \<in> set bs. \<forall>a k b. gen_ok (base pack a k b)"
  shows "gen_ok (unrolled_blocks pack s c n bs)"
  using assms
proof (induction bs arbitrary: c n)
  case (Cons x bs)
  obtain d l base k where x: "x = (d, l, base, k)" by (cases x)
  have "gen_ok (base pack a k b)" for a k b using Cons.prems by (auto simp: x)
  then show ?case unfolding x unrolled_blocks.simps
    using Cons.prems by (intro gen_mono gen_ok_directed Cons.IH) auto
qed (auto intro: gen_mono)

lemma gen_ok_codegenBlocks:
  assumes "\<forall>(d, l, base, s) \<in> set bs. \<forall>a k b. gen_ok (base pack a k b)"
  shows "gen_ok (codegenBlocks c s i ext bs pack)"
  unfolding codegenBlocks_def Let_def by (intro gen_mono gen_ok_unrolled_blocks assms)

lemma gen_ok_idxb_moves:
  assumes "\<And>a k b. gen_ok (bt_codegen base pack a k b)"
  shows "gen_ok (idxb_moves j pack arr nc base l i c)"
proof (induction j arbitrary: i c)
  case (Suc j)
  show ?case unfolding idxb_moves.simps by (intro gen_mono gen_ok_directed assms Suc.IH)
qed (auto intro: gen_mono)

lemma gen_ok_codegenIndexedBlock:
  assumes "\<And>a k b. gen_ok (bt_codegen base pack a k b)"
  shows "gen_ok (codegenIndexedBlock c s i ext sz cnt l base ds arr pack)"
  unfolding codegenIndexedBlock_def Let_def
  by (intro gen_mono gen_ok_idxb_moves gen_ok_codegenBlocks assms) (auto intro: assms)

section \<open>What the loops move\<close>

lemma copyable_moves_append:
  assumes "copyable (moves pack s c (A @ B)) m"
  shows "copyable (moves pack s c A) m" "copyable (moves pack s (c + of_nat (length A)) B) (cps (moves pack s c A) m)"
  using assms copyable_append1 copyable_append2 by (auto simp: moves_append)

text \<open>A block of the list moves the bytes of \<open>D\<close>, with the basetype's code.\<close>

definition block_moves :: "bool \<Rightarrow> globals \<Rightarrow> block_desc \<Rightarrow> (nat \<Rightarrow> int list) \<Rightarrow> bool" where
  "block_moves pack G = (\<lambda>(d, l, base, k) D. bytecode pack G (base pack) D \<and> 0 < l \<and> l < 2 ^ 31 \<and>
     k = int (length (D (nat l))))"

definition block_layout :: "block_desc list \<Rightarrow> (nat \<Rightarrow> int list) list \<Rightarrow> int list" where
  "block_layout bs Ds = blocks_at (map2 (\<lambda>(d, l, base, k) D. (d, D (nat l))) bs Ds)"

lemma directed_moves:
  assumes "bytecode pack G (base pack) D" "holds n e sc (VPtr s)" "holds n e k (VI32 w)" "holds n e cm (VPtr c)"
    "0 <s w" "copyable (moves pack s c (D (unat w))) m"
  shows "emits G F (if pack then base True sc k cm else base False cm k sc) b n e m
    (\<lambda>_ _ _ _ m'. m' = cps (moves pack s c (D (unat w))) m)"
proof (cases pack)
  case True
  then show ?thesis
    using bytecode.code_moves [OF assms(1,2,3,4,5), of m F b] assms(6) by (simp add: xfer_def)
next
  case False
  then show ?thesis
    using bytecode.code_moves [OF assms(1,4,3,2,5), of m F b] assms(6) by (simp add: xfer_def)
qed

lemma blocks_gen_ok:
  "list_all2 (block_moves pack G) bs Ds \<Longrightarrow> \<forall>(d, l, base, s) \<in> set bs. \<forall>a k b. gen_ok (base pack a k b)"
  by (induction rule: list_all2_induct) (auto simp: block_moves_def bytecode.code_ok)

lemma emits_unrolled_blocks:
  assumes "list_all2 (block_moves pack G) bs Ds"
    and "holds n e sb (VI64 s)" "holds n e ca (VI64 c)" "holds n e nc (VPtr c)"
    and "copyable (moves pack s c (block_layout bs Ds)) m"
  shows "emits G F (unrolled_blocks pack sb ca nc bs) b n e m (\<lambda>r _ n' e' m'.
    holds n' e' r (VPtr (c + of_nat (length (block_layout bs Ds)))) \<and>
    m' = cps (moves pack s c (block_layout bs Ds)) m)"
  using assms
proof (induction bs arbitrary: Ds n e sb ca nc c m b)
  case Nil
  then show ?case by (simp add: block_layout_def emits_return)
next
  case (Cons x bs)
  obtain d l base k where x: "x = (d, l, base, k)" by (cases x)
  obtain D Ds' where Ds: "Ds = D # Ds'" and D: "block_moves pack G x D"
    and Ds': "list_all2 (block_moves pack G) bs Ds'"
    using Cons.prems(1) by (auto simp: list_all2_Cons1)
  have base: "bytecode pack G (base pack) D" and l: "0 < l" "l < 2 ^ 31" and k: "k = int (length (D (nat l)))"
    using D by (auto simp: block_moves_def x)
  let ?A = "D (nat l)" and ?B = "block_layout bs Ds'"
  have lay: "block_layout (x # bs) Ds = shift d ?A @ ?B" by (simp add: block_layout_def x Ds)
  have cp: "copyable (moves pack (s + word_of_int d) c (D (unat (word_of_int l :: i32)))) m"
    "copyable (moves pack s (c + word_of_int k) ?B) (cps (moves pack (s + word_of_int d) c ?A) m)"
    using copyable_moves_append [OF Cons.prems(5) [unfolded lay]]
    unfolding count32(2) [OF l] by (simp_all add: moves_shift k)
  have others: "\<And>a. gen_ok (unrolled_blocks pack a b c' bs)" for b c'
    using blocks_gen_ok [OF Ds'] by (rule gen_ok_unrolled_blocks)
  have "emits G F (unrolled_blocks pack sb ca nc (x # bs)) b n e m (\<lambda>r _ n' e' m'.
    holds n' e' r (VPtr (c + word_of_int k + of_nat (length ?B))) \<and>
    m' = cps (moves pack s (c + word_of_int k) ?B) (cps (moves pack (s + word_of_int d) c ?A) m))"
    unfolding x unrolled_blocks.simps
    apply (rule emits_Add [OF Cons.prems(2) holds_constNode(2) add_val.simps(1)])
    apply (rule emits_IntToPtr [OF holds_newI])
  proof (rule emits_bind [OF directed_moves [where base = base and pack = pack and D = D, OF base holds_newI holds_constNode(1) _ count32(1) [OF l] cp(1)]], goal_cases)
    case 1
    show ?case using Cons.prems(4) by (intro holds_old)
  next
    case 2
    show ?case by (intro gen_mono others)
  next
    case (3 y c1 n1 e1 m1)
    have n1: "n \<le> n1" "agree n e e1" using 3(1,2) by (auto simp: agree_def)
    have m1: "m1 = cps (moves pack (s + word_of_int d) c ?A) m" using 3(3) unfolding count32(2) [OF l] .
    show ?case unfolding m1
      apply (rule emits_Add [OF holds_mono [OF Cons.prems(3) n1(2,1)] holds_constNode(2) add_val.simps(1)])
      apply (rule emits_IntToPtr [OF holds_newI])
      apply (rule Cons.IH [OF Ds' _ _ _ cp(2)])
      using holds_mono [OF Cons.prems(2) n1(2,1)] by - (assumption | rule hold)+
  qed
  then show ?case unfolding lay by (simp add: moves_append moves_shift k add.assoc)
qed


lemma extent_exit:
  fixes w :: i32
  assumes "j < unat w" "0 <s w" "0 < ext" "ext < 2 ^ 31"
  shows "(word_of_int (int (Suc j) * ext) :: i64) = of_nat (unat w) * word_of_int ext \<longleftrightarrow> Suc j = unat w"
proof -
  obtain k where k: "ext = int k" "0 < k" "k < 2 ^ 31"
    using assms(3,4) by (metis nat_int of_nat_0_less_iff of_nat_less_numeral_power_cancel_iff zero_less_imp_eq_int)
  have "unat w * k < 2 ^ 31 * 2 ^ 31"
    using sless_unat(3) [OF assms(2)] k by (intro mult_strict_mono) auto
  then have "unat w * k < 2 ^ 64" by simp
  from mult_eq_64 [OF _ k(2) this] assms(1) show ?thesis
    unfolding k(1) by (simp only: Suc_le_eq of_int_mult of_int_of_nat_eq)
qed

lemma moves_rep_Suc:
  "moves pack s c (rep (Suc j) ext D) = moves pack s c (rep j ext D) @
     moves pack (s + word_of_int (int j * ext)) (c + of_nat (j * length D)) D"
  by (simp add: rep_Suc moves_append moves_shift)

lemma copyable_moves_rep:
  assumes "copyable (moves pack s c (rep N ext D)) m" "j < N"
  shows "copyable (moves pack (s + word_of_int (int j * ext)) (c + of_nat (j * length D)) D)
    (cps (moves pack s c (rep j ext D)) m)"
proof -
  obtain R where R: "rep N ext D = rep (Suc j) ext D @ R" using rep_le [of "Suc j" N ext D] assms(2) by auto
  have "copyable (moves pack s c (rep (Suc j) ext D)) m"
    using copyable_moves_append(1) assms(1) unfolding R by blast
  then show ?thesis unfolding moves_rep_Suc by (rule copyable_append2)
qed

lemma emits_codegenBlocks:
  assumes bs: "list_all2 (block_moves pack G) bs Ds"
    and c: "holds n e cb (VPtr c)" and s: "holds n e sb (VPtr s)" and i: "holds n e i (VI32 w)"
    and w: "0 <s w" and ext: "0 < ext" "ext < 2 ^ 31"
    and cp: "copyable (moves pack s c (rep (unat w) ext (block_layout bs Ds))) m"
  shows "emits G F (codegenBlocks cb sb i ext bs pack) b n e m
    (\<lambda>_ _ _ _ m'. m' = cps (moves pack s c (rep (unat w) ext (block_layout bs Ds))) m)"
  unfolding codegenBlocks_def Let_def
  apply (rule emits_PtrToInt [OF s])
  apply (rule emits_ZExt [OF holds_old [OF i]])
  apply (rule emits_Mul [OF holds_newI holds_constNode(2)])
proof (rule emits_bind [OF emits_do_while [where N = "unat w" and ivals = "[VPtr c, VI64 0]" and
      I = "\<lambda>j vs m'. vs = [VPtr (c + of_nat (j * length (block_layout bs Ds))), VI64 (word_of_int (int j * ext))] \<and>
        m' = cps (moves pack s c (rep j ext (block_layout bs Ds))) m"]], goal_cases)
  case (5 j vs l rs n2 e2 m2)
  let ?D = "block_layout bs Ds"
  let ?c = "c + of_nat (j * length ?D)" and ?s = "s + word_of_int (int j * ext)"
  let ?x = "of_nat (unat w) * word_of_int ext :: i64"
  obtain r1 r2 where r: "rs = [r1, r2]" "holds n2 e2 r1 (VPtr ?c)" "holds n2 e2 r2 (VI64 (word_of_int (int j * ext)))"
    using 5 by (auto simp: list_all2_Cons2)
  have m2: "m2 = cps (moves pack s c (rep j ext ?D)) m" using 5 by simp
  have old: "holds n2 e2 (Reg n) (VI64 s)" "holds n2 e2 (Reg (Suc (Suc n))) (VI64 ?x)"
    using 5(4,3) by (auto intro: holds_mono [rotated] simp: hold)
  have cp2: "copyable (moves pack ?s ?c ?D) m2"
    using copyable_moves_rep [OF cp 5(1)] unfolding m2 .
  have m3: "cps (moves pack ?s ?c ?D) m2 = cps (moves pack s c (rep (Suc j) ext ?D)) m"
    unfolding m2 moves_rep_Suc by simp
  have ij: "word_of_int (int j * ext) + word_of_int ext = (word_of_int (int (Suc j) * ext) :: i64)"
    by (simp add: distrib_right)
  have exit: "word_of_int (int (Suc j) * ext) = ?x \<longleftrightarrow> Suc j = unat w"
    using extent_exit [OF 5(1) w ext] .
  show ?case unfolding r(1) nth_Cons_0 nth_Cons_Suc One_nat_def
    apply (rule emits_PtrToInt [OF r(2)])
    apply (rule emits_Add [OF holds_old [OF old(1)] holds_old [OF r(3)] add_val.simps(1)])
  proof (rule emits_bind [OF emits_unrolled_blocks [OF bs holds_newI _ _ cp2]], goal_cases)
    case (4 y c1 n1 e1 m1)
    have n1: "n2 \<le> n1" "agree n2 e2 e1" using 4(1,2) by (auto simp: agree_def)
    have r1: "holds n1 e1 r2 (VI64 (word_of_int (int j * ext)))" "holds n1 e1 (Reg (Suc (Suc n))) (VI64 ?x)"
      using r(3) old(2) n1 by (auto intro: holds_mono)
    show ?case
      apply ((rule emits_Add emits_ICmpEQ emits_GetInsertBlock hold r1)+)[1]
      apply (rule emits_return)
      unfolding ij using exit conjunct1 [OF 4(3)] conjunct2 [OF 4(3)] m3
      apply (simp add: algebra_simps del: of_nat_Suc of_int_mult)
      apply (intro conjI; (assumption | rule hold)+)
      done
  qed (use r(2) in \<open>auto intro!: hold gen_mono\<close>)
qed (use c s i w sless_unat(1) [OF w] in \<open>auto intro!: gen_mono emits_return hold gen_ok_unrolled_blocks blocks_gen_ok [OF bs]\<close>)


section \<open>The loop over the table of displacements\<close>

definition table_layout :: "int list \<Rightarrow> int list \<Rightarrow> int list" where
  "table_layout ds D = blocks_at (map (\<lambda>d. (d, D)) ds)"

lemma table_layout_Nil [simp]: "table_layout [] D = []"
  by (simp add: table_layout_def)

lemma length_table_layout [simp]: "length (table_layout ds D) = length ds * length D"
  by (induction ds) (auto simp: table_layout_def)

lemma table_layout_take_Suc:
  "j < length ds \<Longrightarrow> table_layout (take (Suc j) ds) D = table_layout (take j ds) D @ shift (ds ! j) D"
  by (simp add: table_layout_def take_Suc_conv_app_nth)

lemma directed_straight:
  assumes "straight_bytecode pack G (base pack) D bl" "holds n e sc (VPtr s)" "holds n e cm (VPtr c)" "0 < bl"
    "copyable (moves pack s c (D (nat bl))) m"
  shows "emits G F (if pack then base True sc (constNode bl) cm else base False cm (constNode bl) sc) b n e m
    (\<lambda>_ b' _ _ m'. b' = b \<and> m' = cps (moves pack s c (D (nat bl))) m)"
proof (cases pack)
  case True
  then show ?thesis
    using straight_bytecode.straight [OF assms(1,2,3,4), of m F b] assms(5) by (simp add: xfer_def)
next
  case False
  then show ?thesis
    using straight_bytecode.straight [OF assms(1,3,2,4), of m F b] assms(5) by (simp add: xfer_def)
qed

lemma copyable_moves_table:
  assumes "copyable (moves pack s c (table_layout ds D)) m" "j < length ds"
  shows "copyable (moves pack (s + word_of_int (ds ! j)) (c + of_nat (j * length D)) D)
      (cps (moves pack s c (table_layout (take j ds) D)) m)"
    and "moves pack s c (table_layout (take (Suc j) ds) D) = moves pack s c (table_layout (take j ds) D) @
      moves pack (s + word_of_int (ds ! j)) (c + of_nat (j * length D)) D"
proof -
  show eq: "moves pack s c (table_layout (take (Suc j) ds) D) = moves pack s c (table_layout (take j ds) D) @
      moves pack (s + word_of_int (ds ! j)) (c + of_nat (j * length D)) D"
    using assms(2) by (simp add: table_layout_take_Suc moves_append moves_shift min_def)
  have "table_layout ds D = table_layout (take (Suc j) ds) D @ table_layout (drop (Suc j) ds) D"
    by (simp add: table_layout_def flip: blocks_at_simps(3) map_append)
  then have "copyable (moves pack s c (table_layout (take (Suc j) ds) D)) m"
    using copyable_moves_append(1) assms(1) by metis
  then show "copyable (moves pack (s + word_of_int (ds ! j)) (c + of_nat (j * length D)) D)
      (cps (moves pack s c (table_layout (take j ds) D)) m)"
    unfolding eq by (rule copyable_append2)
qed

lemma emits_table_loop:
  assumes base: "straight_bytecode pack G (bt_codegen basetype pack) D bl" and bl: "0 < bl"
    and G: "g < length G" "G ! g = map word_of_int ds" and ds: "\<forall>d \<in> set ds. 0 \<le> d \<and> d < 2 ^ 32"
    and len: "bl * bt_extent basetype = int (length (D (nat bl)))" "0 < length ds" "length ds < 2 ^ 31"
    and s: "holds n e nc (VI64 s)" and c: "holds n e ct (VI64 c)"
    and cp: "copyable (moves pack s c (table_layout ds (D (nat bl)))) m"
  shows "emits G F (do_while [constNode_long 0, ct] (\<lambda>innerloop phis. do {
            let i = phis ! 0; let contig2 = phis ! 1;
            (nexti, nextcontig2) \<leftarrow> idxb_moves IDXB_LOOP_UNROLL pack (GlobalRef g) nc basetype bl i contig2;
            innertest \<leftarrow> CreateICmpEQ nexti (constNode_long (int (length ds)));
            State_Monad.return (innerloop, [nexti, nextcontig2], innertest) })) b n e m
    (\<lambda>ends _ n' e' m'. holds n' e' (ends ! 1) (VI64 (c + of_nat (length ds * length (D (nat bl))))) \<and>
       m' = cps (moves pack s c (table_layout ds (D (nat bl)))) m)"
  unfolding Let_def
proof (rule emits_do_while [where N = "length ds" and ivals = "[VI64 0, VI64 c]" and
      I = "\<lambda>j vs m'. vs = [VI64 (of_nat j), VI64 (c + of_nat (j * length (D (nat bl))))] \<and>
        m' = cps (moves pack s c (table_layout (take j ds) (D (nat bl)))) m"], goal_cases)
  case (5 j vs l rs n2 e2 m2)
  let ?D = "D (nat bl)"
  let ?c = "c + of_nat (j * length ?D)" and ?s = "s + word_of_int (ds ! j)"
  obtain r1 r2 where r: "rs = [r1, r2]" "holds n2 e2 r1 (VI64 (of_nat j))" "holds n2 e2 r2 (VI64 ?c)"
    using 5 by (auto simp: list_all2_Cons2)
  have m2: "m2 = cps (moves pack s c (table_layout (take j ds) ?D)) m" using 5 by simp
  have nc2: "holds n2 e2 nc (VI64 s)" using s 5(4,3) by (rule holds_mono)
  have cp2: "copyable (moves pack ?s ?c ?D) m2"
    using copyable_moves_table(1) [OF cp 5(1)] unfolding m2 .
  have m3: "cps (moves pack ?s ?c ?D) m2 = cps (moves pack s c (table_layout (take (Suc j) ds) ?D)) m"
    unfolding m2 copyable_moves_table(2) [OF cp 5(1)] by simp
  have uj: "unat (0 + of_nat j :: i64) = j" using 5(1) len(3) by (simp add: unat64)
  have dj: "G ! g ! unat (0 + of_nat j :: i64) = word_of_int (ds ! j)" "unat (0 + of_nat j :: i64) < length (G ! g)"
    using 5(1) G unfolding uj by simp_all
  have "ds ! j \<in> set ds" using 5(1) by simp
  then have d: "0 \<le> ds ! j" "ds ! j < 2 ^ 32" using ds by auto
  then have z: "(of_nat (unat (word_of_int (ds ! j) :: i32)) :: i64) = word_of_int (ds ! j)"
    by (simp add: unat_eq_nat_uint uint_word_of_int)
  have exit: "of_nat j + 1 = (word_of_int (int (length ds)) :: i64) \<longleftrightarrow> Suc j = length ds"
    using of_nat_eq_64 [of "Suc j" "length ds"] 5(1) len(3) by (simp add: add.commute)
  show ?case unfolding r(1) nth_Cons_0 nth_Cons_Suc One_nat_def IDXB_LOOP_UNROLL_def idxb_moves.simps State_Monad.bind_assoc
    apply (rule emits_GEP [OF holds_constI(3) r(2)])
    apply (rule emits_LoadI32 [OF holds_newI G(1) dj(2)])
    apply (rule emits_ZExt [OF holds_newI])
    apply (rule emits_Add [OF _ holds_newI add_val.simps(1)])
    apply (rule nc2 holds_old)+
    apply (rule emits_IntToPtr [where w = ?c])
    apply (rule r(3) holds_old)+
    apply (rule emits_IntToPtr [OF holds_old [OF holds_newI]])
    unfolding dj(1) z
  proof (rule emits_bind [OF directed_straight [where base = "bt_codegen basetype" and pack = pack and D = D, OF base holds_newI _ bl cp2]], goal_cases)
    case (3 y c1 n1 e1 m1)
    have n1: "n2 \<le> n1" "agree n2 e2 e1" using 3(1,2) by (auto simp: agree_def)
    have r1: "holds n1 e1 r1 (VI64 (of_nat j))" "holds n1 e1 r2 (VI64 ?c)"
      using r(2,3) n1 by (auto intro: holds_mono)
    show ?case unfolding State_Monad.bind_left_identity case_prod_conv
      apply ((rule emits_Add emits_ICmpEQ hold r1)+)[1]
      apply (rule emits_return)
      using exit 3(3) m3 n1
      apply (simp add: len(1) algebra_simps)
      apply (intro conjI; (assumption | rule hold)+)
      done
  qed (use r in \<open>auto intro!: hold gen_mono\<close>)
qed (use c s len straight_bytecode.axioms(1) [OF base, THEN bytecode.code_ok]
  in \<open>auto simp: list_all2_Cons2 intro!: gen_mono gen_ok_idxb_moves emits_return hold\<close>)


lemma emits_codegenIndexedBlock_table:
  assumes base: "straight_bytecode pack G (bt_codegen basetype pack) D bl" and bl: "0 < bl"
    and G: "g < length G" "G ! g = map word_of_int ds" and ds: "\<forall>d \<in> set ds. 0 \<le> d \<and> d < 2 ^ 32"
    and len: "bl * bt_extent basetype = int (length (D (nat bl)))" "IDXB_LOOP_TRESHOLD < int (length ds)" "length ds < 2 ^ 31"
    and sz: "sz = int (length ds * length (D (nat bl)))" "0 < sz" "sz < 2 ^ 31"
    and c: "holds n e cb (VPtr c)" and s: "holds n e sb (VPtr s)" and i: "holds n e i (VI32 w)" and w: "0 <s w"
    and cp: "copyable (moves pack s c (rep (unat w) ext (table_layout ds (D (nat bl))))) m"
  shows "emits G F (codegenIndexedBlock cb sb i ext sz (int (length ds)) bl basetype displs (Some g) pack) b n e m
    (\<lambda>_ _ _ _ m'. m' = cps (moves pack s c (rep (unat w) ext (table_layout ds (D (nat bl))))) m)"
  unfolding codegenIndexedBlock_def Let_def if_P [OF len(2)] option.sel
  apply (rule emits_PtrToInt [OF s])
  apply (rule emits_PtrToInt [OF holds_old [OF c]])
  apply (rule emits_ZExt [OF holds_old [OF holds_old [OF i]]])
  apply (rule emits_Mul [OF holds_newI holds_constNode(2)])
  apply (rule emits_Add [OF holds_old [OF holds_old [OF holds_newI]] holds_newI add_val.simps(1)])
proof (rule emits_bind [OF emits_do_while [where N = "unat w" and ivals = "[VI64 c, VI64 s]" and
      I = "\<lambda>j vs m'. vs = [VI64 (c + of_nat (j * length (table_layout ds (D (nat bl))))), VI64 (s + word_of_int (int j * ext))] \<and>
        m' = cps (moves pack s c (rep j ext (table_layout ds (D (nat bl))))) m"]], goal_cases)
  case (5 j vs l rs n2 e2 m2)
  let ?D = "table_layout ds (D (nat bl))"
  let ?c = "c + of_nat (j * length ?D)" and ?s = "s + word_of_int (int j * ext)"
  let ?x = "c + of_nat (unat w) * word_of_int sz :: i64"
  obtain r1 r2 where r: "rs = [r1, r2]" "holds n2 e2 r1 (VI64 ?c)" "holds n2 e2 r2 (VI64 ?s)"
    using 5 by (auto simp: list_all2_Cons2)
  have m2: "m2 = cps (moves pack s c (rep j ext ?D)) m" using 5 by simp
  have old: "holds n2 e2 (Reg (Suc (Suc (Suc (Suc n))))) (VI64 ?x)"
    using 5(4,3) by (rule holds_mono [OF holds_newI])
  have cp2: "copyable (moves pack ?s ?c ?D) m2"
    using copyable_moves_rep [OF cp 5(1)] unfolding m2 .
  have m3: "cps (moves pack ?s ?c ?D) m2 = cps (moves pack s c (rep (Suc j) ext ?D)) m"
    unfolding m2 moves_rep_Suc by simp
  have next_c: "?c + of_nat (length ds * length (D (nat bl))) = c + word_of_int (int (Suc j) * sz)"
    by (simp add: sz(1) algebra_simps)
  have next_c': "c + of_nat (Suc j * length ?D) = c + word_of_int (int (Suc j) * sz)"
    by (simp add: sz(1) algebra_simps)
  have next_s: "?s + word_of_int ext = s + word_of_int (int (Suc j) * ext)"
    by (simp add: algebra_simps)
  have exit: "c + word_of_int (int (Suc j) * sz) = ?x \<longleftrightarrow> Suc j = unat w"
    using extent_exit [OF 5(1) w sz(2,3)] by simp
  have L: "0 < length ds" using len(2) by (auto simp: IDXB_LOOP_TRESHOLD_def)
  show ?case unfolding r(1) nth_Cons_0 nth_Cons_Suc One_nat_def
  proof (rule emits_bind [OF emits_table_loop [OF base bl G ds len(1) L len(3) r(3,2) cp2,
          unfolded Let_def nth_Cons_0 nth_Cons_Suc One_nat_def]], goal_cases)
    case (2 y c1 n1 e1 m1)
    have n1: "n2 \<le> n1" "agree n2 e2 e1" using 2(1,2) by (auto simp: agree_def)
    have r1: "holds n1 e1 r2 (VI64 ?s)" "holds n1 e1 (Reg (Suc (Suc (Suc (Suc n))))) (VI64 ?x)"
      "holds n1 e1 (y ! Suc 0) (VI64 (c + word_of_int (int (Suc j) * sz)))"
      using holds_mono [OF r(3) n1(2,1)] holds_mono [OF old n1(2,1)] conjunct1 [OF 2(3)] unfolding next_c .
    show ?case
      apply ((rule emits_Add emits_ICmpEQ emits_GetInsertBlock hold r1)+)[1]
      apply (rule emits_return)
      unfolding case_prod_conv next_s
      apply (intro conjI refl exI [of _ "[VI64 (c + of_nat (Suc j * length ?D)), VI64 (s + word_of_int (int (Suc j) * ext))]"])
      using exit conjunct2 [OF 2(3)] m3 holds_old [OF holds_old [OF r1(3)]]
      by (simp_all only: next_c' length_Cons list.size list_all2_Cons list_all2_Nil holds_old holds_newI simp_thms)
  qed (intro gen_mono)
qed (use c s i w sless_unat(1) [OF w] straight_bytecode.axioms(1) [OF base, THEN bytecode.code_ok]
  in \<open>auto intro!: gen_mono gen_ok_idxb_moves emits_return hold\<close>)

end
