(* ===== verification/Compile.thy ===== *)
theory Compile
  imports Typemap Codegen_Primitive Codegen_Indexed
begin

text \<open>
  The methods of ddt\_jit.cpp that produce code: \<open>compress\<close>, \<open>globalCodegen\<close>,
  \<open>packCodegen\<close> and \<open>unpackCodegen\<close> of each class, \<open>Datatype::compile\<close> and the
  functions DDT\_Commit, DDT\_Pack, DDT\_Unpack.  A failed \<open>assert\<close> is None.
\<close>

section \<open>Compression\<close>

definition check :: "ddt \<Rightarrow> ddt \<Rightarrow> ddt option" where
  "check this datatype =
     (if getSize datatype = getSize this \<and> getExtent datatype = getExtent this then Some datatype else None)"

definition Primitive_compress :: "PrimitiveType \<Rightarrow> ddt option" where
  "Primitive_compress type = Some (PrimitiveDatatype type)"

definition Contiguous_compress :: "ddt \<Rightarrow> int \<Rightarrow> ddt \<Rightarrow> ddt option" where
  "Contiguous_compress this count cbasetype = check this
     (case cbasetype of
        Contiguous _ ctg_count ctg_basetype \<Rightarrow>
          if getExtent cbasetype = getSize cbasetype then ContiguousDatatype (count * ctg_count) ctg_basetype
          else ContiguousDatatype count cbasetype
      | _ \<Rightarrow> ContiguousDatatype count cbasetype)"

definition Vector_compress :: "ddt \<Rightarrow> int \<Rightarrow> int \<Rightarrow> int \<Rightarrow> ddt \<Rightarrow> ddt option" where
  "Vector_compress this count blocklen stride cbasetype =
     (let (blocklen', stride', basetype') =
        (case cbasetype of
           Contiguous _ ctg_count ctg_basetype \<Rightarrow>
             if getExtent cbasetype = getSize cbasetype
             then (blocklen * ctg_count, stride * ctg_count, ctg_basetype)
             else (blocklen, stride, cbasetype)
         | _ \<Rightarrow> (blocklen, stride, cbasetype))
      in check this
        (if stride' = blocklen' then ContiguousDatatype (count * blocklen') (clone basetype')
         else VectorDatatype count blocklen' stride' basetype'))"

definition HVector_compress :: "ddt \<Rightarrow> int \<Rightarrow> int \<Rightarrow> int \<Rightarrow> ddt \<Rightarrow> ddt option" where
  "HVector_compress this count blocklen stride cbasetype =
     (let (blocklen', basetype') =
        (case cbasetype of
           Contiguous _ ctg_count ctg_basetype \<Rightarrow>
             if getExtent cbasetype = getSize cbasetype then (blocklen * ctg_count, ctg_basetype)
             else (blocklen, cbasetype)
         | _ \<Rightarrow> (blocklen, cbasetype))
      in check this
        (if stride = blocklen' * getExtent (clone basetype') then ContiguousDatatype (count * blocklen') (clone basetype')
         else HVectorDatatype count blocklen' stride basetype'))"

definition IndexedBlock_compress :: "int \<Rightarrow> int \<Rightarrow> int list \<Rightarrow> ddt \<Rightarrow> ddt option" where
  "IndexedBlock_compress count blocklen displs cbasetype = Some (IndexedBlockDatatype count blocklen displs cbasetype)"

definition HIndexed_compress :: "int \<Rightarrow> int list \<Rightarrow> int list \<Rightarrow> ddt \<Rightarrow> ddt option" where
  "HIndexed_compress count blocklens displs cbasetype = Some (HIndexedDatatype count blocklens displs cbasetype)"

text \<open>The compressed basetypes of a struct are computed and then not used.\<close>

definition Struct_compress :: "int \<Rightarrow> int list \<Rightarrow> int list \<Rightarrow> ddt list \<Rightarrow> ddt option list \<Rightarrow> ddt option" where
  "Struct_compress count blocklens displs basetypes cbasetypes =
     (case those cbasetypes of None \<Rightarrow> None | Some _ \<Rightarrow> Some (StructDatatype count blocklens displs basetypes))"

definition Resized_compress :: "dims \<Rightarrow> ddt \<Rightarrow> ddt option" where
  "Resized_compress d cbasetype = Some (ResizedDatatype cbasetype (lower_bound d) (upper_bound d - lower_bound d))"

fun compress :: "ddt \<Rightarrow> ddt option" where
  "compress (Primitive d type) = Primitive_compress type"
| "compress (Contiguous d count b) = Option.bind (compress b) (Contiguous_compress (Contiguous d count b) count)"
| "compress (Vector d count blocklen stride b) =
     Option.bind (compress b) (Vector_compress (Vector d count blocklen stride b) count blocklen stride)"
| "compress (HVector d count blocklen stride b) =
     Option.bind (compress b) (HVector_compress (HVector d count blocklen stride b) count blocklen stride)"
| "compress (IndexedBlock d count blocklen displs b _) =
     Option.bind (compress b) (IndexedBlock_compress count blocklen displs)"
| "compress (HIndexed d count blocklens displs b) =
     Option.bind (compress b) (HIndexed_compress count blocklens displs)"
| "compress (Struct d count blocklens displs bs) = Struct_compress count blocklens displs bs (map compress bs)"
| "compress (Resized d b) = Option.bind (compress b) (Resized_compress d)"

section \<open>Tables of displacements\<close>

definition IndexedBlock_globalCodegen :: "int \<Rightarrow> int list \<Rightarrow> ddt \<Rightarrow> globals \<Rightarrow> nat option \<times> globals" where
  "IndexedBlock_globalCodegen count displs basetype llmod =
     (if count > IDXB_LOOP_TRESHOLD
      then (Some (length llmod),
            llmod @ [map (\<lambda>i. word_of_int (displs ! i * getExtent basetype)) [0..<nat count]])
      else (None, llmod))"

fun globalCodegen :: "ddt \<Rightarrow> globals \<Rightarrow> ddt \<times> globals"
  and globalCodegens :: "ddt list \<Rightarrow> globals \<Rightarrow> ddt list \<times> globals" where
  "globalCodegen (Primitive d type) G = (Primitive d type, G)"
| "globalCodegen (Contiguous d count b) G = apfst (Contiguous d count) (globalCodegen b G)"
| "globalCodegen (Vector d count blocklen stride b) G = apfst (Vector d count blocklen stride) (globalCodegen b G)"
| "globalCodegen (HVector d count blocklen stride b) G = apfst (HVector d count blocklen stride) (globalCodegen b G)"
| "globalCodegen (IndexedBlock d count blocklen displs b arr) G =
     (let (arr', G') = IndexedBlock_globalCodegen count displs b G;
          (b', G'') = globalCodegen b G'
      in (IndexedBlock d count blocklen displs b' (if arr' = None then arr else arr'), G''))"
| "globalCodegen (HIndexed d count blocklens displs b) G = apfst (HIndexed d count blocklens displs) (globalCodegen b G)"
| "globalCodegen (Struct d count blocklens displs bs) G = apfst (Struct d count blocklens displs) (globalCodegens bs G)"
| "globalCodegen (Resized d b) G = apfst (Resized d) (globalCodegen b G)"
| "globalCodegens [] G = ([], G)"
| "globalCodegens (b # bs) G =
     (let (b', G') = globalCodegen b G; (bs', G'') = globalCodegens bs G' in (b' # bs', G''))"

section \<open>Code of the classes\<close>

type_synonym emitter = "operand \<Rightarrow> operand \<Rightarrow> operand \<Rightarrow> unit gen"

definition methods :: "emitter \<Rightarrow> emitter \<Rightarrow> codegens" where
  "methods p u = (\<lambda>pack. if pack then p else u)"

definition info :: "ddt \<Rightarrow> codegens \<Rightarrow> basetype_info" where
  "info b c = \<lparr>bt_codegen = c, bt_size = getSize b, bt_extent = getExtent b\<rparr>"

definition Primitive_packCodegen :: "ddt \<Rightarrow> PrimitiveType \<Rightarrow> emitter" where
  "Primitive_packCodegen this type inbuf incount outbuf = codegenPrimitive inbuf incount outbuf (getSize this) type"

definition Primitive_unpackCodegen :: "ddt \<Rightarrow> PrimitiveType \<Rightarrow> emitter" where
  "Primitive_unpackCodegen this type inbuf incount outbuf = codegenPrimitive inbuf incount outbuf (getSize this) type"

definition Contiguous_packCodegen :: "ddt \<Rightarrow> int \<Rightarrow> codegens \<Rightarrow> emitter" where
  "Contiguous_packCodegen this count basetype inbuf incount outbuf =
     codegenContiguous inbuf incount outbuf basetype (getExtent this) (getSize this) count True"

definition Contiguous_unpackCodegen :: "ddt \<Rightarrow> int \<Rightarrow> codegens \<Rightarrow> emitter" where
  "Contiguous_unpackCodegen this count basetype inbuf incount outbuf =
     codegenContiguous inbuf incount outbuf basetype (getSize this) (getExtent this) count False"

definition Vector_packCodegen :: "ddt \<Rightarrow> int \<Rightarrow> int \<Rightarrow> int \<Rightarrow> ddt \<Rightarrow> codegens \<Rightarrow> emitter" where
  "Vector_packCodegen this count blocklen stride b basetype inbuf incount outbuf =
     codegenVector inbuf incount outbuf basetype count blocklen
       (getExtent b * stride) (getSize b * blocklen) (getExtent this) (getSize this) True"

definition Vector_unpackCodegen :: "ddt \<Rightarrow> int \<Rightarrow> int \<Rightarrow> int \<Rightarrow> ddt \<Rightarrow> codegens \<Rightarrow> emitter" where
  "Vector_unpackCodegen this count blocklen stride b basetype inbuf incount outbuf =
     codegenVector inbuf incount outbuf basetype count blocklen
       (getSize b * blocklen) (getExtent b * stride) (getSize this) (getExtent this) False"

definition HVector_packCodegen :: "ddt \<Rightarrow> int \<Rightarrow> int \<Rightarrow> int \<Rightarrow> ddt \<Rightarrow> codegens \<Rightarrow> emitter" where
  "HVector_packCodegen this count blocklen stride b basetype inbuf incount outbuf =
     codegenVector inbuf incount outbuf basetype count blocklen
       stride (getSize b * blocklen) (getExtent this) (getSize this) True"

definition HVector_unpackCodegen :: "ddt \<Rightarrow> int \<Rightarrow> int \<Rightarrow> int \<Rightarrow> ddt \<Rightarrow> codegens \<Rightarrow> emitter" where
  "HVector_unpackCodegen this count blocklen stride b basetype inbuf incount outbuf =
     codegenVector inbuf incount outbuf basetype count blocklen
       (getSize b * blocklen) stride (getSize this) (getExtent this) False"

definition IndexedBlock_packCodegen ::
  "ddt \<Rightarrow> int \<Rightarrow> int \<Rightarrow> int list \<Rightarrow> nat option \<Rightarrow> basetype_info \<Rightarrow> emitter" where
  "IndexedBlock_packCodegen this count blocklen displs indices_arr basetype inbuf incount outbuf =
     codegenIndexedBlock outbuf inbuf incount (getExtent this) (getSize this) count blocklen basetype
       displs indices_arr True"

definition IndexedBlock_unpackCodegen ::
  "ddt \<Rightarrow> int \<Rightarrow> int \<Rightarrow> int list \<Rightarrow> nat option \<Rightarrow> basetype_info \<Rightarrow> emitter" where
  "IndexedBlock_unpackCodegen this count blocklen displs indices_arr basetype inbuf incount outbuf =
     codegenIndexedBlock inbuf outbuf incount (getExtent this) (getSize this) count blocklen basetype
       displs indices_arr False"

definition HIndexed_packCodegen :: "ddt \<Rightarrow> int \<Rightarrow> int list \<Rightarrow> int list \<Rightarrow> basetype_info \<Rightarrow> emitter" where
  "HIndexed_packCodegen this count blocklens displs basetype inbuf incount outbuf =
     codegenHindexed outbuf inbuf incount (getExtent this) count basetype blocklens displs True"

definition HIndexed_unpackCodegen :: "ddt \<Rightarrow> int \<Rightarrow> int list \<Rightarrow> int list \<Rightarrow> basetype_info \<Rightarrow> emitter" where
  "HIndexed_unpackCodegen this count blocklens displs basetype inbuf incount outbuf =
     codegenHindexed inbuf outbuf incount (getExtent this) count basetype blocklens displs False"

definition Struct_packCodegen :: "ddt \<Rightarrow> int \<Rightarrow> int list \<Rightarrow> int list \<Rightarrow> basetype_info list \<Rightarrow> emitter" where
  "Struct_packCodegen this count blocklens displs basetypes inbuf incount outbuf =
     codegenStruct outbuf inbuf incount (getExtent this) count blocklens displs basetypes True"

definition Struct_unpackCodegen :: "ddt \<Rightarrow> int \<Rightarrow> int list \<Rightarrow> int list \<Rightarrow> basetype_info list \<Rightarrow> emitter" where
  "Struct_unpackCodegen this count blocklens displs basetypes inbuf incount outbuf =
     codegenStruct inbuf outbuf incount (getExtent this) count blocklens displs basetypes False"

text \<open>
  The code of a resized type depends on the class of its basetype, and calls the
  methods \<open>sub\<close> of the basetype of that; for four classes there is none.
\<close>

definition Resized_packCodegen :: "ddt \<Rightarrow> ddt \<Rightarrow> codegens \<Rightarrow> emitter" where
  "Resized_packCodegen this basetype sub inbuf incount outbuf =
     (case basetype of
        Primitive _ _ \<Rightarrow>
          codegenPrimitiveResized inbuf incount outbuf (getSize this) (getExtent this) BYTE
      | Contiguous _ count _ \<Rightarrow>
          codegenContiguous inbuf incount outbuf sub (getExtent this) (getSize this) count True
      | Vector _ count blocklen stride vec_basetype \<Rightarrow>
          codegenVector inbuf incount outbuf sub count blocklen
            (getExtent vec_basetype * stride) (getSize vec_basetype * blocklen)
            (getExtent this) (getSize this) True
      | HVector _ count blocklen stride vec_basetype \<Rightarrow>
          codegenVector inbuf incount outbuf sub count blocklen
            stride (getSize vec_basetype * blocklen) (getExtent this) (getSize this) True
      | _ \<Rightarrow> State_Monad.return ())"

definition Resized_unpackCodegen :: "ddt \<Rightarrow> ddt \<Rightarrow> codegens \<Rightarrow> emitter" where
  "Resized_unpackCodegen this basetype sub inbuf incount outbuf =
     (case basetype of
        Primitive _ _ \<Rightarrow>
          codegenPrimitiveResized inbuf incount outbuf (getSize this) (getExtent this) BYTE
      | Contiguous _ count _ \<Rightarrow>
          codegenContiguous inbuf incount outbuf sub (getExtent this) (getSize this) count True
      | Vector _ count blocklen stride vec_basetype \<Rightarrow>
          codegenVector inbuf incount outbuf sub count blocklen
            (getSize vec_basetype * blocklen) (getExtent vec_basetype * stride)
            (getSize this) (getExtent this) False
      | HVector _ count blocklen stride vec_basetype \<Rightarrow>
          codegenVector inbuf incount outbuf sub count blocklen
            (getSize vec_basetype * blocklen) stride (getSize this) (getExtent this) False
      | _ \<Rightarrow> State_Monad.return ())"

definition no_codegen :: codegens where
  "no_codegen = (\<lambda>_ _ _ _. State_Monad.return ())"

fun packCodegen :: "ddt \<Rightarrow> emitter" and unpackCodegen :: "ddt \<Rightarrow> emitter" where
  "packCodegen (Primitive d type) = Primitive_packCodegen (Primitive d type) type"
| "packCodegen (Contiguous d count b) =
     Contiguous_packCodegen (Contiguous d count b) count (methods (packCodegen b) (unpackCodegen b))"
| "packCodegen (Vector d count blocklen stride b) =
     Vector_packCodegen (Vector d count blocklen stride b) count blocklen stride b
       (methods (packCodegen b) (unpackCodegen b))"
| "packCodegen (HVector d count blocklen stride b) =
     HVector_packCodegen (HVector d count blocklen stride b) count blocklen stride b
       (methods (packCodegen b) (unpackCodegen b))"
| "packCodegen (IndexedBlock d count blocklen displs b arr) =
     IndexedBlock_packCodegen (IndexedBlock d count blocklen displs b arr) count blocklen displs arr
       (info b (methods (packCodegen b) (unpackCodegen b)))"
| "packCodegen (HIndexed d count blocklens displs b) =
     HIndexed_packCodegen (HIndexed d count blocklens displs b) count blocklens displs
       (info b (methods (packCodegen b) (unpackCodegen b)))"
| "packCodegen (Struct d count blocklens displs bs) =
     Struct_packCodegen (Struct d count blocklens displs bs) count blocklens displs
       (map (\<lambda>b. info b (methods (packCodegen b) (unpackCodegen b))) bs)"
| "packCodegen (Resized d b) = Resized_packCodegen (Resized d b) b
     (case b of
        Contiguous _ _ s \<Rightarrow> methods (packCodegen s) (unpackCodegen s)
      | Vector _ _ _ _ s \<Rightarrow> methods (packCodegen s) (unpackCodegen s)
      | HVector _ _ _ _ s \<Rightarrow> methods (packCodegen s) (unpackCodegen s)
      | _ \<Rightarrow> no_codegen)"
| "unpackCodegen (Primitive d type) = Primitive_unpackCodegen (Primitive d type) type"
| "unpackCodegen (Contiguous d count b) =
     Contiguous_unpackCodegen (Contiguous d count b) count (methods (packCodegen b) (unpackCodegen b))"
| "unpackCodegen (Vector d count blocklen stride b) =
     Vector_unpackCodegen (Vector d count blocklen stride b) count blocklen stride b
       (methods (packCodegen b) (unpackCodegen b))"
| "unpackCodegen (HVector d count blocklen stride b) =
     HVector_unpackCodegen (HVector d count blocklen stride b) count blocklen stride b
       (methods (packCodegen b) (unpackCodegen b))"
| "unpackCodegen (IndexedBlock d count blocklen displs b arr) =
     IndexedBlock_unpackCodegen (IndexedBlock d count blocklen displs b arr) count blocklen displs arr
       (info b (methods (packCodegen b) (unpackCodegen b)))"
| "unpackCodegen (HIndexed d count blocklens displs b) =
     HIndexed_unpackCodegen (HIndexed d count blocklens displs b) count blocklens displs
       (info b (methods (packCodegen b) (unpackCodegen b)))"
| "unpackCodegen (Struct d count blocklens displs bs) =
     Struct_unpackCodegen (Struct d count blocklens displs bs) count blocklens displs
       (map (\<lambda>b. info b (methods (packCodegen b) (unpackCodegen b))) bs)"
| "unpackCodegen (Resized d b) = Resized_unpackCodegen (Resized d b) b
     (case b of
        Contiguous _ _ s \<Rightarrow> methods (packCodegen s) (unpackCodegen s)
      | Vector _ _ _ _ s \<Rightarrow> methods (packCodegen s) (unpackCodegen s)
      | HVector _ _ _ _ s \<Rightarrow> methods (packCodegen s) (unpackCodegen s)
      | _ \<Rightarrow> no_codegen)"

section \<open>Datatype::compile and the DDT functions\<close>

text \<open>A function: the entry block, its three arguments in registers 0 to 2.\<close>

definition createFunctionHeader :: builder where
  "createFunctionHeader = \<lparr>blocks = [empty_block], cur = 0, nextreg = 3\<rparr>"

definition build_function :: "emitter \<Rightarrow> func" where
  "build_function code = blocks (snd (run_state
     (do { code (Reg 0) (Reg 1) (Reg 2); CreateRetVoid }) createFunctionHeader))"

record compiled =
  fpack :: func
  funpack :: func
  module_globals :: globals

definition compile :: "ddt \<Rightarrow> globals \<Rightarrow> compiled option" where
  "compile this llmod =
     map_option (\<lambda>ddt. let (ddt, llmod) = globalCodegen ddt llmod
       in \<lparr>fpack = build_function (packCodegen ddt), funpack = build_function (unpackCodegen ddt),
           module_globals = llmod\<rparr>) (compress this)"

definition DDT_Commit :: "ddt \<Rightarrow> globals \<Rightarrow> compiled option" where
  "DDT_Commit ddt llmod = compile ddt llmod"

definition DDT_Pack :: "nat \<Rightarrow> i64 \<Rightarrow> i64 \<Rightarrow> compiled \<Rightarrow> i32 \<Rightarrow> mem \<Rightarrow> mem option" where
  "DDT_Pack k inbuf outbuf ddt count m = call (module_globals ddt) (fpack ddt) k inbuf count outbuf m"

definition DDT_Unpack :: "nat \<Rightarrow> i64 \<Rightarrow> i64 \<Rightarrow> compiled \<Rightarrow> i32 \<Rightarrow> mem \<Rightarrow> mem option" where
  "DDT_Unpack k inbuf outbuf ddt count m = call (module_globals ddt) (funpack ddt) k inbuf count outbuf m"

end
