(* ===== verification/Compile_Correct.thy ===== *)
theory Compile_Correct
  imports Compile
begin

text \<open>
  The code generated for a datatype moves the bytes of its type map: by induction
  over the datatype, each class through the interface \<open>bytecode\<close> of its basetype.
\<close>

section \<open>The datatypes the generators handle\<close>

text \<open>\<open>globalCodegen\<close> only fills in the tables: \<open>erase\<close> forgets them.\<close>

fun erase :: "ddt \<Rightarrow> ddt" where
  "erase (Primitive d type) = Primitive d type"
| "erase (Contiguous d count b) = Contiguous d count (erase b)"
| "erase (Vector d count blocklen stride b) = Vector d count blocklen stride (erase b)"
| "erase (HVector d count blocklen stride b) = HVector d count blocklen stride (erase b)"
| "erase (IndexedBlock d count blocklen displs b _) = IndexedBlock d count blocklen displs (erase b) None"
| "erase (HIndexed d count blocklens displs b) = HIndexed d count blocklens displs (erase b)"
| "erase (Struct d count blocklens displs bs) = Struct d count blocklens displs (map erase bs)"
| "erase (Resized d b) = Resized d (erase b)"

lemma dims_erase [simp]: "dims_of (erase t) = dims_of t"
  by (cases t) auto

lemma get_erase [simp]: "getExtent (erase t) = getExtent t" "getSize (erase t) = getSize t"
  "getLowerBound (erase t) = getLowerBound t" "getUpperBound (erase t) = getUpperBound t"
  by (simp_all add: getExtent_def getSize_def getLowerBound_def getUpperBound_def)

lemma mpi_erase [simp]: "mpi (erase t) = mpi t"
proof (induction t)
  case (Struct d count blocklens displs bs)
  then have "map mpi (map erase bs) = map mpi bs" by simp
  then show ?case by (simp only: erase.simps mpi.simps)
qed simp_all

lemma regular_erase [simp]: "regular (erase t) = regular t"
proof (induction t)
  case (Struct d count blocklens displs bs)
  have z: "zip blocklens (map erase bs) = map (\<lambda>(l, b). (l, erase b)) (zip blocklens bs)"
    by (simp add: zip_map2)
  have "list_all regular (map erase bs) = list_all regular bs"
    "list_all (\<lambda>b. getLowerBound b = 0) (map erase bs) = list_all (\<lambda>b. getLowerBound b = 0) bs"
    using Struct by (auto simp: list_all_iff)
  moreover have "list_all2 (\<lambda>x (l, b). fits_int x \<and> fits_int (x + l * getExtent b)) displs (zip blocklens (map erase bs)) =
      list_all2 (\<lambda>x (l, b). fits_int x \<and> fits_int (x + l * getExtent b)) displs (zip blocklens bs)"
    unfolding z list_all2_map2 by (simp add: case_prod_unfold)
  moreover have "map2 (\<lambda>x (l, b). (x, x + l * getExtent b)) displs (zip blocklens (map erase bs)) =
      map2 (\<lambda>x (l, b). (x, x + l * getExtent b)) displs (zip blocklens bs)"
    unfolding z zip_map2 map_map by (intro map_cong) auto
  ultimately show ?case by (simp only: erase.simps regular.simps)
qed (simp_all add: Let_def)

lemma sound_erase [simp]: "sound (erase t) = sound t"
  by (simp add: sound_def dims_exact_def)

text \<open>
  The size of every datatype in the tree is an int, and for indexed types and structs the
  extent too.  The extents of the others are not bounded: VectorDatatype 2 1 600000000 of an
  INTEGER fits, although the int arithmetic of its constructor overflows.  That the fields are
  those the code stores is therefore a condition of its own.
\<close>

fun fits :: "ddt \<Rightarrow> bool" where
  "fits (Primitive d type) = True"
| "fits (Contiguous d count b) = (dsize d < 2 ^ 31 \<and> fits b)"
| "fits (Vector d count blocklen stride b) = (dsize d < 2 ^ 31 \<and> fits b)"
| "fits (HVector d count blocklen stride b) = (dsize d < 2 ^ 31 \<and> fits b)"
| "fits (IndexedBlock d count blocklen displs b _) =
     (dsize d < 2 ^ 31 \<and> upper_bound d - lower_bound d < 2 ^ 31 \<and> fits b)"
| "fits (HIndexed d count blocklens displs b) =
     (dsize d < 2 ^ 31 \<and> upper_bound d - lower_bound d < 2 ^ 31 \<and> fits b)"
| "fits (Struct d count blocklens displs bs) =
     (dsize d < 2 ^ 31 \<and> upper_bound d - lower_bound d < 2 ^ 31 \<and> list_all fits bs)"
| "fits (Resized d b) = (dsize d < 2 ^ 31 \<and> fits b)"

text \<open>
  The shapes whose code is right in a direction: blocks of an indexed block type
  are placed by the size of the basetype when there are few, and must be runs of a
  primitive when there are many; a resized type has code for four basetypes, and
  for two of them, or for a vector that compression turns into one of them, the
  code that packs is emitted for unpacking as well.
\<close>

fun handled :: "bool \<Rightarrow> ddt \<Rightarrow> bool" and resizable :: "bool \<Rightarrow> ddt \<Rightarrow> bool" where
  "handled pack (Primitive d type) = True"
| "handled pack (Contiguous d count b) = handled pack b"
| "handled pack (Vector d count blocklen stride b) = handled pack b"
| "handled pack (HVector d count blocklen stride b) = handled pack b"
| "handled pack (IndexedBlock d count blocklen displs b _) =
     (handled pack b \<and> getSize b = getExtent b \<and>
       (count > IDXB_LOOP_TRESHOLD \<longrightarrow> getDatatypeName b = PRIMITIVE \<and>
          list_all (\<lambda>x. 0 \<le> x \<and> x * getExtent b < 2 ^ 32) displs))"
| "handled pack (HIndexed d count blocklens displs b) = handled pack b"
| "handled pack (Struct d count blocklens displs bs) = list_all (handled pack) bs"
| "handled pack (Resized d b) = resizable pack b"
| "resizable pack (Primitive d type) = pack"
| "resizable pack (Contiguous d count b) = (pack \<and> handled pack b)"
| "resizable pack (Vector d count blocklen stride b) = ((pack \<or> stride \<noteq> blocklen) \<and> handled pack b)"
| "resizable pack (HVector d count blocklen stride b) =
     ((pack \<or> stride \<noteq> blocklen * getExtent b) \<and> handled pack b)"
| "resizable pack _ = False"

fun tables :: "globals \<Rightarrow> ddt \<Rightarrow> bool" where
  "tables G (Primitive d type) = True"
| "tables G (Contiguous d count b) = tables G b"
| "tables G (Vector d count blocklen stride b) = tables G b"
| "tables G (HVector d count blocklen stride b) = tables G b"
| "tables G (IndexedBlock d count blocklen displs b arr) =
     (tables G b \<and> (count > IDXB_LOOP_TRESHOLD \<longrightarrow> (case arr of None \<Rightarrow> False
       | Some g \<Rightarrow> g < length G \<and> G ! g = map (\<lambda>x. word_of_int (x * getExtent b)) displs)))"
| "tables G (HIndexed d count blocklens displs b) = tables G b"
| "tables G (Struct d count blocklens displs bs) = list_all (tables G) bs"
| "tables G (Resized d b) = tables G b"

definition ready :: "bool \<Rightarrow> globals \<Rightarrow> ddt \<Rightarrow> bool" where
  "ready pack G t \<longleftrightarrow> built (erase t) \<and> regular t \<and> fits t \<and> handled pack t \<and> tables G t"

lemma built_subtype: "built t \<Longrightarrow> b \<in> set (getSubtypes t) \<Longrightarrow> built b"
proof (induction rule: built.induct)
  case (built_Struct types count displ blocklen)
  then have "map clone types = types" by (simp add: clone_built map_idI)
  then have "set (getSubtypes (StructDatatype count blocklen displ types)) \<subseteq> set types"
    by (auto simp: StructDatatype_def new_Struct_def Let_def dest: in_set_takeD)
  then show ?case using built_Struct by auto
qed (auto simp: ctor_defs new_Primitive_def new_Contiguous_def new_Vector_def new_HVector_def
    new_IndexedBlock_def new_HIndexed_def new_Resized_def Let_def clone_built)

lemma getSubtypes_erase: "getSubtypes (erase t) = map erase (getSubtypes t)"
  by (cases t) auto

lemma built_erase_subtype: "built (erase t) \<Longrightarrow> b \<in> set (getSubtypes t) \<Longrightarrow> built (erase b)"
  using built_subtype [of "erase t" "erase b"] by (simp add: getSubtypes_erase)

lemma ready_sound: "ready pack G t \<Longrightarrow> sound t"
  using built_sound [of "erase t"] by (simp add: ready_def)

lemma ready_subtype:
  "ready pack G t \<Longrightarrow> b \<in> set (getSubtypes t) \<Longrightarrow> handled pack b \<Longrightarrow> ready pack G b"
  using built_erase_subtype [of t b] unfolding ready_def
  by (cases t) (auto simp: list_all_iff Let_def)

text \<open>The layout of \<open>n\<close> elements.\<close>

definition lay :: "ddt \<Rightarrow> nat \<Rightarrow> int list" where
  "lay t n = rep n (tm_extent (mpi t)) (tm_bytes (mpi t))"

definition code_of :: "bool \<Rightarrow> ddt \<Rightarrow> emitter" where
  "code_of pack t = (if pack then packCodegen t else unpackCodegen t)"

lemma methods_code_of: "methods (packCodegen t) (unpackCodegen t) pack = code_of pack t"
  by (simp add: methods_def code_of_def)

lemma length_lay: "sound t \<Longrightarrow> int (length (lay t n)) = int n * getSize t"
  using soundD(1) [of t] by (simp add: lay_def)

lemma size_pos: "sound t \<Longrightarrow> 0 < getSize t"
  using soundD(1,5) [of t] by simp

lemmas codegen_defs = Contiguous_packCodegen_def Contiguous_unpackCodegen_def
  Vector_packCodegen_def Vector_unpackCodegen_def HVector_packCodegen_def HVector_unpackCodegen_def
  IndexedBlock_packCodegen_def IndexedBlock_unpackCodegen_def HIndexed_packCodegen_def
  HIndexed_unpackCodegen_def Struct_packCodegen_def Struct_unpackCodegen_def
  Primitive_packCodegen_def Primitive_unpackCodegen_def Resized_packCodegen_def Resized_unpackCodegen_def

section \<open>Primitives, contiguous types and vectors\<close>

lemma code_Primitive:
  assumes "sound (Primitive d type)"
  shows "bytecode pack G (code_of pack (Primitive d type)) (lay (Primitive d type))"
proof -
  let ?k = "store_size (toLLVMType type)"
  have sz: "getSize (Primitive d type) = int ?k" using soundD(1) [OF assms] by (simp add: Let_def)
  have "code_of pack (Primitive d type) = (\<lambda>a i b. codegenPrimitive a i b (int ?k) type)"
    by (intro ext) (simp add: code_of_def codegen_defs sz)
  moreover have "lay (Primitive d type) = (\<lambda>n. map int [0..<n * ?k])"
    by (intro ext) (simp add: lay_def Let_def tm_extent_def rep_upto)
  ultimately show ?thesis using primitive.bytecode_axioms by simp
qed

text \<open>The code of a contiguous run of \<open>s\<close>, with the size and extent of the type \<open>t\<close>.\<close>

lemma contiguous_bytecode:
  assumes s: "bytecode pack G (code_of pack s) (lay s)" "sound s" and cnt: "0 < count" "count < 2 ^ 31"
    and sz: "getSize t = count * getSize s" and D: "D = (\<lambda>n. rep n (getExtent t) (lay s (nat count)))"
    and code: "\<And>a i b. code a i b = codegenContiguous a i b (methods (packCodegen s) (unpackCodegen s))
      (if pack then getExtent t else getSize t) (if pack then getSize t else getExtent t) count pack"
  shows "bytecode pack G code D"
proof
  show "gen_ok (code a i b)" for a i b unfolding code
    using bytecode.code_ok [OF s(1)] by (intro gen_ok_codegenContiguous) (simp add: methods_code_of)
  have "int (length (lay s (nat count))) = getSize t" using cnt(1) by (simp add: length_lay [OF s(2)] sz)
  then show "emits G F (code a i b) c n e m (\<lambda>_ _ _ _ m'. m' = cps (xfer pack p q (D (unat w))) m)"
    if "holds n e a (VPtr p)" "holds n e i (VI32 w)" "holds n e b (VPtr q)" "0 <s w"
      "copyable (xfer pack p q (D (unat w))) m" for n e a p i w b q m F c
    using that unfolding code D
    by (intro bytecode.contiguous_moves [where basetype = "methods (packCodegen s) (unpackCodegen s)", OF s(1) that(1,2,3,4) methods_code_of cnt]) auto
qed

lemma vector_bytecode:
  assumes s: "bytecode pack G (code_of pack s) (lay s)" "sound s"
    and cnt: "0 < count" "0 < blocklen" "getSize t < 2 ^ 31"
    and sz: "getSize t = count * blocklen * getSize s"
    and D: "D = (\<lambda>n. rep n (getExtent t) (rep (nat count) stride (lay s (nat blocklen))))"
    and code: "\<And>a i b. code a i b = codegenVector a i b (methods (packCodegen s) (unpackCodegen s)) count blocklen
      (if pack then stride else getSize s * blocklen) (if pack then getSize s * blocklen else stride)
      (if pack then getExtent t else getSize t) (if pack then getSize t else getExtent t) pack"
  shows "bytecode pack G code D"
proof
  show "gen_ok (code a i b)" for a i b unfolding code
    using bytecode.code_ok [OF s(1)] by (intro gen_ok_codegenVector) (simp add: methods_code_of)
  let ?N = "nat count" and ?L = "length (lay s (nat blocklen))"
  have N: "int ?N = count" "0 < ?N" using cnt by auto
  have L: "int ?L = blocklen * getSize s" using cnt(2) by (simp add: length_lay [OF s(2)])
  then have L0: "0 < ?L" using cnt(2) size_pos [OF s(2)] by (metis of_nat_0_less_iff mult_pos_pos)
  have NL: "int (?N * ?L) = getSize t" using N L sz by simp
  then have "int (?N * ?L) < int (2 ^ 64)" using cnt(3) by simp
  then have NL64: "?N * ?L < 2 ^ 64" by (simp only: of_nat_less_iff)
  have "1 * blocklen * 1 \<le> count * blocklen * getSize s"
    using cnt size_pos [OF s(2)] by (intro mult_mono) auto
  then have bl: "blocklen < 2 ^ 31" using cnt(3) sz by linarith
  show "emits G F (code a i b) c n e m (\<lambda>_ _ _ _ m'. m' = cps (xfer pack p q (D (unat w))) m)"
    if "holds n e a (VPtr p)" "holds n e i (VI32 w)" "holds n e b (VPtr q)" "0 <s w"
      "copyable (xfer pack p q (D (unat w))) m" for n e a p i w b q m F c
  proof -
    have "emits G F (codegenVector a i b (methods (packCodegen s) (unpackCodegen s)) (int ?N) blocklen
      (if pack then stride else getSize s * blocklen) (if pack then getSize s * blocklen else stride)
      (if pack then getExtent t else getSize t) (if pack then getSize t else getExtent t) pack) c n e m
      (\<lambda>_ _ _ _ m'. m' = cps (xfer pack p q (rep (unat w) (getExtent t) (rep ?N stride (lay s (nat blocklen))))) m)"
      using that(5) NL L unfolding D
      by (intro bytecode.vector_moves [where basetype = "methods (packCodegen s) (unpackCodegen s)", OF s(1) that(1,2,3,4) methods_code_of cnt(2) bl N(2) L0 NL64])
        (auto simp: mult.commute)
    then show ?thesis unfolding code D N(1) .
  qed
qed

section \<open>Types with blocks\<close>

lemma blocks_bytecode:
  assumes bs: "list_all2 (block_moves pack G) bs Ds" and ext: "0 < ext" "ext < 2 ^ 31"
    and D: "D = (\<lambda>n. rep n ext (block_layout bs Ds))"
    and code: "\<And>a i b. code a i b = codegenBlocks (if pack then b else a) (if pack then a else b) i ext bs pack"
  shows "bytecode pack G code D"
proof
  show "gen_ok (code a i b)" for a i b unfolding code
    using blocks_gen_ok [OF bs] by (rule gen_ok_codegenBlocks)
  show "emits G F (code a i b) c n e m (\<lambda>_ _ _ _ m'. m' = cps (xfer pack p q (D (unat w))) m)"
    if "holds n e a (VPtr p)" "holds n e i (VI32 w)" "holds n e b (VPtr q)" "0 <s w"
      "copyable (xfer pack p q (D (unat w))) m" for n e a p i w b q m F c
    using emits_codegenBlocks [OF bs _ _ that(2,4) ext, of "if pack then b else a" "if pack then q else p"
        "if pack then a else b" "if pack then p else q" m F c] that
    unfolding code D by (cases pack) (simp_all add: xfer_def)
qed

lemma block_moves_lay:
  assumes "bytecode pack G (code_of pack b) (lay b)" "sound b" "0 < l" "l < 2 ^ 31"
  shows "block_moves pack G (d, l, methods (packCodegen b) (unpackCodegen b), getSize b * l) (lay b)"
  using assms length_lay [of b "nat l"] unfolding block_moves_def
  by (simp add: methods_code_of mult.commute)

text \<open>A block length is bounded by the size of the type, an \<open>int\<close>.\<close>

lemma length_blocks_at_le: "(d, D) \<in> set bs \<Longrightarrow> length D \<le> length (blocks_at bs)"
  by (induction bs) auto

lemma block_len_le:
  assumes "i < n" "sound (b i)" "0 < l i"
  shows "l i \<le> int (length (block_layout (map (\<lambda>i. (d i, l i, base i, k i)) [0..<n]) (map (\<lambda>i. lay (b i)) [0..<n])))"
proof -
  let ?bs = "map (\<lambda>i. (d i, l i, base i, k i)) [0..<n]" and ?Ds = "map (\<lambda>i. lay (b i)) [0..<n]"
  have "(d i, lay (b i) (nat (l i))) \<in> set (map2 (\<lambda>(d, l, base, k) D. (d, D (nat l))) ?bs ?Ds)"
    using assms(1) by (auto simp: set_zip intro!: image_eqI [where x = "((d i, l i, base i, k i), lay (b i))"] exI [of _ i])
  then have "length (lay (b i) (nat (l i))) \<le> length (block_layout ?bs ?Ds)"
    unfolding block_layout_def by (rule length_blocks_at_le)
  moreover have "l i * 1 \<le> l i * getSize (b i)"
    using assms(3) size_pos [OF assms(2)] by (intro mult_left_mono) auto
  then have "l i \<le> int (length (lay (b i) (nat (l i))))"
    using assms(3) by (simp add: length_lay [OF assms(2)])
  ultimately show ?thesis by linarith
qed

text \<open>The vectors of a built datatype have the length of its count, twice that in a struct.\<close>

fun lengths_ok :: "ddt \<Rightarrow> bool" where
  "lengths_ok (IndexedBlock d count blocklen displs b _) = (length displs = nat count)"
| "lengths_ok (HIndexed d count blocklens displs b) = (length displs = nat count \<and> length blocklens = nat count)"
| "lengths_ok (Struct d count blocklens displs bs) =
     (length displs = 2 * nat count \<and> length blocklens = 2 * nat count \<and> length bs = 2 * nat count)"
| "lengths_ok _ = True"

lemma built_lengths: "built t \<Longrightarrow> lengths_ok t"
  by (induction rule: built.induct) (simp_all add: ctor_defs new_Primitive_def new_Contiguous_def new_Vector_def
      new_HVector_def new_IndexedBlock_def new_HIndexed_def new_Struct_def new_Resized_def Let_def min_def mult_2)

lemma ready_lengths: "ready pack G t \<Longrightarrow> lengths_ok t"
  using built_lengths [of "erase t"] by (cases t) (auto simp: ready_def)

lemma code_HIndexed:
  assumes t: "ready pack G (HIndexed d count blocklens displs b)"
    and b: "bytecode pack G (code_of pack b) (lay b)" "sound b"
  shows "bytecode pack G (code_of pack (HIndexed d count blocklens displs b)) (lay (HIndexed d count blocklens displs b))"
proof -
  let ?t = "HIndexed d count blocklens displs b"
  have so: "sound ?t" using t by (rule ready_sound)
  have r: "0 < count" "list_all (\<lambda>l. 0 < l) blocklens" "length displs = length blocklens"
    "dsize d < 2 ^ 31" "upper_bound d - lower_bound d < 2 ^ 31"
    using t by (auto simp: ready_def dest: list_all2_lengthD)
  have len: "length displs = nat count" "length blocklens = nat count"
    using ready_lengths [OF t] by simp_all
  let ?bs = "map (\<lambda>i. (displs ! i, blocklens ! i, methods (packCodegen b) (unpackCodegen b), getSize b * blocklens ! i)) [0..<nat count]"
  let ?Ds = "map (\<lambda>i. lay b) [0..<nat count]"
  have "map (\<lambda>(d, m). (d, tm_bytes m)) (map2 (\<lambda>x l. (x, tm_rep (nat l) (mpi b))) displs blocklens) =
      map2 (\<lambda>(d, l, base, k) D. (d, D (nat l))) ?bs ?Ds"
    using len by (intro nth_equalityI) (auto simp: lay_def)
  then have lay_t: "tm_bytes (mpi ?t) = block_layout ?bs ?Ds"
    using len by (simp only: mpi.simps tm_blocks_bytes block_layout_def take_all order.refl)
  have small: "0 < blocklens ! i \<and> blocklens ! i < 2 ^ 31" if "i < nat count" for i
  proof -
    have p: "0 < blocklens ! i" using r(2) that len by (simp add: list_all_length)
    have "blocklens ! i \<le> int (length (block_layout ?bs ?Ds))"
      using block_len_le [of i "nat count" "\<lambda>_. b" "\<lambda>i. blocklens ! i"] that b(2) p by simp
    also have "\<dots> = getSize ?t" using soundD(1) [OF so] lay_t by simp
    finally show ?thesis using p r(4) by (simp add: getSize_def)
  qed
  have bs: "list_all2 (block_moves pack G) ?bs ?Ds"
    using small block_moves_lay [OF b] by (simp add: list_all2_conv_all_nth)
  show ?thesis
  proof (rule blocks_bytecode [OF bs])
    show "0 < getExtent ?t" "getExtent ?t < 2 ^ 31"
      using soundD(4,6) [OF so] r(5) by (simp_all add: getExtent_def)
    show "lay ?t = (\<lambda>n. rep n (getExtent ?t) (block_layout ?bs ?Ds))"
      unfolding lay_t [symmetric] soundD(4) [OF so] by (intro ext) (simp add: lay_def)
  qed (auto simp: code_of_def codegen_defs codegenHindexed_def info_def)
qed

lemma code_Struct:
  assumes t: "ready pack G (Struct d count blocklens displs bs)"
    and b: "\<forall>b \<in> set bs. bytecode pack G (code_of pack b) (lay b) \<and> sound b"
  shows "bytecode pack G (code_of pack (Struct d count blocklens displs bs)) (lay (Struct d count blocklens displs bs))"
proof -
  let ?t = "Struct d count blocklens displs bs" and ?n = "nat count"
  have so: "sound ?t" using t by (rule ready_sound)
  have r: "0 < count" "list_all (\<lambda>l. 0 < l) blocklens" "dsize d < 2 ^ 31" "upper_bound d - lower_bound d < 2 ^ 31"
    using t by (auto simp: ready_def)
  have len: "length displs = 2 * ?n" "length blocklens = 2 * ?n" "length bs = 2 * ?n"
    using ready_lengths [OF t] by simp_all
  let ?code = "\<lambda>b. methods (packCodegen b) (unpackCodegen b)"
  let ?bs = "map (\<lambda>i. (displs ! i, blocklens ! i, ?code (bs ! i), getSize (bs ! i) * blocklens ! i)) [0..<?n]"
  let ?Ds = "map (\<lambda>i. lay (bs ! i)) [0..<?n]"
  have "map (\<lambda>(d, m). (d, tm_bytes m)) (zip (take ?n displs) (map2 (\<lambda>l m. tm_rep (nat l) m) blocklens (map mpi bs))) =
      map2 (\<lambda>(d, l, base, k) D. (d, D (nat l))) ?bs ?Ds"
    using len by (intro nth_equalityI) (auto simp: lay_def)
  then have lay_t: "tm_bytes (mpi ?t) = block_layout ?bs ?Ds"
    by (simp only: mpi.simps tm_blocks_bytes block_layout_def)
  have bi: "bytecode pack G (code_of pack (bs ! i)) (lay (bs ! i))" "sound (bs ! i)" if "i < ?n" for i
    using b that len by auto
  have small: "0 < blocklens ! i \<and> blocklens ! i < 2 ^ 31" if "i < ?n" for i
  proof -
    have p: "0 < blocklens ! i" using r(2) that len by (simp add: list_all_length)
    have "blocklens ! i \<le> int (length (block_layout ?bs ?Ds))"
      using block_len_le [of i ?n "\<lambda>i. bs ! i" "\<lambda>i. blocklens ! i"] that bi(2) p by simp
    also have "\<dots> = getSize ?t" using soundD(1) [OF so] lay_t by simp
    finally show ?thesis using p r(3) by (simp add: getSize_def)
  qed
  have mv: "list_all2 (block_moves pack G) ?bs ?Ds"
    using small block_moves_lay bi by (simp add: list_all2_conv_all_nth)
  have info: "map (\<lambda>i. (displs ! i, blocklens ! i, bt_codegen (map (\<lambda>b. info b (?code b)) bs ! i),
      bt_size (map (\<lambda>b. info b (?code b)) bs ! i) * blocklens ! i)) [0..<?n] = ?bs"
    using len by (intro map_cong) (auto simp: info_def)
  show ?thesis
  proof (rule blocks_bytecode [OF mv])
    show "0 < getExtent ?t" "getExtent ?t < 2 ^ 31"
      using soundD(4,6) [OF so] r(4) by (simp_all add: getExtent_def)
    show "lay ?t = (\<lambda>n. rep n (getExtent ?t) (block_layout ?bs ?Ds))"
      unfolding lay_t [symmetric] soundD(4) [OF so] by (intro ext) (simp add: lay_def)
  qed (simp add: code_of_def codegen_defs codegenStruct_def info)
qed

text \<open>Few blocks: the displacements are scaled by the size of the basetype, which is its extent.\<close>

lemma code_IndexedBlock_small:
  assumes t: "ready pack G (IndexedBlock d count blocklen displs b arr)" and few: "count \<le> IDXB_LOOP_TRESHOLD"
    and b: "bytecode pack G (code_of pack b) (lay b)" "sound b"
  shows "bytecode pack G (code_of pack (IndexedBlock d count blocklen displs b arr))
    (lay (IndexedBlock d count blocklen displs b arr))"
proof -
  let ?t = "IndexedBlock d count blocklen displs b arr" and ?n = "nat count"
  have so: "sound ?t" using t by (rule ready_sound)
  have r: "0 < count" "blocklen = 1" "getSize b = getExtent b" "upper_bound d - lower_bound d < 2 ^ 31"
    using t by (auto simp: ready_def Let_def)
  have len: "length displs = ?n" using ready_lengths [OF t] by simp
  let ?bs = "map (\<lambda>i. (displs ! i * getSize b, blocklen, methods (packCodegen b) (unpackCodegen b), getSize b * blocklen)) [0..<?n]"
  let ?Ds = "map (\<lambda>i. lay b) [0..<?n]"
  have "map (\<lambda>(d, m). (d, tm_bytes m)) (map (\<lambda>x. (x * tm_extent (mpi b), tm_rep (nat blocklen) (mpi b))) displs) =
      map2 (\<lambda>(d, l, base, k) D. (d, D (nat l))) ?bs ?Ds"
    using len soundD(4) [OF b(2)] r(3) by (intro nth_equalityI) (auto simp: lay_def)
  then have lay_t: "tm_bytes (mpi ?t) = block_layout ?bs ?Ds"
    using len by (simp only: mpi.simps tm_blocks_bytes block_layout_def take_all order.refl)
  have bs: "list_all2 (block_moves pack G) ?bs ?Ds"
    using block_moves_lay [OF b, of blocklen] r(2) by (simp add: list_all2_conv_all_nth)
  have few': "\<not> count > IDXB_LOOP_TRESHOLD" using few by simp
  show ?thesis
  proof (rule blocks_bytecode [OF bs])
    show "0 < getExtent ?t" "getExtent ?t < 2 ^ 31"
      using soundD(4,6) [OF so] r(4) by (simp_all add: getExtent_def)
    show "lay ?t = (\<lambda>n. rep n (getExtent ?t) (block_layout ?bs ?Ds))"
      unfolding lay_t [symmetric] soundD(4) [OF so] by (intro ext) (simp add: lay_def)
  qed (simp add: code_of_def codegen_defs codegenIndexedBlock_def info_def few')
qed

text \<open>Many blocks: the table holds the displacements in bytes, and the basetype is a primitive.\<close>

lemma code_IndexedBlock_table:
  assumes t: "ready pack G (IndexedBlock d count blocklen displs b arr)" and many: "count > IDXB_LOOP_TRESHOLD"
    and so: "sound b"
  shows "bytecode pack G (code_of pack (IndexedBlock d count blocklen displs b arr))
    (lay (IndexedBlock d count blocklen displs b arr))"
proof -
  let ?t = "IndexedBlock d count blocklen displs b arr" and ?n = "nat count"
  have so': "sound ?t" using t by (rule ready_sound)
  have r: "0 < count" "blocklen = 1" "getSize b = getExtent b" "dsize d < 2 ^ 31" "getDatatypeName b = PRIMITIVE"
    "list_all (\<lambda>x. 0 \<le> x \<and> x * getExtent b < 2 ^ 32) displs"
    using t many by (auto simp: ready_def Let_def)
  obtain g where g: "arr = Some g" "g < length G" "G ! g = map (\<lambda>x. word_of_int (x * getExtent b)) displs"
    using t many by (auto simp: ready_def split: option.splits)
  obtain db type where prim: "b = Primitive db type" using r(5) by (cases b) auto
  have len: "length displs = ?n" using ready_lengths [OF t] by simp
  let ?k = "store_size (toLLVMType type)"
  let ?c = "methods (packCodegen b) (unpackCodegen b)"
  have k: "getSize b = int ?k" using soundD(1) [OF so] by (simp add: prim Let_def)
  have "?c pack = (\<lambda>a i b. codegenPrimitive a i b (int ?k) type)"
    unfolding methods_code_of using k by (intro ext) (simp add: prim code_of_def codegen_defs)
  moreover have layb: "lay b = (\<lambda>n. map int [0..<n * ?k])"
    by (intro ext) (simp add: prim lay_def Let_def tm_extent_def rep_upto)
  ultimately have st: "straight_bytecode pack G (bt_codegen (info b ?c) pack) (lay b) 1"
    using primitive_single.straight_bytecode_axioms by (simp add: info_def)
  let ?ds = "map (\<lambda>x. x * getExtent b) displs"
  have lay_t: "tm_bytes (mpi ?t) = table_layout ?ds (lay b 1)"
    using len soundD(4) [OF so] r(2)
    by (simp add: table_layout_def comp_def lay_def)
  have D: "lay ?t = (\<lambda>n. rep n (getExtent ?t) (table_layout ?ds (lay b (nat 1))))"
    using lay_t soundD(4) [OF so'] by (intro ext) (simp add: lay_def)
  have sz: "getSize ?t = int (length ?ds * length (lay b (nat 1)))"
    using soundD(1) [OF so'] lay_t by simp
  have code: "code_of pack ?t a i o' = codegenIndexedBlock (if pack then o' else a) (if pack then a else o') i
      (getExtent ?t) (getSize ?t) (int (length ?ds)) 1 (info b ?c) displs (Some g) pack" for a i o'
    using len r(1,2) by (simp add: code_of_def codegen_defs g(1))
  have small: "getSize ?t < 2 ^ 31" "0 < getSize ?t"
    using r(4) size_pos [OF so'] by (simp_all add: getSize_def)
  have n31: "length ?ds < 2 ^ 31"
  proof -
    have "int (length ?ds) * 1 \<le> int (length ?ds) * int (length (lay b (nat 1)))"
      using length_lay [OF so, of 1] size_pos [OF so] by (intro mult_left_mono) auto
    then have "int (length ?ds) < 2 ^ 31" using small(1) sz by simp
    then show ?thesis by simp
  qed
  show ?thesis unfolding D
  proof
    show "gen_ok (code_of pack ?t a i o')" for a i o'
      unfolding code using straight_bytecode.axioms(1) [OF st, THEN bytecode.code_ok]
      by (rule gen_ok_codegenIndexedBlock)
    show "emits G F (code_of pack ?t a i o') c n e m
        (\<lambda>_ _ _ _ m'. m' = cps (xfer pack p q (rep (unat w) (getExtent ?t) (table_layout ?ds (lay b (nat 1))))) m)"
      if "holds n e a (VPtr p)" "holds n e i (VI32 w)" "holds n e o' (VPtr q)" "0 <s w"
        "copyable (xfer pack p q (rep (unat w) (getExtent ?t) (table_layout ?ds (lay b (nat 1))))) m"
      for n e a p i w o' q m F c
    proof -
      have "emits G F (code_of pack ?t a i o') c n e m
        (\<lambda>_ _ _ _ m'. m' = cps (moves pack (if pack then p else q) (if pack then q else p)
          (rep (unat w) (getExtent ?t) (table_layout ?ds (lay b (nat 1))))) m)"
        unfolding code
        using that g(2,3) r(6) small n31 many len k soundD(1) [OF so] r(3) length_lay [OF so, of 1]
        by (intro emits_codegenIndexedBlock_table [OF st _ g(2) _ _ _ _ _ sz small(2,1) _ _ that(2,4)])
          (auto simp: xfer_def comp_def list_all_iff info_def)
      then show ?thesis by (auto simp: xfer_def split: if_splits)
    qed
  qed
qed

section \<open>Contiguous types, vectors and resized types from the code of their basetypes\<close>

lemma rep_rep_lay:
  "tm_bytes (tm_blocks (map (\<lambda>j. (int j * x, tm_rep n (mpi s))) [0..<k])) = rep k x (lay s n)"
  by (simp add: rep_def comp_def lay_def)

text \<open>\<open>t\<close> is the type itself or a resized type around it: same data, its own extent.\<close>

lemma contiguous_code:
  assumes s: "bytecode pack G (code_of pack s) (lay s)" "sound s" and cnt: "0 < count"
    and t: "sound t" "tm_bytes (mpi t) = tm_bytes (tm_rep (nat count) (mpi s))" "getSize t < 2 ^ 31"
    and code: "\<And>a i b. code_of pack t a i b = codegenContiguous a i b (methods (packCodegen s) (unpackCodegen s))
      (if pack then getExtent t else getSize t) (if pack then getSize t else getExtent t) count pack"
  shows "bytecode pack G (code_of pack t) (lay t)"
proof -
  have sz: "getSize t = count * getSize s"
    using soundD(1) [OF t(1)] soundD(1) [OF s(2)] t(2) cnt by simp
  have "count * 1 \<le> count * getSize s" using cnt size_pos [OF s(2)] by (intro mult_left_mono) auto
  then have c31: "count < 2 ^ 31" using sz t(3) by simp
  have D: "lay t = (\<lambda>n. rep n (getExtent t) (lay s (nat count)))"
    unfolding soundD(4) [OF t(1)] lay_def t(2) by simp
  show ?thesis by (rule contiguous_bytecode [OF s cnt c31 sz D code])
qed

lemma vector_code:
  assumes s: "bytecode pack G (code_of pack s) (lay s)" "sound s" and cnt: "0 < count" "0 < blocklen"
    and t: "sound t" "tm_bytes (mpi t) = rep (nat count) stride (lay s (nat blocklen))" "getSize t < 2 ^ 31"
    and code: "\<And>a i b. code_of pack t a i b = codegenVector a i b (methods (packCodegen s) (unpackCodegen s)) count blocklen
      (if pack then stride else getSize s * blocklen) (if pack then getSize s * blocklen else stride)
      (if pack then getExtent t else getSize t) (if pack then getSize t else getExtent t) pack"
  shows "bytecode pack G (code_of pack t) (lay t)"
proof -
  have sz: "getSize t = count * blocklen * getSize s"
    using soundD(1) [OF t(1)] t(2) length_lay [OF s(2), of "nat blocklen"] cnt by simp
  have D: "lay t = (\<lambda>n. rep n (getExtent t) (rep (nat count) stride (lay s (nat blocklen))))"
    unfolding soundD(4) [OF t(1)] lay_def [of t] t(2) by simp
  show ?thesis by (rule vector_bytecode [OF s cnt t(3) sz D code])
qed

lemma code_Contiguous:
  assumes t: "ready pack G (Contiguous d count s)" and s: "bytecode pack G (code_of pack s) (lay s)" "sound s"
  shows "bytecode pack G (code_of pack (Contiguous d count s)) (lay (Contiguous d count s))"
  using t ready_sound [OF t]
  by (intro contiguous_code [OF s, of count]) (auto simp: ready_def getSize_def code_of_def codegen_defs)

lemma code_Vector:
  assumes t: "ready pack G (Vector d count blocklen stride s)" and s: "bytecode pack G (code_of pack s) (lay s)" "sound s"
  shows "bytecode pack G (code_of pack (Vector d count blocklen stride s)) (lay (Vector d count blocklen stride s))"
  using t ready_sound [OF t] soundD(4) [OF s(2)]
  by (intro vector_code [OF s, of count blocklen _ "getExtent s * stride"])
    (auto simp: ready_def getSize_def code_of_def codegen_defs rep_rep_lay mult.commute simp del: tm_blocks_bytes)

lemma code_HVector:
  assumes t: "ready pack G (HVector d count blocklen stride s)" and s: "bytecode pack G (code_of pack s) (lay s)" "sound s"
  shows "bytecode pack G (code_of pack (HVector d count blocklen stride s)) (lay (HVector d count blocklen stride s))"
  using t ready_sound [OF t]
  by (intro vector_code [OF s, of count blocklen _ stride])
    (auto simp: ready_def getSize_def code_of_def codegen_defs rep_rep_lay simp del: tm_blocks_bytes)

lemma code_Resized_Primitive:
  assumes t: "ready True G (Resized d (Primitive e type))"
  shows "bytecode True G (code_of True (Resized d (Primitive e type))) (lay (Resized d (Primitive e type)))"
proof
  let ?t = "Resized d (Primitive e type)" and ?k = "store_size (toLLVMType type)"
  have so: "sound ?t" using t by (rule ready_sound)
  have sz: "getSize ?t = int ?k" using soundD(1) [OF so] by (simp add: Let_def)
  have k: "?k < 2 ^ 63" by (cases type) auto
  have code: "code_of True ?t a i b = codegenPrimitiveResized a i b (int ?k) (getExtent ?t) BYTE" for a i b
    by (simp add: code_of_def codegen_defs sz)
  have D: "lay ?t n = rep n (getExtent ?t) (map int [0..<?k])" for n
    unfolding soundD(4) [OF so] lay_def by (simp add: Let_def)
  show "gen_ok (code_of True ?t a i b)" for a i b unfolding code by (intro gen_mono)
  show "emits G F (code_of True ?t a i b) c n e m (\<lambda>_ _ _ _ m'. m' = cps (xfer True p q (lay ?t (unat w))) m)"
    if "holds n e a (VPtr p)" "holds n e i (VI32 w)" "holds n e b (VPtr q)" "0 <s w"
      "copyable (xfer True p q (lay ?t (unat w))) m" for n e a p i w b q m F c
    unfolding code D by (rule emits_codegenPrimitiveResized [OF that(1,2,3,4) k that(5) [unfolded D]])
qed

lemma code_Resized:
  assumes t: "ready pack G (Resized d b)"
    and s: "\<forall>s \<in> set (getSubtypes b). bytecode pack G (code_of pack s) (lay s) \<and> sound s"
  shows "bytecode pack G (code_of pack (Resized d b)) (lay (Resized d b))"
proof -
  have so: "sound (Resized d b)" using t by (rule ready_sound)
  have hd: "handled pack (Resized d b)" and r: "regular b" "getSize (Resized d b) < 2 ^ 31"
    using t by (auto simp: ready_def getSize_def)
  show ?thesis
  proof (cases b)
    case (Primitive e type)
    then show ?thesis using hd t code_Resized_Primitive by simp
  next
    case (Contiguous e count s')
    then have sub: "bytecode pack G (code_of pack s') (lay s')" "sound s'" and hd: "pack" "0 < count"
      using s hd r(1) by simp_all
    have code: "code_of pack (Resized d b) a i o' = codegenContiguous a i o' (methods (packCodegen s') (unpackCodegen s'))
      (if pack then getExtent (Resized d b) else getSize (Resized d b))
      (if pack then getSize (Resized d b) else getExtent (Resized d b)) count pack" for a i o'
      using hd(1) by (simp add: code_of_def codegen_defs Contiguous)
    have bytes: "tm_bytes (mpi (Resized d b)) = tm_bytes (tm_rep (nat count) (mpi s'))" by (simp add: Contiguous)
    show ?thesis by (rule contiguous_code [OF sub hd(2) so bytes r(2) code])
  next
    case (Vector e count blocklen stride s')
    then have sub: "bytecode pack G (code_of pack s') (lay s')" "sound s'" and c: "0 < count" "0 < blocklen"
      using s hd r(1) by simp_all
    have code: "code_of pack (Resized d b) a i o' = codegenVector a i o' (methods (packCodegen s') (unpackCodegen s'))
      count blocklen (if pack then getExtent s' * stride else getSize s' * blocklen)
      (if pack then getSize s' * blocklen else getExtent s' * stride)
      (if pack then getExtent (Resized d b) else getSize (Resized d b))
      (if pack then getSize (Resized d b) else getExtent (Resized d b)) pack" for a i o'
      by (simp add: code_of_def codegen_defs Vector)
    have bytes: "tm_bytes (mpi (Resized d b)) = rep (nat count) (getExtent s' * stride) (lay s' (nat blocklen))"
      using rep_rep_lay [of "getExtent s' * stride" "nat blocklen" s' "nat count"] soundD(4) [OF sub(2)]
      by (simp add: Vector mult.commute [of stride] del: tm_blocks_bytes)
    show ?thesis by (rule vector_code [OF sub c so bytes r(2) code])
  next
    case (HVector e count blocklen stride s')
    then have sub: "bytecode pack G (code_of pack s') (lay s')" "sound s'" and c: "0 < count" "0 < blocklen"
      using s hd r(1) by simp_all
    have code: "code_of pack (Resized d b) a i o' = codegenVector a i o' (methods (packCodegen s') (unpackCodegen s'))
      count blocklen (if pack then stride else getSize s' * blocklen)
      (if pack then getSize s' * blocklen else stride)
      (if pack then getExtent (Resized d b) else getSize (Resized d b))
      (if pack then getSize (Resized d b) else getExtent (Resized d b)) pack" for a i o'
      by (simp add: code_of_def codegen_defs HVector)
    have bytes: "tm_bytes (mpi (Resized d b)) = rep (nat count) stride (lay s' (nat blocklen))"
      using rep_rep_lay by (simp add: HVector del: tm_blocks_bytes)
    show ?thesis by (rule vector_code [OF sub c so bytes r(2) code])
  qed (use hd in auto)
qed

section \<open>Every ready datatype\<close>

lemma size_subtype: "s \<in> set (getSubtypes t) \<Longrightarrow> size s < size t"
proof (cases t)
  case (Struct d count blocklens displs bs)
  moreover have "size s < Suc (size_list size bs)" if "s \<in> set bs"
    using size_list_estimation' [OF that order.refl, of size] by simp
  ultimately show "s \<in> set (getSubtypes t) \<Longrightarrow> size s < size t" by fastforce
qed auto

lemma ready_code: "ready pack G t \<Longrightarrow> bytecode pack G (code_of pack t) (lay t)"
proof (induction t rule: measure_induct_rule [of size])
  case (less t)
  have sub: "bytecode pack G (code_of pack s) (lay s) \<and> sound s"
    if "s \<in> set (getSubtypes t)" "handled pack s" for s
    using less.IH [OF size_subtype [OF that(1)]] ready_subtype [OF less.prems that] ready_sound by blast
  have hd: "handled pack t" using less.prems by (simp add: ready_def)
  show ?case
  proof (cases t)
    case (Primitive d type)
    then show ?thesis using code_Primitive ready_sound [OF less.prems] by simp
  next
    case (Contiguous d count b)
    then show ?thesis using code_Contiguous less.prems sub [of b] hd by simp
  next
    case (Vector d count blocklen stride b)
    then show ?thesis using code_Vector less.prems sub [of b] hd by simp
  next
    case (HVector d count blocklen stride b)
    then show ?thesis using code_HVector less.prems sub [of b] hd by simp
  next
    case (IndexedBlock d count blocklen displs b arr)
    then show ?thesis
      using code_IndexedBlock_small code_IndexedBlock_table less.prems sub [of b] hd
      by (cases "count \<le> IDXB_LOOP_TRESHOLD") auto
  next
    case (HIndexed d count blocklens displs b)
    then show ?thesis using code_HIndexed less.prems sub [of b] hd by simp
  next
    case (Struct d count blocklens displs bs)
    then show ?thesis using code_Struct less.prems sub hd by (simp add: list_all_iff)
  next
    case (Resized d b)
    have "\<forall>s \<in> set (getSubtypes b). bytecode pack G (code_of pack s) (lay s) \<and> sound s"
    proof
      fix s assume s: "s \<in> set (getSubtypes b)"
      have b: "b \<in> set (getSubtypes t)" by (simp add: Resized)
      have hs: "handled pack s" "handled pack b" using hd s by (cases b; simp add: Resized)+
      then have "ready pack G s" using ready_subtype [OF ready_subtype [OF less.prems b] s] by simp
      then show "bytecode pack G (code_of pack s) (lay s) \<and> sound s"
        using less.IH [of s] size_subtype [OF s] size_subtype [OF b] ready_sound by auto
    qed
    then show ?thesis using code_Resized less.prems Resized by simp
  qed
qed

section \<open>Calls of a compiled function\<close>

lemma call_emitted:
  assumes ok: "\<And>a i b. gen_ok (code a i b)" and F: "F = build_function code"
    and em: "\<And>c n e. holds n e (Reg 0) (VPtr p) \<Longrightarrow> holds n e (Reg 1) (VI32 w) \<Longrightarrow> holds n e (Reg 2) (VPtr q) \<Longrightarrow>
      emits G F (code (Reg 0) (Reg 1) (Reg 2)) c n e m (\<lambda>_ _ _ _ m'. m' = M)"
  shows "\<exists>k. \<forall>j \<ge> k. call G F j p w q m = Some M"
proof -
  let ?g = "code (Reg 0) (Reg 1) (Reg 2)" and ?B = createFunctionHeader and ?e = "call_env p w q"
  define B where "B = snd (run_state ?g ?B)"
  have wf: "wfB ?B"
    by (simp add: wfB_def createFunctionHeader_def empty_block_def phi_regs_below_def)
  have F': "F = blocks (set_terminator RetVoid B)"
    unfolding F build_function_def B_def by (simp add: CreateRetVoid_def case_prod_unfold)
  have wfB': "wfB B" using gen_okD [OF ok wf] by (simp add: B_def extends_def)
  have le: "code_le (blocks B) F"
    unfolding F' set_terminator_def using wfB'
    by (auto simp: wfB_def block_grows_def body_le_def intro!: grows_code_le grows_update)
  have tr: "triple G F ?g ?B ?e m (\<lambda>_ _ _ m'. m' = M)"
    using em [of 3 ?e 0] by (simp add: emits_def createFunctionHeader_def holds_def below_def call_env_def)
  then obtain e' where "steps G F (insertion_point ?B ?e m) (insertion_point B e' M)"
    using wf le unfolding triple_def B_def by blast
  moreover have "step G F (insertion_point B e' M) = Some (Done M)"
    using wfB' unfolding F' by (simp add: insertion_point_def wfB_def set_terminator_def)
  ultimately have "steps G F (insertion_point ?B ?e m) (Done M)"
    using steps_trans steps_one by blast
  then show ?thesis
    using steps_run [of G F _ "Done M" M]
    by (fastforce simp: call_def insertion_point_def createFunctionHeader_def empty_block_def)
qed

lemma ready_call:
  assumes t: "ready pack G t" and w: "0 <s w" and m: "copyable (xfer pack p q (lay t (unat w))) m"
  shows "\<exists>k. \<forall>j \<ge> k. call G (build_function (code_of pack t)) j p w q m = Some (cps (xfer pack p q (lay t (unat w))) m)"
  by (rule call_emitted [OF bytecode.code_ok [OF ready_code [OF t]] refl])
    (rule bytecode.code_moves [OF ready_code [OF t] _ _ _ w m])


section \<open>The tables of a module\<close>

lemma erase_getters: "erase s = erase t \<Longrightarrow> getExtent s = getExtent t \<and> getSize s = getSize t"
  by (metis get_erase(1,2))

lemma tables_append: "tables G t \<Longrightarrow> tables (G @ X) t"
  by (induction t) (auto simp: nth_append list_all_iff split: option.splits)

lemma globalCodegen_tables:
  "built (erase t) \<Longrightarrow> globalCodegen t G = (t', G') \<Longrightarrow>
     erase t' = erase t \<and> (\<exists>X. G' = G @ X) \<and> tables G' t'"
  "\<forall>t \<in> set ts. built (erase t) \<Longrightarrow> globalCodegens ts G = (ts', G') \<Longrightarrow>
     map erase ts' = map erase ts \<and> (\<exists>X. G' = G @ X) \<and> list_all (tables G') ts'"
proof (induction t G and ts G arbitrary: t' G' and ts' G' rule: globalCodegen_globalCodegens.induct)
  case (5 d count blocklen displs b arr G)
  let ?table = "map (\<lambda>i. word_of_int (displs ! i * getExtent b)) [0..<nat count]"
  have b: "built (erase b)" using built_erase_subtype [OF 5(2)] by simp
  have len: "length displs = nat count" using built_lengths [OF 5(2)] by simp
  obtain arr' G1 where g1: "IndexedBlock_globalCodegen count displs b G = (arr', G1)" by force
  obtain b' where b': "globalCodegen b G1 = (b', G')" and t': "t' = IndexedBlock d count blocklen displs b' (if arr' = None then arr else arr')"
    using 5(3) g1 by (cases "globalCodegen b G1") auto
  obtain X where ih: "erase b' = erase b" "G' = G1 @ X" "tables G' b'" using 5(1) [OF g1 [symmetric] refl b b'] by blast
  have tab: "?table = map (\<lambda>x. word_of_int (x * getExtent b')) displs"
    using len erase_getters [OF ih(1)] by (intro nth_equalityI) auto
  show ?case
    using g1 ih tab unfolding t'
    by (auto simp: IndexedBlock_globalCodegen_def nth_append split: if_splits)
next
  case (7 d count blocklens displs bs G)
  then show ?case using built_erase_subtype [OF 7(2)] by (auto simp: apfst_def map_prod_def split: prod.splits)
next
  case (10 b bs G)
  obtain b' G1 where b': "globalCodegen b G = (b', G1)" by force
  obtain bs' G2 where bs': "globalCodegens bs G1 = (bs', G2)" by force
  have r: "ts' = b' # bs'" "G' = G2" using 10(4) b' bs' by auto
  show ?case
    using 10(1) [OF _ b'] 10(2) [OF b' [symmetric] refl _ bs'] 10(3) tables_append unfolding r by auto
qed (use built_erase_subtype in \<open>fastforce simp: apfst_def map_prod_def split: prod.splits\<close>)+


lemma fits_erase [simp]: "fits (erase t) = fits t"
  by (induction t) (auto simp: list_all_iff)

lemma name_erase [simp]: "getDatatypeName (erase t) = getDatatypeName t"
  by (cases t) auto

lemma handled_erase [simp]: "handled pack (erase t) = handled pack t"
proof (induction t)
  case (Resized d b)
  then show ?case by (cases b) auto
qed (auto simp: list_all_iff)

lemma erase_built: "built t \<Longrightarrow> erase t = t"
proof (induction rule: built.induct)
  case (built_Struct types count displ blocklen)
  then have cl: "map clone types = types" and er: "\<forall>b \<in> set types. erase b = b"
    by (auto simp: clone_built intro: map_idI)
  have "map erase (take n types @ take n types) = take n types @ take n types" for n
    using er by (intro map_idI) (auto dest: in_set_takeD)
  then show ?case unfolding StructDatatype_def cl by (simp add: new_Struct_def Let_def)
qed (auto simp: ctor_defs new_Primitive_def new_Contiguous_def new_Vector_def new_HVector_def
    new_IndexedBlock_def new_HIndexed_def new_Resized_def Let_def clone_built)

lemma globalCodegen_ready:
  assumes "built t" "regular t" "fits t" "handled pack t" "globalCodegen t G = (t', G')"
  shows "ready pack G' t'" "lay t' = lay t"
proof -
  have r: "erase t' = t" "tables G' t'"
    using globalCodegen_tables(1) [of t G t' G'] assms(1,5) by (simp_all add: erase_built)
  then show "ready pack G' t'"
    using assms fits_erase [of t'] regular_erase [of t'] handled_erase [of pack t'] by (simp add: ready_def)
  show "lay t' = lay t" using r(1) mpi_erase [of t'] by (simp add: lay_def fun_eq_iff)
qed

end
