(* ===== verification/Compress_Correct.thy ===== *)
theory Compress_Correct
  imports Compile_Correct
begin

text \<open>
  Compression (the methods \<open>compress\<close> of ddt\_jit.cpp): whatever datatype it returns has
  the type map of the original, keeps the conditions under which the generated code is
  right, and passes the asserts on its size and extent.
\<close>

section \<open>Compression keeps the type map\<close>

lemma tm_eqI: "tm_bytes m = tm_bytes m' \<Longrightarrow> tm_lb m = tm_lb m' \<Longrightarrow> tm_ub m = tm_ub m' \<Longrightarrow> m = (m' :: tm)"
  by simp

lemma tm_rep_mult:
  assumes "0 < tm_extent m" "tm_bytes m \<noteq> []"
  shows "tm_rep n (tm_rep k m) = tm_rep (n * k) m"
proof (cases "n = 0 \<or> k = 0")
  case True
  have e: "tm_rep 0 x = \<lparr>tm_bytes = [], tm_lb = 0, tm_ub = 0\<rparr>" for x by (simp add: tm_rep_def tm_blocks_def)
  have "tm_rep n \<lparr>tm_bytes = [], tm_lb = 0, tm_ub = 0\<rparr> = tm_rep 0 m"
    unfolding e by (intro tm_eqI) (simp_all add: tm_rep_def tm_blocks_def blocks_at_def o_def filter_False)
  then show ?thesis using True by (auto simp: e)
next
  case False
  then have n: "0 < n" "0 < k" "0 < n * k" by auto
  note k = tm_rep_bounds [OF n(2) order.strict_implies_order [OF assms(1)] assms(2)]
  have k': "0 \<le> tm_extent (tm_rep k m)" "tm_bytes (tm_rep k m) \<noteq> []" using k(3) assms n by simp_all
  note nk = tm_rep_bounds [OF n(3) order.strict_implies_order [OF assms(1)] assms(2)]
  show ?thesis
  proof (rule tm_eqI)
    show "tm_bytes (tm_rep n (tm_rep k m)) = tm_bytes (tm_rep (n * k) m)" by (simp add: k(3) rep_mult)
    show "tm_lb (tm_rep n (tm_rep k m)) = tm_lb (tm_rep (n * k) m)"
      by (simp add: tm_rep_bounds(1) [OF n(1) k'] k(1) nk(1))
    have "int (k - 1) = int k - 1" "int (n - 1) = int n - 1" "int (n * k - 1) = int n * int k - 1"
      using n by (simp_all add: of_nat_diff Suc_leI)
    then show "tm_ub (tm_rep n (tm_rep k m)) = tm_ub (tm_rep (n * k) m)"
      unfolding tm_rep_bounds(2) [OF n(1) k'] k(2,3) nk(2) by (simp only:) (simp add: algebra_simps)
  qed
qed

lemma tm_blocks_as_rep:
  assumes "0 < n" "0 < tm_extent m" "tm_bytes m \<noteq> []"
  shows "tm_blocks (map (\<lambda>j. (int j * (int n * tm_extent m), tm_rep n m)) [0..<k]) = tm_rep (k * n) m"
  using tm_rep_mult [OF assms(2,3), of k n] tm_rep_bounds(3) [OF assms(1) order.strict_implies_order [OF assms(2)] assms(3)]
  by (simp add: tm_rep_def [of k])

definition compressed :: "ddt \<Rightarrow> ddt \<Rightarrow> bool" where
  "compressed t t' \<longleftrightarrow> built t' \<and> regular t' \<and> fits t' \<and> mpi t' = mpi t \<and>
     (\<forall>pack. handled pack t \<longrightarrow> handled pack t') \<and>
     (\<forall>pack. resizable pack t \<longrightarrow> resizable pack t')"

lemma compressed_dims:
  assumes "compressed t t'" "sound t"
  shows "sound t'" "getSize t' = getSize t" "getExtent t' = getExtent t" "getLowerBound t' = getLowerBound t"
proof -
  show t': "sound t'" using assms(1) built_sound by (simp add: compressed_def)
  then show "getSize t' = getSize t" "getExtent t' = getExtent t" "getLowerBound t' = getLowerBound t"
    using soundD(1,2,4) [OF assms(2)] soundD(1,2,4) [OF t'] assms(1) by (simp_all add: compressed_def)
qed

lemma check_compressed: "compressed t t' \<Longrightarrow> sound t \<Longrightarrow> check t t' = Some t'"
  using compressed_dims [of t t'] by (simp add: check_def)

lemma ctor_mpi:
  "clone b = b \<Longrightarrow> mpi (ContiguousDatatype count b) = tm_rep (nat count) (mpi b)"
  "clone b = b \<Longrightarrow> mpi (VectorDatatype count blocklen stride b) =
     tm_blocks (map (\<lambda>j. (int j * (stride * tm_extent (mpi b)), tm_rep (nat blocklen) (mpi b))) [0..<nat count])"
  "clone b = b \<Longrightarrow> mpi (HVectorDatatype count blocklen stride b) =
     tm_blocks (map (\<lambda>j. (int j * stride, tm_rep (nat blocklen) (mpi b))) [0..<nat count])"
  by (simp_all add: ctor_defs new_Contiguous_def new_Vector_def new_HVector_def Let_def)

lemma ctor_fits:
  "clone b = b \<Longrightarrow> fits (ContiguousDatatype count b) \<longleftrightarrow> getSize (ContiguousDatatype count b) < 2 ^ 31 \<and> fits b"
  "clone b = b \<Longrightarrow> fits (VectorDatatype count blocklen stride b) \<longleftrightarrow>
     getSize (VectorDatatype count blocklen stride b) < 2 ^ 31 \<and> fits b"
  "clone b = b \<Longrightarrow> fits (HVectorDatatype count blocklen stride b) \<longleftrightarrow>
     getSize (HVectorDatatype count blocklen stride b) < 2 ^ 31 \<and> fits b"
  by (simp_all add: ctor_defs new_Contiguous_def new_Vector_def new_HVector_def Let_def getSize_def)

lemma ctor_handled:
  "clone b = b \<Longrightarrow> handled pack (ContiguousDatatype count b) = handled pack b"
  "clone b = b \<Longrightarrow> handled pack (VectorDatatype count blocklen stride b) = handled pack b"
  "clone b = b \<Longrightarrow> handled pack (HVectorDatatype count blocklen stride b) = handled pack b"
  by (simp_all add: ctor_defs new_Contiguous_def new_Vector_def new_HVector_def Let_def)

text \<open>A contiguous type or a vector with the type map of \<open>t\<close> has the size of \<open>t\<close>.\<close>

lemma compressed_run:
  assumes bt: "built t'" "regular t'" "mpi t' = mpi t"
    and t: "sound t" "getSize t < 2 ^ 31" and b: "fits b" "\<And>pack. handled pack t \<Longrightarrow> handled pack b"
    and rs: "\<And>pack. resizable pack t \<Longrightarrow> resizable pack t'"
    and run: "fits t' \<longleftrightarrow> getSize t' < 2 ^ 31 \<and> fits b" "\<And>pack. handled pack t' = handled pack b"
  shows "compressed t t'"
proof -
  have "sound t'" using bt(1,2) by (rule built_sound)
  then have "getSize t' = getSize t" using soundD(1) [OF t(1)] soundD(1) [of t'] bt(3) by simp
  then show ?thesis unfolding compressed_def using bt t b rs run by simp
qed

lemma compressed_Contiguous:
  assumes b: "built b" "regular b" "fits b" "\<And>pack. handled pack t \<Longrightarrow> handled pack b"
      "\<And>pack. resizable pack t \<Longrightarrow> (pack) \<and> handled pack b"
    and r: "0 < count" and t: "tm_rep (nat count) (mpi b) = mpi t" "sound t" "getSize t < 2 ^ 31"
  shows "compressed t (ContiguousDatatype count b)"
proof -
  have cl: "clone b = b" using b(1) by (rule clone_built)
  have "resizable pack (ContiguousDatatype count b)" if "resizable pack t" for pack
    using b(5) [OF that] cl by (auto simp: ctor_defs new_Contiguous_def Let_def)
  then show ?thesis
    using b r t by (intro compressed_run [OF _ _ _ t(2,3) b(3,4) _ ctor_fits(1) [OF cl] ctor_handled(1) [OF cl]])
      (simp_all add: ctor_mpi [OF cl] regular_ctors(2-5) [OF cl] built.built_Contiguous)
qed

lemma compressed_Vector:
  assumes b: "built b" "regular b" "fits b" "\<And>pack. handled pack t \<Longrightarrow> handled pack b"
      "\<And>pack. resizable pack t \<Longrightarrow> (pack \<or> stride \<noteq> blocklen) \<and> handled pack b"
    and r: "0 < count" "0 < blocklen" "0 < stride"
    and t: "tm_blocks (map (\<lambda>j. (int j * (stride * tm_extent (mpi b)), tm_rep (nat blocklen) (mpi b))) [0..<nat count]) = mpi t"
      "sound t" "getSize t < 2 ^ 31"
  shows "compressed t (VectorDatatype count blocklen stride b)"
proof -
  have cl: "clone b = b" using b(1) by (rule clone_built)
  have "resizable pack (VectorDatatype count blocklen stride b)" if "resizable pack t" for pack
    using b(5) [OF that] cl by (auto simp: ctor_defs new_Vector_def Let_def)
  then show ?thesis
    using b r t by (intro compressed_run [OF _ _ _ t(2,3) b(3,4) _ ctor_fits(2) [OF cl] ctor_handled(2) [OF cl]])
      (simp_all add: ctor_mpi [OF cl] regular_ctors(2-5) [OF cl] built.built_Vector)
qed

lemma compressed_HVector:
  assumes b: "built b" "regular b" "fits b" "\<And>pack. handled pack t \<Longrightarrow> handled pack b"
      "\<And>pack. resizable pack t \<Longrightarrow> (pack \<or> stride \<noteq> blocklen * getExtent b) \<and> handled pack b"
    and r: "0 < count" "0 < blocklen" "0 < stride"
    and t: "tm_blocks (map (\<lambda>j. (int j * stride, tm_rep (nat blocklen) (mpi b))) [0..<nat count]) = mpi t"
      "sound t" "getSize t < 2 ^ 31"
  shows "compressed t (HVectorDatatype count blocklen stride b)"
proof -
  have cl: "clone b = b" using b(1) by (rule clone_built)
  have "resizable pack (HVectorDatatype count blocklen stride b)" if "resizable pack t" for pack
    using b(5) [OF that] cl by (auto simp: ctor_defs new_HVector_def Let_def)
  then show ?thesis
    using b r t by (intro compressed_run [OF _ _ _ t(2,3) b(3,4) _ ctor_fits(3) [OF cl] ctor_handled(3) [OF cl]])
      (simp_all add: ctor_mpi [OF cl] regular_ctors(2-5) [OF cl] built.built_HVector)
qed

text \<open>A basetype that is a contiguous type, whatever its argument, is merged into the type above it.\<close>

lemma contiguous_parts:
  assumes "built (Contiguous e c s)" "regular (Contiguous e c s)" "fits (Contiguous e c s)"
  shows "built s" "regular s" "fits s" "clone s = s" "0 < c" "sound s"
    "mpi (Contiguous e c s) = tm_rep (nat c) (mpi s)" "getExtent (Contiguous e c s) = c * getExtent s"
    "handled pack (Contiguous e c s) = handled pack s"
proof -
  show s: "built s" using built_subtype [OF assms(1)] by simp
  show r: "regular s" "fits s" "0 < c" using assms by simp_all
  show "clone s = s" using s by (rule clone_built)
  show so: "sound s" using s r(1) by (rule built_sound)
  show "mpi (Contiguous e c s) = tm_rep (nat c) (mpi s)" "handled pack (Contiguous e c s) = handled pack s"
    by simp_all
  show "getExtent (Contiguous e c s) = c * getExtent s"
    using soundD(4) [OF built_sound [OF assms(1,2)]] soundD(4) [OF so] r(3)
      tm_rep_bounds(3) [of "nat c" "mpi s"] soundD(5,6) [OF so] by simp
qed

lemma tm_rep_merge:
  assumes "sound s" "0 < c" "0 < n"
  shows "tm_rep (nat n) (tm_rep (nat c) (mpi s)) = tm_rep (nat (n * c)) (mpi s)"
  using tm_rep_mult [OF soundD(6,5) [OF assms(1)], of "nat n" "nat c"] assms(2,3) by (simp add: nat_mult_distrib)

text \<open>What the methods see of a compressed basetype: it, or the basetype of a contiguous type.\<close>

lemma basetype_cases:
  assumes cb: "compressed b cb"
  obtains (plain) "\<nexists>e n s. cb = Contiguous e n s" | (contiguous) e n s where "cb = Contiguous e n s"
    "built s" "regular s" "fits s" "clone s = s" "0 < n" "sound s" "mpi b = tm_rep (nat n) (mpi s)"
    "\<And>pack. handled pack b \<Longrightarrow> handled pack s" "getExtent cb = n * getExtent s"
proof (cases "\<exists>e n s. cb = Contiguous e n s")
  case True
  then obtain e n s where cb': "cb = Contiguous e n s" by auto
  have c: "built cb" "regular cb" "fits cb" "mpi cb = mpi b" "handled pack b \<Longrightarrow> handled pack cb" for pack
    using cb by (simp_all add: compressed_def)
  note p = contiguous_parts [OF c(1-3) [unfolded cb']]
  have "mpi b = tm_rep (nat n) (mpi s)" using p(7) c(4) unfolding cb' by simp
  moreover have "handled pack s" if "handled pack b" for pack using c(5) [OF that] p(9) unfolding cb' by simp
  ultimately show ?thesis using p(8) by (intro contiguous [OF cb' p(1-6)]) (simp_all add: cb')
qed (use plain in blast)

lemma compress_Contiguous:
  assumes t: "built (Contiguous d count b)" "regular (Contiguous d count b)" "fits (Contiguous d count b)"
    and cb: "compressed b cb"
  shows "\<exists>t'. Contiguous_compress (Contiguous d count b) count cb = Some t' \<and> compressed (Contiguous d count b) t'"
proof -
  let ?t = "Contiguous d count b"
  have so: "sound ?t" using t(1,2) by (rule built_sound)
  have r: "0 < count" "getSize ?t < 2 ^ 31" using t by (simp_all add: getSize_def)
  have plain: "compressed ?t (ContiguousDatatype count cb)"
    using cb r so by (intro compressed_Contiguous) (auto simp: compressed_def)
  from cb show ?thesis
  proof (cases rule: basetype_cases)
    case plain
    then have "Contiguous_compress ?t count cb = check ?t (ContiguousDatatype count cb)"
      by (cases cb) (auto simp: Contiguous_compress_def)
    then show ?thesis using check_compressed [OF \<open>compressed ?t (ContiguousDatatype count cb)\<close> so]
        \<open>compressed ?t (ContiguousDatatype count cb)\<close> by auto
  next
    case p: (contiguous e n s)
    have "compressed ?t (ContiguousDatatype (count * n) s)"
      using p r so tm_rep_merge [OF p(7,6) r(1)] by (intro compressed_Contiguous) auto
    then show ?thesis using plain check_compressed [OF _ so] by (auto simp: Contiguous_compress_def p(1))
  qed
qed


lemma vector_choice:
  assumes b: "built b" "regular b" "fits b" "\<And>pack. handled pack t \<Longrightarrow> handled pack b"
      "\<And>pack. resizable pack t \<Longrightarrow> (pack \<or> stride \<noteq> blocklen) \<and> handled pack b"
    and r: "0 < count" "0 < blocklen" "0 < stride"
    and t: "tm_blocks (map (\<lambda>j. (int j * (stride * tm_extent (mpi b)), tm_rep (nat blocklen) (mpi b))) [0..<nat count]) = mpi t"
      "sound t" "getSize t < 2 ^ 31"
  shows "compressed t (if stride = blocklen then ContiguousDatatype (count * blocklen) (clone b)
    else VectorDatatype count blocklen stride b)"
proof (cases "stride = blocklen")
  case True
  have so: "sound b" using b(1,2) by (rule built_sound)
  have "mpi t = tm_rep (nat count * nat blocklen) (mpi b)"
    using t(1) tm_blocks_as_rep [of "nat blocklen" "mpi b" "nat count"] soundD(5,6) [OF so] r(2) True by simp
  then have "tm_rep (nat (count * blocklen)) (mpi b) = mpi t" using r by (simp add: nat_mult_distrib)
  then have "compressed t (ContiguousDatatype (count * blocklen) b)"
    using b True r t by (intro compressed_Contiguous) auto
  then show ?thesis using True clone_built [OF b(1)] by simp
next
  case False
  then show ?thesis using compressed_Vector [OF b r t] by simp
qed

lemma hvector_choice:
  assumes b: "built b" "regular b" "fits b" "\<And>pack. handled pack t \<Longrightarrow> handled pack b"
      "\<And>pack. resizable pack t \<Longrightarrow> (pack \<or> stride \<noteq> blocklen * getExtent b) \<and> handled pack b"
    and r: "0 < count" "0 < blocklen" "0 < stride"
    and t: "tm_blocks (map (\<lambda>j. (int j * stride, tm_rep (nat blocklen) (mpi b))) [0..<nat count]) = mpi t"
      "sound t" "getSize t < 2 ^ 31"
  shows "compressed t (if stride = blocklen * getExtent (clone b) then ContiguousDatatype (count * blocklen) (clone b)
    else HVectorDatatype count blocklen stride b)"
proof (cases "stride = blocklen * getExtent b")
  case True
  have so: "sound b" using b(1,2) by (rule built_sound)
  have "mpi t = tm_rep (nat count * nat blocklen) (mpi b)"
    using t(1) tm_blocks_as_rep [of "nat blocklen" "mpi b" "nat count"] soundD(4,5,6) [OF so] r(2) True by simp
  then have "tm_rep (nat (count * blocklen)) (mpi b) = mpi t" using r by (simp add: nat_mult_distrib)
  then have "compressed t (ContiguousDatatype (count * blocklen) b)"
    using b True r t by (intro compressed_Contiguous) auto
  then show ?thesis using True clone_built [OF b(1)] by simp
next
  case False
  then show ?thesis using compressed_HVector [OF b r t] clone_built [OF b(1)] by simp
qed


lemma compress_Vector:
  assumes t: "built (Vector d count blocklen stride b)" "regular (Vector d count blocklen stride b)"
      "fits (Vector d count blocklen stride b)" and cb: "compressed b cb"
  shows "\<exists>t'. Vector_compress (Vector d count blocklen stride b) count blocklen stride cb = Some t' \<and>
    compressed (Vector d count blocklen stride b) t'"
proof -
  let ?t = "Vector d count blocklen stride b"
  have so: "sound ?t" and sob: "sound b" using t by (auto intro: built_sound dest: built_subtype [of _ b])
  have r: "0 < count" "0 < blocklen" "0 < stride" "getSize ?t < 2 ^ 31" using t by (simp_all add: getSize_def)
  define plain where "plain = (if stride = blocklen then ContiguousDatatype (count * blocklen) (clone cb)
    else VectorDatatype count blocklen stride cb)"
  have plain: "compressed ?t plain"
    unfolding plain_def using cb r so by (intro vector_choice) (auto simp: compressed_def)
  note plain = plain check_compressed [OF plain so]
  from cb show ?thesis
  proof (cases rule: basetype_cases)
    case 1: plain
    then have "Vector_compress ?t count blocklen stride cb = check ?t plain"
      by (cases cb) (auto simp: Vector_compress_def plain_def)
    then show ?thesis using plain by auto
  next
    case p: (contiguous e n s)
    define merged where "merged = (if stride * n = blocklen * n then ContiguousDatatype (count * (blocklen * n)) (clone s)
      else VectorDatatype count (blocklen * n) (stride * n) s)"
    have "tm_extent (mpi b) = n * tm_extent (mpi s)"
      using tm_rep_bounds(3) [of "nat n" "mpi s"] p(6,8) soundD(5,6) [OF p(7)] by simp
    then have "tm_blocks (map (\<lambda>j. (int j * (stride * n * tm_extent (mpi s)), tm_rep (nat (blocklen * n)) (mpi s))) [0..<nat count]) = mpi ?t"
      using tm_rep_merge [OF p(7,6) r(2)] by (simp add: p(8) mult.assoc)
    then have merged: "compressed ?t merged"
      unfolding merged_def using p r so by (intro vector_choice) auto
    have "Vector_compress ?t count blocklen stride cb = check ?t (if getExtent cb = getSize cb then merged else plain)"
      by (auto simp: Vector_compress_def p(1) merged_def plain_def)
    then show ?thesis using plain merged check_compressed [OF merged so] by auto
  qed
qed

lemma compress_HVector:
  assumes t: "built (HVector d count blocklen stride b)" "regular (HVector d count blocklen stride b)"
      "fits (HVector d count blocklen stride b)" and cb: "compressed b cb"
  shows "\<exists>t'. HVector_compress (HVector d count blocklen stride b) count blocklen stride cb = Some t' \<and>
    compressed (HVector d count blocklen stride b) t'"
proof -
  let ?t = "HVector d count blocklen stride b"
  have so: "sound ?t" and sob: "sound b" using t by (auto intro: built_sound dest: built_subtype [of _ b])
  have r: "0 < count" "0 < blocklen" "0 < stride" "getSize ?t < 2 ^ 31" using t by (simp_all add: getSize_def)
  define plain where "plain = (if stride = blocklen * getExtent (clone cb) then ContiguousDatatype (count * blocklen) (clone cb)
    else HVectorDatatype count blocklen stride cb)"
  have plain: "compressed ?t plain"
    unfolding plain_def using cb r so compressed_dims(3) [OF cb sob] by (intro hvector_choice) (auto simp: compressed_def)
  note plain = plain check_compressed [OF plain so]
  from cb show ?thesis
  proof (cases rule: basetype_cases)
    case 1: plain
    then have "HVector_compress ?t count blocklen stride cb = check ?t plain"
      by (cases cb) (auto simp: HVector_compress_def plain_def)
    then show ?thesis using plain by auto
  next
    case p: (contiguous e n s)
    define merged where "merged = (if stride = blocklen * n * getExtent (clone s)
      then ContiguousDatatype (count * (blocklen * n)) (clone s) else HVectorDatatype count (blocklen * n) stride s)"
    have ext: "getExtent b = n * getExtent s" using p(10) compressed_dims(3) [OF cb sob] by simp
    have "tm_blocks (map (\<lambda>j. (int j * stride, tm_rep (nat (blocklen * n)) (mpi s))) [0..<nat count]) = mpi ?t"
      using tm_rep_merge [OF p(7,6) r(2)] by (simp add: p(8))
    then have merged: "compressed ?t merged"
      unfolding merged_def using p r so ext by (intro hvector_choice) auto
    have "HVector_compress ?t count blocklen stride cb = check ?t (if getExtent cb = getSize cb then merged else plain)"
      by (auto simp: HVector_compress_def p(1) merged_def plain_def)
    then show ?thesis using plain merged check_compressed [OF merged so] by auto
  qed
qed


text \<open>The other types are rebuilt around the compressed basetype; a struct is built again as it is.\<close>

lemma compress_IndexedBlock:
  assumes t: "built (IndexedBlock d count blocklen displs b arr)" "regular (IndexedBlock d count blocklen displs b arr)"
      "fits (IndexedBlock d count blocklen displs b arr)" and cb: "compressed b cb" "compress b = Some cb"
  shows "compressed (IndexedBlock d count blocklen displs b arr) (IndexedBlockDatatype count blocklen displs cb)"
proof -
  let ?t = "IndexedBlock d count blocklen displs b arr" and ?t' = "IndexedBlockDatatype count blocklen displs cb"
  have so: "sound ?t" and sob: "sound b" using t by (auto simp: Let_def intro: built_sound dest: built_subtype [of _ b])
  note c = cb(1) [unfolded compressed_def] and dims = compressed_dims [OF cb(1) sob]
  have cl: "clone cb = cb" using c by (simp add: clone_built)
  have len: "length displs = nat count" using built_lengths [OF t(1)] by simp
  obtain e where e: "?t' = IndexedBlock e count blocklen displs cb None"
    using len cl by (simp add: IndexedBlockDatatype_def new_IndexedBlock_def Let_def)
  have bt: "built ?t'" using c len by (intro built.built_IndexedBlock) auto
  have rg: "regular ?t'" unfolding e using t(2) c dims by (simp add: Let_def)
  have mp: "mpi ?t' = mpi ?t" unfolding e using c by simp
  have "getSize ?t' = getSize ?t" "getExtent ?t' = getExtent ?t"
    using soundD(1,4) [OF so] soundD(1,4) [OF built_sound [OF bt rg]] mp by simp_all
  then have "fits ?t'" using t(3) c unfolding e by (simp add: getSize_def getExtent_def)
  moreover have "handled pack ?t'" if "handled pack ?t" for pack
  proof -
    have "getDatatypeName cb = PRIMITIVE" if "getDatatypeName b = PRIMITIVE"
      using that cb(2) by (cases b) (auto simp: Primitive_compress_def PrimitiveDatatype_def new_Primitive_def Let_def)
    then show ?thesis using that c dims unfolding e by auto
  qed
  ultimately show ?thesis using bt rg mp by (simp add: compressed_def)
qed

lemma compress_HIndexed:
  assumes t: "built (HIndexed d count blocklens displs b)" "regular (HIndexed d count blocklens displs b)"
      "fits (HIndexed d count blocklens displs b)" and cb: "compressed b cb"
  shows "compressed (HIndexed d count blocklens displs b) (HIndexedDatatype count blocklens displs cb)"
proof -
  let ?t = "HIndexed d count blocklens displs b" and ?t' = "HIndexedDatatype count blocklens displs cb"
  have so: "sound ?t" and sob: "sound b" using t by (auto intro: built_sound dest: built_subtype [of _ b])
  note c = cb [unfolded compressed_def] and dims = compressed_dims [OF cb sob]
  have cl: "clone cb = cb" using c by (simp add: clone_built)
  have len: "length displs = nat count" "length blocklens = nat count" using built_lengths [OF t(1)] by simp_all
  obtain e where e: "?t' = HIndexed e count blocklens displs cb"
    using len cl by (simp add: HIndexedDatatype_def new_HIndexed_def Let_def)
  have bt: "built ?t'" using c len by (intro built.built_HIndexed) auto
  have rg: "regular ?t'" unfolding e using t(2) c dims by simp
  have mp: "mpi ?t' = mpi ?t" unfolding e using c by simp
  have "getSize ?t' = getSize ?t" "getExtent ?t' = getExtent ?t"
    using soundD(1,4) [OF so] soundD(1,4) [OF built_sound [OF bt rg]] mp by simp_all
  then have "fits ?t'" using t(3) c unfolding e by (simp add: getSize_def getExtent_def)
  then show ?thesis using bt rg mp c unfolding e by (simp add: compressed_def)
qed

lemma compress_Resized:
  assumes t: "built (Resized d b)" "regular (Resized d b)" "fits (Resized d b)" and cb: "compressed b cb"
  shows "compressed (Resized d b) (ResizedDatatype cb (lower_bound d) (upper_bound d - lower_bound d))"
proof -
  let ?t = "Resized d b" and ?t' = "ResizedDatatype cb (lower_bound d) (upper_bound d - lower_bound d)"
  have so: "sound ?t" and sob: "sound b" using t by (auto intro: built_sound dest: built_subtype [of _ b])
  note c = cb [unfolded compressed_def] and dims = compressed_dims [OF cb sob]
  have cl: "clone cb = cb" using c by (simp add: clone_built)
  obtain e where e: "?t' = Resized e cb" "lower_bound e = lower_bound d" "upper_bound e = upper_bound d"
    using cl by (simp add: ResizedDatatype_def new_Resized_def Let_def)
  have bt: "built ?t'" using c by (intro built.built_Resized) auto
  have rg: "regular ?t'" unfolding e(1) using t(2) c e(2,3) by simp
  have mp: "mpi ?t' = mpi ?t" unfolding e(1) using c e(2,3) by simp
  have "getSize ?t' = getSize ?t"
    using soundD(1,4) [OF so] soundD(1,4) [OF built_sound [OF bt rg]] mp by simp_all
  then have "fits ?t'" using t(3) c unfolding e(1) by (simp add: getSize_def)
  then show ?thesis using bt rg mp c unfolding e(1) by (simp add: compressed_def)
qed

lemma compressed_refl: "built t \<Longrightarrow> regular t \<Longrightarrow> fits t \<Longrightarrow> compressed t t"
  by (simp add: compressed_def)

lemma those_map_Some: "\<forall>x \<in> set xs. f x \<noteq> None \<Longrightarrow> those (map f xs) \<noteq> None"
  by (induction xs) (auto split: option.splits)

text \<open>The asserts of \<open>compress\<close> never fail, and the result has the type map of the datatype.\<close>

lemma compress_correct:
  "built t \<Longrightarrow> regular t \<Longrightarrow> fits t \<Longrightarrow> \<exists>t'. compress t = Some t' \<and> compressed t t'"
proof (induction t rule: measure_induct_rule [of size])
  case (less t)
  have sub: "\<exists>c. compress s = Some c \<and> compressed s c"
    if "s \<in> set (getSubtypes t)" "regular s" "fits s" for s
    using less.IH [OF size_subtype [OF that(1)] built_subtype [OF less.prems(1) that(1)] that(2,3)] .
  show ?case
  proof (cases t)
    case (Primitive d type)
    then have "clone t = PrimitiveDatatype type" by (simp add: PrimitiveDatatype_def)
    then show ?thesis using less.prems Primitive clone_built [OF less.prems(1)] compressed_refl
      by (simp add: Primitive_compress_def)
  next
    case (Contiguous d count b)
    then show ?thesis using sub [of b] less.prems compress_Contiguous by fastforce
  next
    case (Vector d count blocklen stride b)
    then show ?thesis using sub [of b] less.prems compress_Vector by fastforce
  next
    case (HVector d count blocklen stride b)
    then show ?thesis using sub [of b] less.prems compress_HVector by fastforce
  next
    case (IndexedBlock d count blocklen displs b arr)
    then show ?thesis using sub [of b] less.prems compress_IndexedBlock
      by (fastforce simp: IndexedBlock_compress_def Let_def)
  next
    case (HIndexed d count blocklens displs b)
    then show ?thesis using sub [of b] less.prems compress_HIndexed by (fastforce simp: HIndexed_compress_def)
  next
    case (Struct d count blocklens displs bs)
    have bs: "\<forall>b \<in> set bs. built b \<and> compress b \<noteq> None"
      using sub less.prems built_subtype [OF less.prems(1)] by (fastforce simp: Struct list_all_iff)
    then have "those (map compress bs) \<noteq> None" by (intro those_map_Some) auto
    moreover have "StructDatatype count blocklens displs bs = clone t"
      by (simp add: StructDatatype_def Struct)
    ultimately have "compress t = Some t"
      using clone_built [OF less.prems(1)] by (auto simp: Struct Struct_compress_def)
    then show ?thesis using less.prems compressed_refl by auto
  next
    case (Resized d b)
    then show ?thesis using sub [of b] less.prems compress_Resized by (fastforce simp: Resized_compress_def)
  qed
qed

end
