(* ===== verification/DDT_Correct.thy ===== *)
theory DDT_Correct
  imports Compress_Correct
begin

text \<open>
  What DDT\_Commit, DDT\_Pack and DDT\_Unpack do to the bytes of the buffers, and the
  interface \<open>marshalling\<close> under which their clients see them.
\<close>

section \<open>Typed buffers\<close>

text \<open>
  A typed buffer at \<open>p\<close> has its bytes at the displacements \<open>D\<close>; a packed buffer of \<open>n\<close>
  bytes at \<open>q\<close> has them in a row.  The value of either is the list of its bytes.
\<close>

definition data_at :: "i64 \<Rightarrow> int list \<Rightarrow> i64 list" where
  "data_at p D = map (\<lambda>d. p + word_of_int d) D"

definition run_at :: "i64 \<Rightarrow> nat \<Rightarrow> i64 list" where
  "run_at q n = map (\<lambda>i. q + of_nat i) [0..<n]"

definition bytes_of :: "mem \<Rightarrow> i64 list \<Rightarrow> byte option list" where
  "bytes_of m as = map m as"

definition separate :: "mem \<Rightarrow> i64 \<Rightarrow> int list \<Rightarrow> i64 \<Rightarrow> bool" where
  "separate m p D q \<longleftrightarrow> list_all (\<lambda>a. m a \<noteq> None) (data_at p D) \<and>
     list_all (\<lambda>a. m a \<noteq> None \<and> a \<notin> set (data_at p D)) (run_at q (length D))"

text \<open>\<open>m'\<close> is \<open>m\<close> with the bytes at the addresses \<open>as\<close> replaced by \<open>bs\<close>.\<close>

definition written :: "mem \<Rightarrow> i64 list \<Rightarrow> byte option list \<Rightarrow> mem \<Rightarrow> bool" where
  "written m as bs m' \<longleftrightarrow> bytes_of m' as = bs \<and> (\<forall>a. a \<in> set as \<or> m' a = m a)"

lemma length_at [simp]: "length (data_at p D) = length D" "length (run_at q n) = n"
  by (simp_all add: data_at_def run_at_def)

lemma moves_zip:
  "moves pack s c D = (if pack then zip (run_at c (length D)) (data_at s D) else zip (data_at s D) (run_at c (length D)))"
proof (induction D arbitrary: c)
  case (Cons d D)
  have "run_at c (Suc n) = c # run_at (c + 1) n" for n
    by (simp add: run_at_def map_upt_Suc add.assoc del: upt_Suc)
  then show ?case using Cons by (simp add: data_at_def)
qed (simp add: data_at_def run_at_def)

lemma xfer_zip:
  "xfer True p q D = zip (run_at q (length D)) (data_at p D)"
  "xfer False p q D = zip (data_at q D) (run_at p (length D))"
  by (simp_all add: xfer_def moves_zip)

lemma set_zip_fst_snd: "length as = length bs \<Longrightarrow> fst ` set (zip as bs) = set as \<and> snd ` set (zip as bs) = set bs"
  by (metis list.set_map map_fst_zip map_snd_zip)

lemma copyable_zip:
  assumes "length as = length bs"
  shows "copyable (zip as bs) m \<longleftrightarrow> set as \<subseteq> dom m \<and> set bs \<subseteq> dom m \<and> set as \<inter> set bs = {}"
proof -
  have "allocated (zip as bs) m \<longleftrightarrow> fst ` set (zip as bs) \<subseteq> dom m \<and> snd ` set (zip as bs) \<subseteq> dom m"
    by (fastforce simp: allocated_def)
  then show ?thesis using set_zip_fst_snd [OF assms] by (auto simp: copyable_def noalias_def)
qed

lemma copyable_separate:
  "copyable (xfer True p q D) m \<longleftrightarrow> separate m p D q" "copyable (xfer False q p D) m \<longleftrightarrow> separate m p D q"
  by (auto simp: xfer_zip copyable_zip separate_def list_all_iff)

lemma cps_zip:
  assumes "length as = length bs" "distinct as" "set as \<inter> set bs = {}"
  shows "written m as (bytes_of m bs) (cps (zip as bs) m)"
proof -
  have na: "noalias (zip as bs)" using assms set_zip_fst_snd [OF assms(1)] by (auto simp: noalias_def)
  have "cps (zip as bs) m (as ! i) = m (bs ! i)" if "i < length as" for i
  proof -
    have dis: "distinct (map fst (rev (zip as bs)))" using assms by (simp add: rev_map [symmetric])
    have "(as ! i, bs ! i) \<in> set (rev (zip as bs))" using that assms(1) by (auto simp: set_zip)
    then show ?thesis using map_of_is_SomeI [OF dis] cps_read [OF na] by simp
  qed
  then have "bytes_of (cps (zip as bs) m) as = bytes_of m bs"
    using assms(1) by (intro nth_equalityI) (auto simp: bytes_of_def)
  moreover have "a \<in> set as \<or> cps (zip as bs) m a = m a" for a
    using cps_outside [of a "zip as bs" m] set_zip_fst_snd [OF assms(1)] by auto
  ultimately show ?thesis by (simp add: written_def)
qed

lemma distinct_run: "n < 2 ^ 64 \<Longrightarrow> distinct (run_at q n)"
  unfolding run_at_def distinct_map by (auto intro!: inj_onI simp: of_nat_eq_64)

lemma packed_bytes:
  assumes "separate m p D q" "length D < 2 ^ 64"
  shows "written m (run_at q (length D)) (bytes_of m (data_at p D)) (cps (xfer True p q D) m)"
  using assms distinct_run unfolding xfer_zip by (intro cps_zip) (auto simp: separate_def list_all_iff)

lemma unpacked_bytes:
  assumes "separate m p D q" "distinct (data_at p D)"
  shows "written m (data_at p D) (bytes_of m (run_at q (length D))) (cps (xfer False q p D) m)"
  using assms unfolding xfer_zip by (intro cps_zip) (auto simp: separate_def list_all_iff)

section \<open>DDT_Commit, DDT_Pack and DDT_Unpack\<close>

lemma commit_ready:
  assumes t: "built t" "regular t" "fits t"
  obtains t' llmod' where "DDT_Commit t llmod = Some \<lparr>fpack = build_function (code_of True t'),
      funpack = build_function (code_of False t'), module_globals = llmod'\<rparr>"
    "\<And>pack. handled pack t \<Longrightarrow> ready pack llmod' t'" "lay t' = lay t"
proof -
  obtain c where c: "compress t = Some c" "compressed t c" using compress_correct [OF t] by auto
  obtain t' G' where g: "globalCodegen c llmod = (t', G')" by force
  have cc: "built c" "regular c" "fits c" "mpi c = mpi t" "handled pack t \<Longrightarrow> handled pack c" for pack
    using c(2) by (simp_all add: compressed_def)
  have b: "built (erase c)" using cc(1) by (simp add: erase_built)
  show ?thesis
  proof (rule that)
    show "DDT_Commit t llmod = Some \<lparr>fpack = build_function (code_of True t'),
        funpack = build_function (code_of False t'), module_globals = G'\<rparr>"
      by (simp add: DDT_Commit_def compile_def c(1) g code_of_def)
    show "ready pack G' t'" if "handled pack t" for pack
      using globalCodegen_ready(1) [OF cc(1,2,3) cc(5) [OF that] g] .
    have "erase t' = c" using globalCodegen_tables(1) [OF b g] cc(1) by (simp add: erase_built)
    then have "mpi t' = mpi t" using mpi_erase [of t'] cc(4) by simp
    then show "lay t' = lay t" by (simp add: lay_def fun_eq_iff)
  qed
qed

lemma pack_copies:
  assumes t: "built t" "regular t" "fits t" "handled True t" and c: "DDT_Commit t llmod = Some c"
    and n: "0 <s count" "copyable (xfer True inbuf outbuf (lay t (unat count))) m"
  shows "\<exists>k. \<forall>j \<ge> k. DDT_Pack j inbuf outbuf c count m = Some (cps (xfer True inbuf outbuf (lay t (unat count))) m)"
proof -
  obtain t' G' where r: "c = \<lparr>fpack = build_function (code_of True t'), funpack = build_function (code_of False t'), module_globals = G'\<rparr>"
    "ready True G' t'" "lay t' = lay t"
    using commit_ready [OF t(1-3), of llmod] c t(4) by (metis option.inject)
  then show ?thesis using ready_call [OF r(2) n(1), of inbuf outbuf m] n(2) by (simp add: DDT_Pack_def)
qed

lemma unpack_copies:
  assumes t: "built t" "regular t" "fits t" "handled False t" and c: "DDT_Commit t llmod = Some c"
    and n: "0 <s count" "copyable (xfer False inbuf outbuf (lay t (unat count))) m"
  shows "\<exists>k. \<forall>j \<ge> k. DDT_Unpack j inbuf outbuf c count m = Some (cps (xfer False inbuf outbuf (lay t (unat count))) m)"
proof -
  obtain t' G' where r: "c = \<lparr>fpack = build_function (code_of True t'), funpack = build_function (code_of False t'), module_globals = G'\<rparr>"
    "ready False G' t'" "lay t' = lay t"
    using commit_ready [OF t(1-3), of llmod] c t(4) by (metis option.inject)
  then show ?thesis using ready_call [OF r(2) n(1), of inbuf outbuf m] n(2) by (simp add: DDT_Unpack_def)
qed


section \<open>The interface of a datatype engine\<close>

text \<open>
  What a client of DDT\_Pack and DDT\_Unpack relies on: packing puts the bytes of the
  typed buffer in a row and touches nothing else, unpacking puts them back.
\<close>

locale marshalling =
  fixes pack unpack :: "nat \<Rightarrow> i64 \<Rightarrow> i64 \<Rightarrow> 'c \<Rightarrow> i32 \<Rightarrow> mem \<Rightarrow> mem option"
    and layout :: "'c \<Rightarrow> nat \<Rightarrow> int list" and packs unpacks :: "'c \<Rightarrow> bool"
  assumes pack_spec: "\<lbrakk>packs c; 0 <s count; separate m p (layout c (unat count)) q\<rbrakk> \<Longrightarrow>
      \<exists>m' k. (\<forall>j \<ge> k. pack j p q c count m = Some m') \<and>
        written m (run_at q (length (layout c (unat count)))) (bytes_of m (data_at p (layout c (unat count)))) m'"
    and unpack_spec: "\<lbrakk>unpacks c; 0 <s count; separate m p (layout c (unat count)) q;
      distinct (data_at p (layout c (unat count)))\<rbrakk> \<Longrightarrow>
      \<exists>m' k. (\<forall>j \<ge> k. unpack j q p c count m = Some m') \<and>
        written m (data_at p (layout c (unat count))) (bytes_of m (run_at q (length (layout c (unat count))))) m'"
begin

text \<open>Packing from \<open>p\<close> and unpacking to \<open>r\<close> copies the typed buffer.\<close>

lemma copy_typed:
  assumes c: "packs c" "unpacks c" and count: "0 <s count"
    and s: "separate m p (layout c (unat count)) q" "separate m r (layout c (unat count)) q"
    and d: "distinct (data_at r (layout c (unat count)))"
  shows "\<exists>m1 m2 k. (\<forall>j \<ge> k. pack j p q c count m = Some m1 \<and> unpack j q r c count m1 = Some m2) \<and>
    bytes_of m2 (data_at r (layout c (unat count))) = bytes_of m (data_at p (layout c (unat count)))"
proof -
  let ?D = "layout c (unat count)"
  obtain m1 k1 where 1: "\<forall>j \<ge> k1. pack j p q c count m = Some m1"
    "written m (run_at q (length ?D)) (bytes_of m (data_at p ?D)) m1"
    using pack_spec [OF c(1) count s(1)] by blast
  have "m1 a \<noteq> None" if "m a \<noteq> None" for a
  proof (cases "a \<in> set (run_at q (length ?D))")
    case True
    then obtain i where i: "i < length ?D" "a = run_at q (length ?D) ! i" by (auto simp: in_set_conv_nth)
    then have "m1 a = m (data_at p ?D ! i)"
      using 1(2) by (auto simp: written_def bytes_of_def list_eq_iff_nth_eq)
    then show ?thesis using s(1) i(1) by (simp add: separate_def list_all_length)
  next
    case False
    then show ?thesis using 1(2) that by (auto simp: written_def)
  qed
  then have "separate m1 r ?D q" using s(2) by (auto simp: separate_def list_all_iff)
  then obtain m2 k2 where 2: "\<forall>j \<ge> k2. unpack j q r c count m1 = Some m2"
    "written m1 (data_at r ?D) (bytes_of m1 (run_at q (length ?D))) m2"
    using unpack_spec [OF c(2) count _ d] by blast
  have "\<forall>j \<ge> max k1 k2. pack j p q c count m = Some m1 \<and> unpack j q r c count m1 = Some m2"
    using 1(1) 2(1) by simp
  then show ?thesis using 1(2) 2(2) unfolding written_def by metis
qed

end

text \<open>A datatype with the code DDT\_Commit made for it, in any module.\<close>

definition committed :: "bool \<Rightarrow> ddt \<times> compiled \<Rightarrow> bool" where
  "committed pack tc \<longleftrightarrow> (case tc of (t, c) \<Rightarrow> built t \<and> regular t \<and> fits t \<and> handled pack t \<and>
     (\<exists>llmod. DDT_Commit t llmod = Some c))"

lemma length_lay_64: "sound t \<Longrightarrow> getSize t < 2 ^ 31 \<Longrightarrow> length (lay t (unat (count :: i32))) < 2 ^ 64"
proof -
  assume t: "sound t" "getSize t < 2 ^ 31"
  have "int (unat count) * getSize t \<le> 2 ^ 32 * 2 ^ 31"
    using uint_bounded [of count] t(2) size_pos [OF t(1)] by (intro mult_mono) auto
  then have "int (length (lay t (unat count))) < int (2 ^ 64)" using length_lay [OF t(1)] by simp
  then show ?thesis by (simp only: of_nat_less_iff)
qed

lemma size_fits: "sound t \<Longrightarrow> fits t \<Longrightarrow> getSize t < 2 ^ 31"
proof (cases t)
  case (Primitive d type)
  then show "sound t \<Longrightarrow> getSize t < 2 ^ 31" using soundD(1) [of t] by (cases type) (auto simp: Let_def)
qed (simp_all add: getSize_def)

interpretation ddt: marshalling "\<lambda>j p q tc. DDT_Pack j p q (snd tc)" "\<lambda>j p q tc. DDT_Unpack j p q (snd tc)"
  "\<lambda>tc. lay (fst tc)" "committed True" "committed False"
proof unfold_locales
  fix tc :: "ddt \<times> compiled" and count :: i32 and m p q
  assume c: "committed True tc" and n: "0 <s count" and s: "separate m p (lay (fst tc) (unat count)) q"
  obtain t llmod where t: "tc = (t, snd tc)" "built t" "regular t" "fits t" "handled True t" "DDT_Commit t llmod = Some (snd tc)"
    using c by (cases tc) (auto simp: committed_def)
  have so: "sound t" using t(2,3) by (rule built_sound)
  have s': "separate m p (lay t (unat count)) q" using s t(1) by (metis fst_conv)
  show "\<exists>m' k. (\<forall>j \<ge> k. DDT_Pack j p q (snd tc) count m = Some m') \<and>
      written m (run_at q (length (lay (fst tc) (unat count)))) (bytes_of m (data_at p (lay (fst tc) (unat count)))) m'"
    using pack_copies [OF t(2-6) n] s' packed_bytes [OF s' length_lay_64 [OF so size_fits [OF so t(4)]]] t(1)
    unfolding copyable_separate by (metis fst_conv)
next
  fix tc :: "ddt \<times> compiled" and count :: i32 and m p q
  assume c: "committed False tc" and n: "0 <s count" and s: "separate m p (lay (fst tc) (unat count)) q"
    and d: "distinct (data_at p (lay (fst tc) (unat count)))"
  obtain t llmod where t: "tc = (t, snd tc)" "built t" "regular t" "fits t" "handled False t" "DDT_Commit t llmod = Some (snd tc)"
    using c by (cases tc) (auto simp: committed_def)
  have s': "separate m p (lay t (unat count)) q" "distinct (data_at p (lay t (unat count)))" using s d t(1) by (metis fst_conv)+
  show "\<exists>m' k. (\<forall>j \<ge> k. DDT_Unpack j q p (snd tc) count m = Some m') \<and>
      written m (data_at p (lay (fst tc) (unat count))) (bytes_of m (run_at q (length (lay (fst tc) (unat count))))) m'"
    using unpack_copies [OF t(2-6) n] s' unpacked_bytes [OF s'] t(1)
    unfolding copyable_separate by (metis fst_conv)
qed

end
