(* ===== verification/Limits.thy ===== *)
theory Limits
  imports DDT_Correct
begin

text \<open>
  Where the code departs from the MPI standard: resized types, strides that are not
  positive, block lengths of indexed blocks, bounds of structs.
\<close>

section \<open>Resized types\<close>

lemma compress_Resized_shape:
  assumes c: "DDT_Commit (ResizedDatatype b lb ext) llmod = Some c" and b: "clone b = b"
  shows "\<exists>cb t' G'. compress b = Some cb \<and>
     globalCodegen (ResizedDatatype cb lb ext) llmod = (t', G') \<and>
     c = \<lparr>fpack = build_function (packCodegen t'), funpack = build_function (unpackCodegen t'), module_globals = G'\<rparr>"
proof -
  have "compress (ResizedDatatype b lb ext) = map_option (\<lambda>cb. ResizedDatatype cb lb ext) (compress b)"
    using b by (cases "compress b") (simp_all add: ResizedDatatype_def new_Resized_def Resized_compress_def)
  then obtain cb where cb: "compress b = Some cb"
    "c = (let (ddt, llmod) = globalCodegen (ResizedDatatype cb lb ext) llmod
       in \<lparr>fpack = build_function (packCodegen ddt), funpack = build_function (unpackCodegen ddt), module_globals = llmod\<rparr>)"
    using c by (auto simp: DDT_Commit_def compile_def)
  then show ?thesis by (cases "globalCodegen (ResizedDatatype cb lb ext) llmod") simp
qed

lemma resized_same_code:
  assumes "getDatatypeName b = PRIMITIVE \<or> getDatatypeName b = CONTIGUOUS"
  shows "unpackCodegen (Resized d b) = packCodegen (Resized d b)"
  using assms by (cases b) (auto simp: Resized_packCodegen_def Resized_unpackCodegen_def fun_eq_iff)

lemma resized_no_code:
  assumes "getDatatypeName b \<in> {INDEXEDBLOCK, HINDEXED, STRUCT, RESIZED}"
  shows "packCodegen (Resized d b) a i o' = State_Monad.return ()" "unpackCodegen (Resized d b) a i o' = State_Monad.return ()"
  using assms by (cases b; auto simp: Resized_packCodegen_def Resized_unpackCodegen_def)+

lemma globalCodegen_name: "getDatatypeName (fst (globalCodegen t G)) = getDatatypeName t"
  by (cases t) (auto simp: apfst_def map_prod_def IndexedBlock_globalCodegen_def split: prod.splits)

lemma compress_name:
  "compress b = Some cb \<Longrightarrow> getDatatypeName b \<in> {PRIMITIVE, CONTIGUOUS, INDEXEDBLOCK, HINDEXED, STRUCT, RESIZED} \<Longrightarrow>
     getDatatypeName cb = getDatatypeName b"
  by (cases b) (auto simp: Primitive_compress_def Contiguous_compress_def IndexedBlock_compress_def HIndexed_compress_def
      Struct_compress_def Resized_compress_def check_def ctor_defs new_Primitive_def new_Contiguous_def new_IndexedBlock_def
      new_HIndexed_def new_Struct_def new_Resized_def Let_def split: Option.bind_splits if_splits option.splits ddt.splits)

lemma committed_resized:
  assumes c: "DDT_Commit (ResizedDatatype b lb ext) llmod = Some c" and b: "built b"
    and n: "getDatatypeName b \<in> {PRIMITIVE, CONTIGUOUS, INDEXEDBLOCK, HINDEXED, STRUCT, RESIZED}"
  obtains d b' G' where "getDatatypeName b' = getDatatypeName b"
    "c = \<lparr>fpack = build_function (packCodegen (Resized d b')), funpack = build_function (unpackCodegen (Resized d b')), module_globals = G'\<rparr>"
proof -
  obtain cb t' G' where cb: "compress b = Some cb" "globalCodegen (ResizedDatatype cb lb ext) llmod = (t', G')"
    "c = \<lparr>fpack = build_function (packCodegen t'), funpack = build_function (unpackCodegen t'), module_globals = G'\<rparr>"
    using compress_Resized_shape [OF c clone_built [OF b]] by blast
  obtain d where d: "t' = Resized d (fst (globalCodegen (clone cb) llmod))"
    using cb(2) by (auto simp: ResizedDatatype_def new_Resized_def apfst_def map_prod_def split: prod.splits)
  have "getDatatypeName (clone cb) = getDatatypeName cb"
    by (cases cb) (auto simp: new_Primitive_def new_Contiguous_def new_Vector_def new_HVector_def new_IndexedBlock_def
        new_HIndexed_def new_Struct_def new_Resized_def Let_def)
  then have "getDatatypeName (fst (globalCodegen (clone cb) llmod)) = getDatatypeName b"
    using compress_name [OF cb(1) n] globalCodegen_name by simp
  then show ?thesis using that cb(3) d by blast
qed

text \<open>
  C36: The function DDT\_Unpack calls for a resized primitive or a resized contiguous type is
  the one DDT\_Pack calls: unpackCodegen emits the code that packs.
\<close>

theorem resized_unpack_is_pack:
  assumes "built b" "getDatatypeName b = PRIMITIVE \<or> getDatatypeName b = CONTIGUOUS"
    and "DDT_Commit (ResizedDatatype b lb ext) llmod = Some c"
  shows "DDT_Unpack k inbuf outbuf c count m = DDT_Pack k inbuf outbuf c count m"
proof -
  obtain d b' G' where c: "getDatatypeName b' = getDatatypeName b"
    "c = \<lparr>fpack = build_function (packCodegen (Resized d b')), funpack = build_function (unpackCodegen (Resized d b')), module_globals = G'\<rparr>"
    using committed_resized [OF assms(3,1)] assms(2) by (metis insert_iff)
  then show ?thesis
    using resized_same_code [of b' d] assms(2) by (simp add: DDT_Pack_def DDT_Unpack_def)
qed

theorem resized_unpack_is_pack_witness:
  "\<exists>k m'. DDT_Unpack k 0 64 (the (DDT_Commit (ResizedDatatype (PrimitiveDatatype INTEGER) 0 8) [])) 2
       (\<lambda>a. if a < 128 then Some (ucast a) else None) = Some m' \<and> bytes_of m' (run_at 64 8) = map Some [0, 1, 2, 3, 8, 9, 10, 11]"
proof -
  let ?t = "ResizedDatatype (PrimitiveDatatype INTEGER) 0 8" and ?m = "\<lambda>a :: i64. if a < 128 then Some (ucast a :: byte) else None"
  have t: "built ?t" by (simp add: built.intros)
  have ok: "regular ?t" "fits ?t" "handled True ?t" by code_simp+
  obtain c where c: "DDT_Commit ?t [] = Some c" using commit_ready [OF t ok(1,2), of "[]"] by blast
  have lay: "lay ?t 2 = [0, 1, 2, 3, 8, 9, 10, 11]" by code_simp
  have run: "separate ?m 0 [0, 1, 2, 3, 8, 9, 10, 11] 64" "(0 :: i32) <s 2"
    "bytes_of ?m (data_at 0 [0, 1, 2, 3, 8, 9, 10, 11]) = map Some [0, 1, 2, 3, 8, 9, 10, 11]" by code_simp+
  have eight: "run_at x (Suc (Suc (Suc (Suc (Suc (Suc (Suc (Suc 0)))))))) = run_at x 8" for x :: i64 by (simp add: eval_nat_numeral)
  have "committed True (?t, c)" using t ok c by (auto simp: committed_def)
  from ddt.pack_spec [OF this run(2), of ?m 0 64] run(1) obtain m' k where
    p: "\<forall>j \<ge> k. DDT_Pack j 0 64 c 2 ?m = Some m'" "written ?m (run_at 64 8) (map Some [0, 1, 2, 3, 8, 9, 10, 11]) m'"
    by (auto simp: run(3) lay eight)
  have "getDatatypeName (PrimitiveDatatype INTEGER) = PRIMITIVE" by code_simp
  then have "DDT_Unpack k 0 64 c 2 ?m = Some m'"
    using resized_unpack_is_pack [OF built_Primitive _ c, of k 0 64 2 ?m] p(1) by simp
  moreover have "bytes_of m' (run_at 64 8) = map Some [0, 1, 2, 3, 8, 9, 10, 11]" using p(2) by (simp add: written_def)
  ultimately show ?thesis using c by (intro exI [of _ k] exI [of _ m']) simp
qed

text \<open>
  C37: For a resized indexed block, hindexed, struct or resized type no code is emitted: packing
  and unpacking return with the memory as it was.
\<close>

theorem resized_moves_nothing:
  assumes "built b" "getDatatypeName b \<in> {INDEXEDBLOCK, HINDEXED, STRUCT, RESIZED}"
    and "DDT_Commit (ResizedDatatype b lb ext) llmod = Some c"
  shows "DDT_Pack (k + 2) inbuf outbuf c count m = Some m \<and> DDT_Unpack (k + 2) inbuf outbuf c count m = Some m"
proof -
  obtain d b' G' where c: "getDatatypeName b' = getDatatypeName b"
    "c = \<lparr>fpack = build_function (packCodegen (Resized d b')), funpack = build_function (unpackCodegen (Resized d b')), module_globals = G'\<rparr>"
    using committed_resized [OF assms(3,1)] assms(2) by (metis insert_iff)
  have none: "build_function (packCodegen (Resized d b')) = build_function (\<lambda>_ _ _. State_Monad.return ())"
    "build_function (unpackCodegen (Resized d b')) = build_function (\<lambda>_ _ _. State_Monad.return ())"
    using resized_no_code [of b' d] assms(2) c(1) by (simp_all add: build_function_def)
  have "call G (build_function (\<lambda>_ _ _. State_Monad.return ())) (k + 2) inbuf count outbuf m = Some m" for G
    by (simp add: call_def build_function_def CreateRetVoid_def createFunctionHeader_def set_terminator_def empty_block_def numeral_2_eq_2)
  then show ?thesis using none c(2) by (simp add: DDT_Pack_def DDT_Unpack_def)
qed

theorem resized_moves_nothing_witness:
  "DDT_Pack 2 0 64 (the (DDT_Commit (ResizedDatatype (ResizedDatatype (PrimitiveDatatype INTEGER) 0 8) 0 16) [])) 2 [0 \<mapsto> 1] = Some [0 \<mapsto> 1]"
proof -
  let ?b = "ResizedDatatype (PrimitiveDatatype INTEGER) 0 8"
  have b: "built ?b" by (simp add: built.intros)
  have "DDT_Commit (ResizedDatatype ?b 0 16) [] \<noteq> None"
  proof (rule commit_ready [of "ResizedDatatype ?b 0 16" "[]"])
    show "built (ResizedDatatype ?b 0 16)" by (simp add: built.intros)
    show "regular (ResizedDatatype ?b 0 16)" "fits (ResizedDatatype ?b 0 16)" by code_simp+
  qed auto
  moreover have "getDatatypeName ?b = RESIZED" by code_simp
  ultimately show ?thesis
    using resized_moves_nothing [OF b, of 0 16 "[]" _ 0 0 64 2 "[0 \<mapsto> 1]"] by (auto simp: numeral_2_eq_2)
qed


section \<open>Bounds and sizes\<close>

lemma tm_steps_down:
  fixes n :: nat and step :: int
  assumes "0 < n" "step \<le> 0" "tm_bytes m \<noteq> []"
  defines "M \<equiv> tm_blocks (map (\<lambda>i. (int i * step, m)) [0..<n])"
  shows "tm_lb M = tm_lb m + int (n - 1) * step" "tm_ub M = tm_ub m"
proof -
  have ne: "map (\<lambda>i. (int i * step, m)) [0..<n] \<noteq> []" "\<forall>(d, m) \<in> set (map (\<lambda>i. (int i * step, m)) [0..<n]). tm_bytes m \<noteq> []"
    using assms by auto
  have le: "int (n - 1) * step \<le> int i * step" if "i < n" for i
    using that assms(2) by (intro mult_right_mono_neg) auto
  have "Min ((\<lambda>i. int i * step + tm_lb m) ` {0..<n}) = tm_lb m + int (n - 1) * step"
  proof (rule Min_eqI)
    show "tm_lb m + int (n - 1) * step \<in> (\<lambda>i. int i * step + tm_lb m) ` {0..<n}"
      using assms(1) by (intro image_eqI [where x = "n - 1"]) auto
  qed (use le in auto)
  then show "tm_lb M = tm_lb m + int (n - 1) * step"
    unfolding M_def tm_blocks_bounds(1) [OF ne] by (simp add: image_image)
  have le0: "int i * step \<le> 0" for i using assms(2) by (simp add: mult_nonneg_nonpos)
  have "Max ((\<lambda>i. int i * step + tm_ub m) ` {0..<n}) = tm_ub m"
    using assms(1) le0 by (intro Max_eqI) (auto intro: image_eqI [where x = 0])
  then show "tm_ub M = tm_ub m"
    unfolding M_def tm_blocks_bounds(2) [OF ne] by (simp add: image_image)
qed

lemma strided_down:
  fixes step :: int
  assumes b: "sound b" and pos: "0 < count" "0 < blocklen" "step \<le> 0"
  defines "M \<equiv> tm_blocks (map (\<lambda>j. (int j * step, tm_rep (nat blocklen) (mpi b))) [0..<nat count])"
  shows "tm_lb M = getLowerBound b + step * (count - 1)" "tm_ub M = getUpperBound b + (blocklen - 1) * getExtent b"
proof -
  have n: "0 < nat count" "0 < nat blocklen" using pos by auto
  note b = soundD [OF b]
  note r = tm_rep_bounds [OF n(2) order.strict_implies_order [OF b(6)] b(5)]
  have ne: "tm_bytes (tm_rep (nat blocklen) (mpi b)) \<noteq> []" using n b(5) by simp
  note st = tm_steps_down [OF n(1) pos(3) ne, folded M_def]
  show "tm_lb M = getLowerBound b + step * (count - 1)" "tm_ub M = getUpperBound b + (blocklen - 1) * getExtent b"
    using st r b(2,3,4) pos by (simp_all add: of_nat_diff)
qed

text \<open>
  C38: With a stride that is not positive the constructor of a vector stores a lower bound that
  is above the one of the MPI standard by the extent of a block.
\<close>

theorem vector_negative_stride:
  assumes b: "built b" "regular b" and pos: "0 < count" "0 < blocklen" "stride \<le> 0"
  shows "getLowerBound (VectorDatatype count blocklen stride b) =
      tm_lb (mpi (VectorDatatype count blocklen stride b)) + blocklen * getExtent b"
proof -
  have so: "sound b" using b by (rule built_sound)
  have cl: "clone b = b" using b(1) by (rule clone_built)
  have step: "stride * tm_extent (mpi b) \<le> 0" using pos(3) soundD(6) [OF so] by (simp add: mult_nonpos_nonneg)
  have "tm_lb (mpi (VectorDatatype count blocklen stride b)) = getLowerBound b + stride * getExtent b * (count - 1)"
    unfolding ctor_mpi(2) [OF cl] using strided_down(1) [OF so pos(1,2) step] soundD(4) [OF so] by simp
  moreover have "getUpperBound b = getLowerBound b + getExtent b"
    by (simp add: getExtent_def getUpperBound_def getLowerBound_def)
  ultimately show ?thesis
    using pos(3) by (simp add: VectorDatatype_def new_Vector_def Let_def getLowerBound_def algebra_simps)
qed

theorem vector_negative_stride_witness:
  "getLowerBound (VectorDatatype 2 1 (-2) (PrimitiveDatatype INTEGER)) = -4 \<and>
   tm_lb (mpi (VectorDatatype 2 1 (-2) (PrimitiveDatatype INTEGER))) = -8"
proof -
  have "getExtent (PrimitiveDatatype INTEGER) = 4"
    "getLowerBound (VectorDatatype 2 1 (-2) (PrimitiveDatatype INTEGER)) = -4" by code_simp+
  then show ?thesis using vector_negative_stride [of "PrimitiveDatatype INTEGER" 2 1 "-2"]
    by (simp add: built.intros regular_ctors)
qed

lemma indexed_block_sizes:
  assumes b: "built b" "regular b" and pos: "0 < count" "nat count \<le> length displ" "0 < blocklen"
  shows "int (length (tm_bytes (mpi (IndexedBlockDatatype count blocklen displ b)))) = count * (blocklen * getSize b)"
    "getSize (IndexedBlockDatatype count blocklen displ b) = count * getSize b"
proof -
  have so: "sound b" using b by (rule built_sound)
  have cl: "clone b = b" using b(1) by (rule clone_built)
  show "int (length (tm_bytes (mpi (IndexedBlockDatatype count blocklen displ b)))) = count * (blocklen * getSize b)"
    using cl pos soundD(1) [OF so]
    by (simp add: IndexedBlockDatatype_def new_IndexedBlock_def Let_def comp_def sum_list_triv min_def case_prod_unfold
        del: tm_blocks_bytes add: length_tm_blocks)
  show "getSize (IndexedBlockDatatype count blocklen displ b) = count * getSize b"
    by (simp add: IndexedBlockDatatype_def new_IndexedBlock_def Let_def getSize_def with_bounds_def)
qed

text \<open>
  The bounds of an indexed block type start from its first displacement, which is counted in
  elements and not scaled by the extent.
\<close>

lemma indexed_block_first_bound:
  "getLowerBound (IndexedBlockDatatype 1 1 [2] (PrimitiveDatatype INTEGER)) = 2 \<and>
   tm_lb (mpi (IndexedBlockDatatype 1 1 [2] (PrimitiveDatatype INTEGER))) = 8"
  by code_simp

text \<open>
  C39: The size an indexed block type stores leaves out the block length: for blocks of more than
  one element it is smaller than the number of bytes of the type.
\<close>

theorem indexed_block_size:
  assumes b: "built b" "regular b" and pos: "0 < count" "1 < blocklen" "nat count \<le> length displ"
  shows "getSize (IndexedBlockDatatype count blocklen displ b) < int (length (tm_bytes (mpi (IndexedBlockDatatype count blocklen displ b))))"
proof -
  have "count * (1 * getSize b) < count * (blocklen * getSize b)"
    using pos size_pos [OF built_sound [OF b]] by (intro mult_strict_left_mono mult_strict_right_mono) auto
  then show ?thesis using indexed_block_sizes [OF b pos(1,3), of blocklen] pos(2) by simp
qed

theorem indexed_block_size_witness:
  "getSize (IndexedBlockDatatype 2 3 [0, 5] (PrimitiveDatatype INTEGER)) = 8 \<and>
   8 < int (length (tm_bytes (mpi (IndexedBlockDatatype 2 3 [0, 5] (PrimitiveDatatype INTEGER)))))"
proof -
  have "getSize (IndexedBlockDatatype 2 3 [0, 5] (PrimitiveDatatype INTEGER)) = 8" by code_simp
  then show ?thesis using indexed_block_size [of "PrimitiveDatatype INTEGER" 2 3 "[0, 5]"]
    by (simp add: built.intros regular_ctors)
qed

text \<open>
  C40: The bounds of a struct start from zero: whatever the least displacement is, the lower
  bound of a struct with displacements that are not negative is zero.
\<close>

theorem struct_lower_bound:
  assumes "\<forall>i < nat count. 0 \<le> displ ! i \<and> fits_int (displ ! i)"
  shows "getLowerBound (StructDatatype count blocklen displ types) = 0"
proof -
  let ?bs = "map (\<lambda>i. (int_of_long (displ ! i), int_of_long (displ ! i + blocklen ! i * getExtent (types ! i)))) [0..<nat count]"
  have "\<forall>i < nat count. 0 \<le> int_of_long (displ ! i)"
    using assms by (auto simp: fits_int_def int_of_long_id)
  then have "fst (widen (0, 0) ?bs) = 0"
    unfolding widen_bounds by (intro Min_eqI) auto
  then show ?thesis
    by (simp add: StructDatatype_def new_Struct_def Let_def getLowerBound_def with_bounds_def)
qed

theorem struct_lower_bound_witness:
  "getLowerBound (StructDatatype 1 [2] [8] [PrimitiveDatatype INTEGER]) = 0 \<and>
   tm_lb (mpi (StructDatatype 1 [2] [8] [PrimitiveDatatype INTEGER])) = 8"
proof -
  have "tm_lb (mpi (StructDatatype 1 [2] [8] [PrimitiveDatatype INTEGER])) = 8" by code_simp
  then show ?thesis using struct_lower_bound [of 1 "[8]" "[2]" "[PrimitiveDatatype INTEGER]"]
    by (simp add: fits_int_def)
qed


end
