(* ===== verification/Objects.thy ===== *)
theory Objects
  imports DDT_Correct
begin

text \<open>
  The objects behind the two C interfaces.  A Datatype* is the address of an object, or
  NULL; an object has the fields of its class and the functions that compile made for
  it (\<open>pack\<close> and \<open>unpack\<close> are NULL before).  Using a pointer to no object, calling a
  function that is NULL and deleting a static object have no result.
\<close>

section \<open>Objects\<close>

type_synonym ptr = "nat option"

record obj =
  otype :: ddt
  ocode :: "compiled option"
  ostatic :: bool

record store =
  objs :: "nat \<rightharpoonup> obj"
  next_obj :: nat
  llmodule :: globals

definition deref :: "ptr \<Rightarrow> 'a store_scheme \<Rightarrow> obj option" where
  "deref p st = Option.bind p (objs st)"

definition new_object :: "ddt \<Rightarrow> 'a store_scheme \<Rightarrow> ptr \<times> 'a store_scheme" where
  "new_object t st = (Some (next_obj st),
     st\<lparr>objs := (objs st)(next_obj st \<mapsto> \<lparr>otype = t, ocode = None, ostatic = False\<rparr>),
        next_obj := Suc (next_obj st)\<rparr>)"

definition DDT_Commit_object :: "ptr \<Rightarrow> 'a store_scheme \<Rightarrow> 'a store_scheme option" where
  "DDT_Commit_object p st = (case (p, deref p st) of
     (Some a, Some ob) \<Rightarrow>
       map_option (\<lambda>c. st\<lparr>objs := (objs st)(a \<mapsto> ob\<lparr>ocode := Some c\<rparr>), llmodule := module_globals c\<rparr>)
         (DDT_Commit (otype ob) (llmodule st))
   | _ \<Rightarrow> None)"

definition DDT_Pack_object :: "nat \<Rightarrow> i64 \<Rightarrow> i64 \<Rightarrow> ptr \<Rightarrow> i32 \<Rightarrow> 'a store_scheme \<Rightarrow> mem \<Rightarrow> mem option" where
  "DDT_Pack_object k inbuf outbuf p count st m =
     Option.bind (Option.bind (deref p st) ocode) (\<lambda>c. DDT_Pack k inbuf outbuf c count m)"

definition DDT_Unpack_object :: "nat \<Rightarrow> i64 \<Rightarrow> i64 \<Rightarrow> ptr \<Rightarrow> i32 \<Rightarrow> 'a store_scheme \<Rightarrow> mem \<Rightarrow> mem option" where
  "DDT_Unpack_object k inbuf outbuf p count st m =
     Option.bind (Option.bind (deref p st) ocode) (\<lambda>c. DDT_Unpack k inbuf outbuf c count m)"

definition DDT_Free :: "ptr \<Rightarrow> 'a store_scheme \<Rightarrow> 'a store_scheme option" where
  "DDT_Free p st = (case (p, deref p st) of
     (Some a, Some ob) \<Rightarrow> if ostatic ob then None else Some (st\<lparr>objs := (objs st)(a := None)\<rparr>)
   | (Some a, None) \<Rightarrow> None
   | (None, _) \<Rightarrow> Some st)"

section \<open>The invariant of the store\<close>

text \<open>Every object was made by the constructors, and its code by DDT\_Commit.\<close>

definition obj_ok :: "obj \<Rightarrow> bool" where
  "obj_ok ob \<longleftrightarrow> built (otype ob) \<and> (\<forall>c. ocode ob = Some c \<longrightarrow> (\<exists>llmod. DDT_Commit (otype ob) llmod = Some c))"

definition store_ok :: "'a store_scheme \<Rightarrow> bool" where
  "store_ok st \<longleftrightarrow> (\<forall>a ob. objs st a = Some ob \<longrightarrow> a < next_obj st \<and> obj_ok ob)"

lemma deref_simps [simp]: "deref None st = None" "deref (Some a) st = objs st a"
  by (simp_all add: deref_def)

lemma deref_ok: "store_ok st \<Longrightarrow> deref p st = Some ob \<Longrightarrow> obj_ok ob"
  by (cases p) (auto simp: store_ok_def)

lemma new_object_ok: "store_ok st \<Longrightarrow> built t \<Longrightarrow> store_ok (snd (new_object t st))"
  by (auto simp: store_ok_def new_object_def obj_ok_def split: if_splits) (metis less_SucI)

lemma new_object_deref:
  "store_ok st \<Longrightarrow> new_object t st = (p, st') \<Longrightarrow>
     deref p st' = Some \<lparr>otype = t, ocode = None, ostatic = False\<rparr> \<and> (\<forall>q ob. deref q st = Some ob \<longrightarrow> deref q st' = Some ob)"
  by (fastforce simp: new_object_def store_ok_def deref_def split: Option.bind_splits)

lemma commit_object_ok: "store_ok st \<Longrightarrow> DDT_Commit_object p st = Some st' \<Longrightarrow> store_ok st'"
  by (cases p) (fastforce simp: DDT_Commit_object_def store_ok_def obj_ok_def split: option.splits if_splits)+

lemma free_ok: "store_ok st \<Longrightarrow> DDT_Free p st = Some st' \<Longrightarrow> store_ok st'"
  by (cases p) (auto simp: DDT_Free_def store_ok_def split: option.splits if_splits)

lemma commit_object_Some:
  assumes "store_ok st" "deref p st = Some ob" "regular (otype ob)" "fits (otype ob)"
  shows "\<exists>c st'. DDT_Commit_object p st = Some st' \<and> deref p st' = Some (ob\<lparr>ocode := Some c\<rparr>)"
proof -
  have "built (otype ob)" using deref_ok [OF assms(1,2)] by (simp add: obj_ok_def)
  then obtain t' G where "DDT_Commit (otype ob) (llmodule st) = Some \<lparr>fpack = build_function (code_of True t'),
      funpack = build_function (code_of False t'), module_globals = G\<rparr>"
    using commit_ready [OF _ assms(3,4), of "llmodule st"] by blast
  then show ?thesis using assms(2) by (cases p) (auto simp: DDT_Commit_object_def)
qed

section \<open>Objects as a datatype engine\<close>

definition usable :: "bool \<Rightarrow> ptr \<times> 'a store_scheme \<Rightarrow> bool" where
  "usable pack ps \<longleftrightarrow> (case ps of (p, st) \<Rightarrow> store_ok st \<and> (case deref p st of None \<Rightarrow> False
     | Some ob \<Rightarrow> ocode ob \<noteq> None \<and> regular (otype ob) \<and> fits (otype ob) \<and> handled pack (otype ob)))"

definition object_layout :: "ptr \<times> 'a store_scheme \<Rightarrow> nat \<Rightarrow> int list" where
  "object_layout ps n = (case deref (fst ps) (snd ps) of None \<Rightarrow> [] | Some ob \<Rightarrow> lay (otype ob) n)"

lemma usable_committed:
  assumes "usable pack ps"
  obtains ob c where "deref (fst ps) (snd ps) = Some ob" "ocode ob = Some c" "committed pack (otype ob, c)"
  using assms deref_ok by (cases ps) (fastforce simp: usable_def committed_def obj_ok_def split: option.splits)

interpretation object: marshalling "\<lambda>j p q ps. case ps of (a, st) \<Rightarrow> \<lambda>n. DDT_Pack_object j p q a n st"
  "\<lambda>j p q ps. case ps of (a, st) \<Rightarrow> \<lambda>n. DDT_Unpack_object j p q a n st" object_layout "usable True" "usable False"
proof unfold_locales
  fix c :: "ptr \<times> 'a store_scheme" and count :: i32 and m p q
  assume a: "usable True c" "0 <s count" "separate m p (object_layout c (unat count)) q"
  obtain ob d where o: "deref (fst c) (snd c) = Some ob" "ocode ob = Some d" "committed True (otype ob, d)"
    using a(1) by (rule usable_committed)
  then show "\<exists>m' k. (\<forall>j \<ge> k. (case c of (a, st) \<Rightarrow> \<lambda>n. DDT_Pack_object j p q a n st) count m = Some m') \<and>
      written m (run_at q (length (object_layout c (unat count)))) (bytes_of m (data_at p (object_layout c (unat count)))) m'"
    using ddt.pack_spec [OF o(3) a(2), of m p q] a(3) by (cases c) (simp add: DDT_Pack_object_def object_layout_def)
next
  fix c :: "ptr \<times> 'a store_scheme" and count :: i32 and m p q
  assume a: "usable False c" "0 <s count" "separate m p (object_layout c (unat count)) q"
    "distinct (data_at p (object_layout c (unat count)))"
  obtain ob d where o: "deref (fst c) (snd c) = Some ob" "ocode ob = Some d" "committed False (otype ob, d)"
    using a(1) by (rule usable_committed)
  then show "\<exists>m' k. (\<forall>j \<ge> k. (case c of (a, st) \<Rightarrow> \<lambda>n. DDT_Unpack_object j q p a n st) count m = Some m') \<and>
      written m (data_at p (object_layout c (unat count))) (bytes_of m (run_at q (length (object_layout c (unat count))))) m'"
    using ddt.unpack_spec [OF o(3) a(2), of m p q] a(3,4) by (cases c) (simp add: DDT_Unpack_object_def object_layout_def)
qed

end
