(* ===== verification/LPK_Interface.thy ===== *)
theory LPK_Interface
  imports Objects
begin

text \<open>
  The C interface of pack.h and pack.cpp.  An LPK\_Datatype is the pointer to an object;
  the caller keeps it in a variable whose address the functions take.  \<open>vars\<close> are these
  variables; an address is that of a variable or of an object, never both.  An array
  shorter than its count is read out of bounds, which has no result.
\<close>

section \<open>State and constants\<close>

record lpk = store +
  vars :: "nat \<rightharpoonup> ptr"
  stderr_messages :: nat

definition LPK_CHAR :: int where "LPK_CHAR = 0"
definition LPK_BYTE :: int where "LPK_BYTE = 3"
definition LPK_INT :: int where "LPK_INT = 7"
definition LPK_FLOAT :: int where "LPK_FLOAT = 11"
definition LPK_DOUBLE :: int where "LPK_DOUBLE = 12"

definition set_var :: "nat \<Rightarrow> ptr \<Rightarrow> lpk \<Rightarrow> (int \<times> lpk) option" where
  "set_var p v st = (if p \<in> dom (vars st) then Some (0, st\<lparr>vars := (vars st)(p \<mapsto> v)\<rparr>) else None)"

section \<open>Constructors\<close>

definition LPK_Primitive :: "int \<Rightarrow> nat \<Rightarrow> lpk \<Rightarrow> (int \<times> lpk) option" where
  "LPK_Primitive primitivetype newtype_p st =
     (let (ddt, st) = new_object (PrimitiveDatatype INTEGER) st;
          (ddt, st) =
            (if primitivetype = LPK_CHAR then new_object (PrimitiveDatatype CHARACTER) st
             else if primitivetype = LPK_BYTE then new_object (PrimitiveDatatype BYTE) st
             else if primitivetype = LPK_DOUBLE then new_object (PrimitiveDatatype DOUBLE) st
             else if primitivetype = LPK_FLOAT then new_object (PrimitiveDatatype FLOAT) st
             else if primitivetype = LPK_INT then new_object (PrimitiveDatatype INTEGER) st
             else (ddt, st\<lparr>stderr_messages := Suc (stderr_messages st)\<rparr>))
      in set_var newtype_p ddt st)"

definition make :: "ddt \<Rightarrow> nat \<Rightarrow> lpk \<Rightarrow> (int \<times> lpk) option" where
  "make t newtype_p st = (let (ntype, st) = new_object t st in set_var newtype_p ntype st)"

definition LPK_Contiguous :: "int \<Rightarrow> ptr \<Rightarrow> nat \<Rightarrow> lpk \<Rightarrow> (int \<times> lpk) option" where
  "LPK_Contiguous count oldtype newtype_p st = Option.bind (deref oldtype st)
     (\<lambda>old. make (ContiguousDatatype count (otype old)) newtype_p st)"

definition LPK_Vector :: "int \<Rightarrow> int \<Rightarrow> int \<Rightarrow> ptr \<Rightarrow> nat \<Rightarrow> lpk \<Rightarrow> (int \<times> lpk) option" where
  "LPK_Vector count blocklen stride oldtype newtype_p st = Option.bind (deref oldtype st)
     (\<lambda>old. make (VectorDatatype count blocklen stride (otype old)) newtype_p st)"

text \<open>The stride is a long, the constructor takes an int.\<close>

definition LPK_Hvector :: "int \<Rightarrow> int \<Rightarrow> int \<Rightarrow> ptr \<Rightarrow> nat \<Rightarrow> lpk \<Rightarrow> (int \<times> lpk) option" where
  "LPK_Hvector count blocklen stride oldtype newtype_p st = Option.bind (deref oldtype st)
     (\<lambda>old. make (HVectorDatatype count blocklen (int_of_long stride) (otype old)) newtype_p st)"

definition LPK_Indexed_block :: "int \<Rightarrow> int \<Rightarrow> int list \<Rightarrow> ptr \<Rightarrow> nat \<Rightarrow> lpk \<Rightarrow> (int \<times> lpk) option" where
  "LPK_Indexed_block count blocklen displacements oldtype newtype_p st =
     (if nat count \<le> length displacements then Option.bind (deref oldtype st)
        (\<lambda>old. make (IndexedBlockDatatype count blocklen displacements (otype old)) newtype_p st)
      else None)"

definition LPK_Hindexed :: "int \<Rightarrow> int list \<Rightarrow> int list \<Rightarrow> ptr \<Rightarrow> nat \<Rightarrow> lpk \<Rightarrow> (int \<times> lpk) option" where
  "LPK_Hindexed count blocklens displacements oldtype newtype_p st =
     (if nat count \<le> length blocklens \<and> nat count \<le> length displacements then Option.bind (deref oldtype st)
        (\<lambda>old. make (HIndexedDatatype count blocklens displacements (otype old)) newtype_p st)
      else None)"

definition LPK_Struct :: "int \<Rightarrow> int list \<Rightarrow> int list \<Rightarrow> ptr list \<Rightarrow> nat \<Rightarrow> lpk \<Rightarrow> (int \<times> lpk) option" where
  "LPK_Struct count blocklens displacements oldtypes newtype_p st =
     (if nat count \<le> length blocklens \<and> nat count \<le> length displacements \<and> nat count \<le> length oldtypes
      then Option.bind (those (map (\<lambda>p. deref p st) (take (nat count) oldtypes)))
        (\<lambda>olds. make (StructDatatype count blocklens displacements (map otype olds)) newtype_p st)
      else None)"

section \<open>Operations on a datatype\<close>

text \<open>The argument of these two is the address of a handle, cast to the pointer to an object.\<close>

definition LPK_Free :: "nat \<Rightarrow> lpk \<Rightarrow> (int \<times> lpk) option" where
  "LPK_Free ddt st = map_option (Pair 0) (DDT_Free (Some ddt) st)"

definition LPK_Compile :: "nat \<Rightarrow> lpk \<Rightarrow> (int \<times> lpk) option" where
  "LPK_Compile ddt st = map_option (Pair 0) (DDT_Commit_object (Some ddt) st)"

definition LPK_Pack :: "nat \<Rightarrow> i64 \<Rightarrow> i32 \<Rightarrow> ptr \<Rightarrow> i64 \<Rightarrow> lpk \<Rightarrow> mem \<Rightarrow> (int \<times> mem) option" where
  "LPK_Pack k inbuf incount intype outbuf st m =
     map_option (Pair 0) (DDT_Unpack_object k inbuf outbuf intype incount st m)"

definition LPK_Unpack :: "nat \<Rightarrow> i64 \<Rightarrow> i64 \<Rightarrow> i32 \<Rightarrow> ptr \<Rightarrow> lpk \<Rightarrow> mem \<Rightarrow> (int \<times> mem) option" where
  "LPK_Unpack k inbuf outbuf outcount outtype st m =
     map_option (Pair 0) (DDT_Unpack_object k inbuf outbuf outtype outcount st m)"

text \<open>The return code, the lower bound and the extent; the return code and the size.\<close>

definition LPK_Get_extent :: "ptr \<Rightarrow> lpk \<Rightarrow> (int \<times> int \<times> int) option" where
  "LPK_Get_extent datatype st =
     map_option (\<lambda>ob. (0, getLowerBound (otype ob), getExtent (otype ob))) (deref datatype st)"

definition LPK_Get_size :: "ptr \<Rightarrow> lpk \<Rightarrow> (int \<times> int) option" where
  "LPK_Get_size datatype st = map_option (\<lambda>ob. (0, getSize (otype ob))) (deref datatype st)"

section \<open>Programs that use the interface\<close>

text \<open>The caller declares variables, and assigns the value of one to another.\<close>

definition new_var :: "lpk \<Rightarrow> lpk" where
  "new_var st = st\<lparr>vars := (vars st)(next_obj st \<mapsto> None), next_obj := Suc (next_obj st)\<rparr>"

definition lpk_init :: lpk where
  "lpk_init = \<lparr>objs = Map.empty, next_obj = 1, llmodule = [], vars = Map.empty, stderr_messages = 0\<rparr>"

inductive lpk_step :: "lpk \<Rightarrow> lpk \<Rightarrow> bool" where
  step_var: "lpk_step st (new_var st)"
| step_assign: "set_var p v st = Some (r, st') \<Longrightarrow> lpk_step st st'"
| step_Primitive: "LPK_Primitive t p st = Some (r, st') \<Longrightarrow> lpk_step st st'"
| step_Contiguous: "LPK_Contiguous n old p st = Some (r, st') \<Longrightarrow> lpk_step st st'"
| step_Vector: "LPK_Vector n l s old p st = Some (r, st') \<Longrightarrow> lpk_step st st'"
| step_Hvector: "LPK_Hvector n l s old p st = Some (r, st') \<Longrightarrow> lpk_step st st'"
| step_Indexed_block: "LPK_Indexed_block n l ds old p st = Some (r, st') \<Longrightarrow> lpk_step st st'"
| step_Hindexed: "LPK_Hindexed n ls ds old p st = Some (r, st') \<Longrightarrow> lpk_step st st'"
| step_Struct: "LPK_Struct n ls ds olds p st = Some (r, st') \<Longrightarrow> lpk_step st st'"
| step_Free: "LPK_Free a st = Some (r, st') \<Longrightarrow> lpk_step st st'"
| step_Compile: "LPK_Compile a st = Some (r, st') \<Longrightarrow> lpk_step st st'"

inductive lpk_reachable :: "lpk \<Rightarrow> bool" where
  reachable_init: "lpk_reachable lpk_init"
| reachable_step: "lpk_reachable st \<Longrightarrow> lpk_step st st' \<Longrightarrow> lpk_reachable st'"

definition lpk_ok :: "lpk \<Rightarrow> bool" where
  "lpk_ok st \<longleftrightarrow> store_ok st \<and> (\<forall>p v. vars st p = Some v \<longrightarrow> objs st p = None \<and> p < next_obj st)"

lemma new_object_lpk: "lpk_ok st \<Longrightarrow> built t \<Longrightarrow> lpk_ok (snd (new_object t st))"
  using new_object_ok [of st t] by (auto simp: lpk_ok_def new_object_def intro: less_SucI dest: less_irrefl_nat)

lemma set_var_lpk: "set_var p v st = Some (r, st') \<Longrightarrow> lpk_ok st \<Longrightarrow> lpk_ok st'"
  by (auto simp: set_var_def lpk_ok_def store_ok_def split: if_splits)

lemma make_lpk: "make t p st = Some (r, st') \<Longrightarrow> lpk_ok st \<Longrightarrow> built t \<Longrightarrow> lpk_ok st'"
  using new_object_lpk [of st t] set_var_lpk by (auto simp: make_def case_prod_unfold Let_def)

lemma deref_built: "lpk_ok st \<Longrightarrow> deref p st = Some ob \<Longrightarrow> built (otype ob)"
  using deref_ok [of st p ob] by (simp add: lpk_ok_def obj_ok_def)

lemma those_deref_built:
  "lpk_ok st \<Longrightarrow> those (map (\<lambda>p. deref p st) ps) = Some obs \<Longrightarrow> length obs = length ps \<and> (\<forall>ob \<in> set obs. built (otype ob))"
  by (induction ps arbitrary: obs) (auto split: option.splits dest: deref_built)

text \<open>Every operation keeps the invariant.\<close>

lemma lpk_step_ok: "lpk_step st st' \<Longrightarrow> lpk_ok st \<Longrightarrow> lpk_ok st'"
proof (induction rule: lpk_step.induct)
  case (step_var st)
  then have "objs st (next_obj st) = None" by (cases "objs st (next_obj st)") (auto simp: lpk_ok_def store_ok_def)
  then show ?case using step_var by (auto simp: new_var_def lpk_ok_def store_ok_def intro: less_SucI)
next
  case (step_Primitive t p st r st')
  have stderr: "lpk_ok s \<Longrightarrow> lpk_ok (s\<lparr>stderr_messages := n\<rparr>)" for s n by (simp add: lpk_ok_def store_ok_def)
  have new: "lpk_ok (snd (new_object (PrimitiveDatatype a) (snd (new_object (PrimitiveDatatype b) st))))"
    "lpk_ok (snd (new_object (PrimitiveDatatype a) st))" for a b
    using step_Primitive.prems by (auto intro!: new_object_lpk built.intros)
  show ?case
    using step_Primitive.hyps new stderr [OF new(2)] set_var_lpk
    by (auto simp: LPK_Primitive_def case_prod_unfold Let_def split: if_splits)
next
  case (step_Contiguous n old p st r st')
  then show ?case by (auto simp: LPK_Contiguous_def split: Option.bind_splits intro: make_lpk built.intros deref_built)
next
  case (step_Vector n l s old p st r st')
  then show ?case by (auto simp: LPK_Vector_def split: Option.bind_splits intro: make_lpk built.intros deref_built)
next
  case (step_Hvector n l s old p st r st')
  then show ?case by (auto simp: LPK_Hvector_def split: Option.bind_splits intro: make_lpk built.intros deref_built)
next
  case (step_Indexed_block n l ds old p st r st')
  then show ?case
    by (auto simp: LPK_Indexed_block_def split: Option.bind_splits if_splits intro: make_lpk built.intros deref_built)
next
  case (step_Hindexed n ls ds old p st r st')
  then show ?case
    by (auto simp: LPK_Hindexed_def split: Option.bind_splits if_splits intro: make_lpk built.intros deref_built)
next
  case (step_Struct n ls ds olds p st r st')
  then obtain obs where obs: "nat n \<le> length ls" "nat n \<le> length ds" "nat n \<le> length olds"
    "those (map (\<lambda>p. deref p st) (take (nat n) olds)) = Some obs"
    "make (StructDatatype n ls ds (map otype obs)) p st = Some (r, st')"
    by (auto simp: LPK_Struct_def split: Option.bind_splits if_splits)
  then have "built (StructDatatype n ls ds (map otype obs))"
    using those_deref_built [OF step_Struct.prems obs(4)] by (intro built.built_Struct) auto
  then show ?case using make_lpk [OF obs(5) step_Struct.prems] by simp
next
  case (step_Free a st r st')
  then show ?case using free_ok [of st "Some a"] by (auto simp: LPK_Free_def lpk_ok_def DDT_Free_def split: option.splits if_splits)
next
  case (step_Compile a st r st')
  then show ?case using commit_object_ok [of st "Some a"]
    by (auto simp: LPK_Compile_def lpk_ok_def DDT_Commit_object_def split: option.splits if_splits)
qed (auto intro: set_var_lpk)

lemma lpk_reachable_ok: "lpk_reachable st \<Longrightarrow> lpk_ok st"
proof (induction rule: lpk_reachable.induct)
  case reachable_init
  then show ?case by (simp add: lpk_init_def lpk_ok_def store_ok_def)
qed (rule lpk_step_ok)


section \<open>What the constructors promise\<close>

text \<open>
  The caller's view: each of its variables that was given a handle denotes a datatype.  The
  specification of pack.h: a constructor lets one variable denote the datatype it names, made
  of what the variables it is given denote.
\<close>

definition meaning :: "lpk \<Rightarrow> nat \<rightharpoonup> ddt" where
  "meaning st x = Option.bind (vars st x) (\<lambda>p. map_option otype (deref p st))"

datatype lpk_call =
  Make_Primitive int
| Make_Contiguous int nat
| Make_Vector int int int nat
| Make_Hvector int int int nat
| Make_Indexed_block int int "int list" nat
| Make_Hindexed int "int list" "int list" nat
| Make_Struct int "int list" "int list" "nat list"

fun denoted :: "lpk_call \<Rightarrow> (nat \<rightharpoonup> ddt) \<Rightarrow> ddt option" where
  "denoted (Make_Primitive c) \<mu> = map_of [(LPK_CHAR, PrimitiveDatatype CHARACTER), (LPK_BYTE, PrimitiveDatatype BYTE),
     (LPK_INT, PrimitiveDatatype INTEGER), (LPK_FLOAT, PrimitiveDatatype FLOAT), (LPK_DOUBLE, PrimitiveDatatype DOUBLE)] c"
| "denoted (Make_Contiguous n x) \<mu> = map_option (ContiguousDatatype n) (\<mu> x)"
| "denoted (Make_Vector n l s x) \<mu> = map_option (VectorDatatype n l s) (\<mu> x)"
| "denoted (Make_Hvector n l s x) \<mu> = (if - (2 ^ 31) \<le> s \<and> s < 2 ^ 31 then map_option (HVectorDatatype n l s) (\<mu> x) else None)"
| "denoted (Make_Indexed_block n l ds x) \<mu> =
     (if nat n \<le> length ds then map_option (IndexedBlockDatatype n l ds) (\<mu> x) else None)"
| "denoted (Make_Hindexed n ls ds x) \<mu> =
     (if nat n \<le> length ls \<and> nat n \<le> length ds then map_option (HIndexedDatatype n ls ds) (\<mu> x) else None)"
| "denoted (Make_Struct n ls ds xs) \<mu> =
     (if nat n \<le> length ls \<and> nat n \<le> length ds \<and> nat n = length xs
      then map_option (StructDatatype n ls ds) (those (map \<mu> xs)) else None)"

text \<open>The call itself, which is given the values of the variables.\<close>

fun run_call :: "lpk_call \<Rightarrow> nat \<Rightarrow> lpk \<Rightarrow> (int \<times> lpk) option" where
  "run_call (Make_Primitive c) p st = LPK_Primitive c p st"
| "run_call (Make_Contiguous n x) p st = Option.bind (vars st x) (\<lambda>old. LPK_Contiguous n old p st)"
| "run_call (Make_Vector n l s x) p st = Option.bind (vars st x) (\<lambda>old. LPK_Vector n l s old p st)"
| "run_call (Make_Hvector n l s x) p st = Option.bind (vars st x) (\<lambda>old. LPK_Hvector n l s old p st)"
| "run_call (Make_Indexed_block n l ds x) p st = Option.bind (vars st x) (\<lambda>old. LPK_Indexed_block n l ds old p st)"
| "run_call (Make_Hindexed n ls ds x) p st = Option.bind (vars st x) (\<lambda>old. LPK_Hindexed n ls ds old p st)"
| "run_call (Make_Struct n ls ds xs) p st = Option.bind (those (map (vars st) xs)) (\<lambda>olds. LPK_Struct n ls ds olds p st)"

text \<open>A program is a sequence of calls, each with the variable for its result.\<close>

fun denoted_all :: "(lpk_call \<times> nat) list \<Rightarrow> (nat \<rightharpoonup> ddt) \<Rightarrow> (nat \<rightharpoonup> ddt) option" where
  "denoted_all [] \<mu> = Some \<mu>"
| "denoted_all ((c, p) # cs) \<mu> = Option.bind (denoted c \<mu>) (\<lambda>t. denoted_all cs (\<mu>(p \<mapsto> t)))"

fun run_all :: "(lpk_call \<times> nat) list \<Rightarrow> lpk \<Rightarrow> lpk option" where
  "run_all [] st = Some st"
| "run_all ((c, p) # cs) st = Option.bind (run_call c p st) (\<lambda>(r, st). if r = 0 then run_all cs st else None)"

text \<open>No variable holds the address of an object that is yet to be made.\<close>

definition handles_ok :: "lpk \<Rightarrow> bool" where
  "handles_ok st \<longleftrightarrow> store_ok st \<and> (\<forall>x a. vars st x = Some (Some a) \<longrightarrow> a < next_obj st)"

definition lets :: "lpk \<Rightarrow> nat \<Rightarrow> ddt \<Rightarrow> lpk \<Rightarrow> bool" where
  "lets st p t st' \<longleftrightarrow> handles_ok st' \<and> dom (vars st') = dom (vars st) \<and> meaning st' = (meaning st)(p \<mapsto> t)"

lemma make_lets:
  assumes "handles_ok st" "p \<in> dom (vars st)" "built t"
  shows "\<exists>st'. make t p st = Some (0, st') \<and> lets st p t st'"
proof -
  obtain v st1 where n: "new_object t st = (v, st1)" by force
  have s1: "store_ok st1" using new_object_ok [of st t] assms(1,3) by (simp add: handles_ok_def n)
  have v: "v = Some (next_obj st)" "vars st1 = vars st" "next_obj st1 = Suc (next_obj st)"
    "objs st1 = (objs st)(next_obj st \<mapsto> \<lparr>otype = t, ocode = None, ostatic = False\<rparr>)" using n by (auto simp: new_object_def)
  let ?st = "st1\<lparr>vars := (vars st1)(p \<mapsto> v)\<rparr>"
  have "make t p st = Some (0, ?st)" using assms(2) by (simp add: make_def n set_var_def v(2))
  moreover have "store_ok ?st" using s1 by (simp add: store_ok_def)
  then have "handles_ok ?st" using assms(1) v by (auto simp: handles_ok_def less_Suc_eq)
  moreover have "dom (vars ?st) = dom (vars st)" using assms(2) v(2) by auto
  moreover have "meaning ?st x = ((meaning st)(p \<mapsto> t)) x" for x
    using assms(1) v by (auto simp: meaning_def handles_ok_def deref_def split: Option.bind_splits)
  ultimately show ?thesis unfolding lets_def by blast
qed

lemma primitive_lets:
  assumes "handles_ok st" "p \<in> dom (vars st)" "denoted (Make_Primitive c) (meaning st) = Some t"
  shows "\<exists>st'. LPK_Primitive c p st = Some (0, st') \<and> lets st p t st'"
proof -
  define st1 where "st1 = snd (new_object (PrimitiveDatatype INTEGER) st)"
  have s1: "handles_ok st1" "vars st1 = vars st" "dom (vars st1) = dom (vars st)"
    using assms(1) new_object_ok [of st "PrimitiveDatatype INTEGER"] built_Primitive
    by (auto simp: handles_ok_def st1_def new_object_def less_Suc_eq)
  have m1: "meaning st1 = meaning st"
    using assms(1) by (auto simp: fun_eq_iff meaning_def st1_def new_object_def handles_ok_def deref_def split: Option.bind_splits)
  have "LPK_Primitive c p st = make t p st1 \<and> built t"
    using assms(3) built_Primitive by (auto simp: LPK_Primitive_def make_def st1_def case_prod_beta Let_def LPK_CHAR_def LPK_BYTE_def LPK_INT_def LPK_FLOAT_def LPK_DOUBLE_def split: if_splits)
  then show ?thesis using make_lets [of st1 p t] s1 m1 assms(2) by (simp add: lets_def)
qed

lemma meaning_value:
  assumes "handles_ok st" "meaning st x = Some t"
  obtains v ob where "vars st x = Some v" "deref v st = Some ob" "otype ob = t" "built t"
proof -
  obtain v ob where v: "vars st x = Some v" "deref v st = Some ob" "otype ob = t"
    using assms(2) by (auto simp: meaning_def split: Option.bind_splits)
  then have "built t" using deref_ok [of st v ob] assms(1) by (auto simp: handles_ok_def obj_ok_def)
  then show ?thesis using that v by blast
qed

lemma meaning_values:
  assumes "handles_ok st" "those (map (meaning st) xs) = Some ts"
  shows "\<exists>vs obs. those (map (vars st) xs) = Some vs \<and> those (map (\<lambda>v. deref v st) vs) = Some obs \<and> map otype obs = ts \<and>
    length vs = length xs \<and> length ts = length xs \<and> (\<forall>t \<in> set ts. built t)"
  using assms(2)
proof (induction xs arbitrary: ts)
  case (Cons x xs)
  then obtain t us where t: "meaning st x = Some t" "those (map (meaning st) xs) = Some us" "ts = t # us"
    by (auto split: option.splits)
  obtain v ob where v: "vars st x = Some v" "deref v st = Some ob" "otype ob = t" "built t"
    by (rule meaning_value [OF assms(1) t(1)])
  obtain vs obs where "those (map (vars st) xs) = Some vs" "those (map (\<lambda>v. deref v st) vs) = Some obs" "map otype obs = us"
    "length vs = length xs" "length us = length xs" "\<forall>t \<in> set us. built t" using Cons.IH [OF t(2)] by blast
  then show ?case using v t(3) by simp
qed simp

lemma call_lets:
  assumes st: "handles_ok st" "p \<in> dom (vars st)" and d: "denoted c (meaning st) = Some t"
  shows "\<exists>st'. run_call c p st = Some (0, st') \<and> lets st p t st'"
proof (cases c)
  case (Make_Primitive k)
  then show ?thesis using primitive_lets [OF st] d by simp
next
  case (Make_Struct n ls ds xs)
  then obtain ts where ts: "those (map (meaning st) xs) = Some ts" "t = StructDatatype n ls ds ts"
    and len: "nat n \<le> length ls" "nat n \<le> length ds" "nat n = length xs" using d by (auto split: if_splits)
  then obtain vs obs where v: "those (map (vars st) xs) = Some vs" "those (map (\<lambda>v. deref v st) vs) = Some obs" "map otype obs = ts"
    "length vs = length xs" "length ts = length xs" "\<forall>t \<in> set ts. built t" using meaning_values [OF st(1)] by blast
  have "built t" using v len ts(2) by (auto intro: built_Struct)
  then show ?thesis using make_lets [OF st] v len ts(2) Make_Struct by (simp add: LPK_Struct_def)
next
  case (Make_Hvector n l s x)
  then obtain u where u: "meaning st x = Some u" "t = HVectorDatatype n l (int_of_long s) u"
    using d int_of_long_id by (auto split: if_splits)
  obtain v ob where "vars st x = Some v" "deref v st = Some ob" "otype ob = u" "built u"
    by (rule meaning_value [OF st(1) u(1)])
  then show ?thesis using make_lets [OF st built_HVector] u(2) Make_Hvector by (simp add: LPK_Hvector_def)
qed (use d in \<open>auto split: if_splits elim!: meaning_value [OF st(1)]
    simp: LPK_Contiguous_def LPK_Vector_def LPK_Indexed_block_def LPK_Hindexed_def intro!: make_lets [OF st] built.intros\<close>)

lemma meaning_queries:
  assumes "meaning st x = Some t"
  shows "\<exists>v. vars st x = Some v \<and> LPK_Get_extent v st = Some (0, getLowerBound t, getExtent t) \<and>
    LPK_Get_size v st = Some (0, getSize t)"
  using assms by (auto simp: meaning_def LPK_Get_extent_def LPK_Get_size_def split: Option.bind_splits)

lemma run_all_lets:
  assumes "handles_ok st" "snd ` set cs \<subseteq> dom (vars st)" "denoted_all cs (meaning st) = Some \<mu>"
  shows "\<exists>st'. run_all cs st = Some st' \<and> handles_ok st' \<and> meaning st' = \<mu>"
  using assms
proof (induction cs arbitrary: st)
  case (Cons a cs)
  obtain c p where a: "a = (c, p)" by fastforce
  then obtain t where t: "denoted c (meaning st) = Some t" "denoted_all cs ((meaning st)(p \<mapsto> t)) = Some \<mu>"
    using Cons.prems(3) by (auto split: Option.bind_splits)
  have p: "p \<in> dom (vars st)" "snd ` set cs \<subseteq> dom (vars st)" using Cons.prems(2) a by simp_all
  obtain st1 where st1: "run_call c p st = Some (0, st1)" "lets st p t st1"
    using call_lets [OF Cons.prems(1) p(1) t(1)] by blast
  then have "\<exists>st'. run_all cs st1 = Some st' \<and> handles_ok st' \<and> meaning st' = \<mu>"
    using Cons.IH [of st1] p(2) t(2) unfolding lets_def by metis
  then show ?case using st1(1) a by simp
qed simp

text \<open>The states a caller has: variables without a value, copies of handles, freed objects.\<close>

lemma handles_init: "handles_ok lpk_init"
  by (simp add: handles_ok_def lpk_init_def store_ok_def)

lemma handles_new_var: "handles_ok st \<Longrightarrow> handles_ok (new_var st)"
  by (auto simp: handles_ok_def new_var_def store_ok_def less_Suc_eq)

lemma handles_assign: "handles_ok st \<Longrightarrow> vars st q = Some v \<Longrightarrow> set_var p v st = Some (r, st') \<Longrightarrow> handles_ok st'"
  by (auto simp: handles_ok_def set_var_def store_ok_def split: if_splits)

section \<open>Properties\<close>

text \<open>
  C13: Every program of constructor calls has a result, each call the code of success, and
  afterwards every variable denotes the datatype the specification gives it: the call named
  in pack.h, with the arguments in its order, made of what the variables it was given denote
  at that time.  LPK\_Get\_extent and LPK\_Get\_size of the value of each variable are those
  of that datatype.  The variables exist, arrays are as long as their counts, the stride of
  LPK\_Hvector fits the int it is converted to, and the constants are the five implemented.
  The state before is \<open>handles_ok\<close>: the objects are those of the constructors, and no variable
  has the address of an object yet to be made, which holds at the start and is kept when
  variables are declared and assigned and by these calls.
\<close>

theorem LPK_programs_refine:
  assumes "handles_ok st" "snd ` set cs \<subseteq> dom (vars st)" "denoted_all cs (meaning st) = Some \<mu>"
  shows "\<exists>st'. run_all cs st = Some st' \<and> handles_ok st' \<and> meaning st' = \<mu> \<and>
    (\<forall>x t. \<mu> x = Some t \<longrightarrow> (\<exists>v. vars st' x = Some v \<and>
      LPK_Get_extent v st' = Some (0, getLowerBound t, getExtent t) \<and> LPK_Get_size v st' = Some (0, getSize t)))"
  using run_all_lets [OF assms] meaning_queries by metis

text \<open>A vector of pairs, each an int and a char: three variables, the char's is used again.\<close>

definition ex_program :: "(lpk_call \<times> nat) list" where
  "ex_program = [(Make_Primitive 7, 1), (Make_Primitive 0, 2), (Make_Struct 2 [1, 1] [0, 4] [1, 2], 3),
     (Make_Vector 3 1 2 3, 2)]"

theorem LPK_programs_refine_witness:
  "\<exists>st v. run_all ex_program (new_var (new_var (new_var lpk_init))) = Some st \<and> vars st 2 = Some v \<and>
     LPK_Get_size v st = Some (0, 15) \<and> LPK_Get_extent v st = Some (0, 0, 25)"
proof -
  let ?st = "new_var (new_var (new_var lpk_init))"
  let ?S = "StructDatatype 2 [1, 1] [0, 4] [PrimitiveDatatype INTEGER, PrimitiveDatatype CHARACTER]"
  have ok: "handles_ok ?st" by (intro handles_new_var handles_init)
  have dom: "snd ` set ex_program \<subseteq> dom (vars ?st)" by (auto simp: ex_program_def new_var_def lpk_init_def)
  have none: "meaning ?st = Map.empty" by (auto simp: meaning_def new_var_def lpk_init_def deref_def fun_eq_iff)
  have den: "denoted_all ex_program (meaning ?st) =
    Some [1 \<mapsto> PrimitiveDatatype INTEGER, 2 \<mapsto> VectorDatatype 3 1 2 ?S, 3 \<mapsto> ?S]"
    by (auto simp: ex_program_def none LPK_CHAR_def LPK_BYTE_def LPK_INT_def LPK_FLOAT_def LPK_DOUBLE_def fun_eq_iff)
  have dims: "getSize (VectorDatatype 3 1 2 ?S) = 15" "getLowerBound (VectorDatatype 3 1 2 ?S) = 0"
    "getExtent (VectorDatatype 3 1 2 ?S) = 25" by code_simp+
  let ?m = "[1 \<mapsto> PrimitiveDatatype INTEGER, 2 \<mapsto> VectorDatatype 3 1 2 ?S, 3 \<mapsto> ?S] :: nat \<rightharpoonup> ddt"
  obtain st where st: "run_all ex_program ?st = Some st" "\<And>x t. ?m x = Some t \<Longrightarrow> \<exists>v. vars st x = Some v \<and>
      LPK_Get_extent v st = Some (0, getLowerBound t, getExtent t) \<and> LPK_Get_size v st = Some (0, getSize t)"
    using LPK_programs_refine [OF ok dom den] by blast
  show ?thesis using st(1) st(2) [of 2 "VectorDatatype 3 1 2 ?S"] by (auto simp: dims)
qed

text \<open>
  C35: LPK\_Compile and LPK\_Free take the address of a handle and treat it as an object:
  called as the header declares them they never have a result.
\<close>

theorem compile_handle_fails:
  assumes "lpk_reachable st" "vars st p = Some v"
  shows "LPK_Compile p st = None \<and> LPK_Free p st = None"
  using lpk_reachable_ok [OF assms(1)] assms(2) by (auto simp: lpk_ok_def LPK_Compile_def LPK_Free_def DDT_Commit_object_def DDT_Free_def)

theorem compile_handle_fails_witness: "LPK_Compile 1 (new_var lpk_init) = None"
  using compile_handle_fails [OF reachable_step [OF reachable_init step_var], of 1 None]
  by (simp add: new_var_def lpk_init_def)

text \<open>LPK\_Pack does what LPK\_Unpack does: it calls DDT\_Unpack.\<close>

theorem LPK_Pack_unpacks: "LPK_Pack k inbuf n t outbuf st m = LPK_Unpack k inbuf outbuf n t st m"
  by (simp add: LPK_Pack_def LPK_Unpack_def)

text \<open>
  C27: LPK\_Unpack of a compiled datatype returns 0 and puts the bytes of the packed buffer
  where the datatype has them.
\<close>

theorem LPK_Unpack_scatters:
  assumes "usable False (t, st)" "0 <s n" "separate m outbuf (object_layout (t, st) (unat n)) inbuf"
    and "distinct (data_at outbuf (object_layout (t, st) (unat n)))"
  shows "\<exists>m' k. (\<forall>j \<ge> k. LPK_Unpack j inbuf outbuf n t st m = Some (0, m')) \<and>
    written m (data_at outbuf (object_layout (t, st) (unat n)))
      (bytes_of m (run_at inbuf (length (object_layout (t, st) (unat n))))) m'"
  using object.unpack_spec [OF assms] by (auto simp: LPK_Unpack_def)

definition ex_store :: lpk where
  "ex_store = lpk_init\<lparr>objs := [1 \<mapsto> \<lparr>otype = PrimitiveDatatype INTEGER,
     ocode = DDT_Commit (PrimitiveDatatype INTEGER) [], ostatic = False\<rparr>], next_obj := 2\<rparr>"

theorem LPK_Unpack_scatters_witness:
  "\<exists>m' k. LPK_Unpack k 0 8 1 (Some 1) ex_store (\<lambda>a. if a < 16 then Some (ucast a) else None) = Some (0, m') \<and>
     bytes_of m' [8, 9, 10, 11] = map Some [0, 1, 2, 3]"
proof -
  let ?m = "\<lambda>a :: i64. if a < 16 then Some (ucast a :: byte) else None" and ?t = "PrimitiveDatatype INTEGER"
  have ok: "handled False ?t" "regular ?t" "fits ?t" by code_simp+
  obtain c where c: "DDT_Commit ?t [] = Some c"
    using commit_ready [OF built_Primitive ok(2,3), of "[]"] by blast
  have u: "usable False (Some 1, ex_store)"
    using c ok by (auto simp: usable_def ex_store_def store_ok_def obj_ok_def lpk_init_def intro: built.intros)
  have l: "object_layout (Some 1, ex_store) (unat (1 :: i32)) = lay ?t 1" by (simp add: object_layout_def ex_store_def)
  have sep: "separate ?m 8 (lay ?t 1) 0" and dis: "distinct (data_at 8 (lay ?t 1))"
    and ev: "data_at 8 (lay ?t 1) = [8, 9, 10, 11]" "bytes_of ?m (run_at 0 (length (lay ?t 1))) = map Some [0, 1, 2, 3]"
    by code_simp+
  have one: "(0 :: i32) <s 1" by code_simp
  obtain m' k where r: "\<forall>j \<ge> k. LPK_Unpack j 0 8 1 (Some 1) ex_store ?m = Some (0, m')"
    "written ?m (data_at 8 (lay ?t 1)) (bytes_of ?m (run_at 0 (length (lay ?t 1)))) m'"
    using LPK_Unpack_scatters [OF u one, of ?m 8 0, unfolded l, OF sep dis] by blast
  have "LPK_Unpack k 0 8 1 (Some 1) ex_store ?m = Some (0, m')" using r(1) by blast
  moreover have "bytes_of m' [8, 9, 10, 11] = map Some [0, 1, 2, 3]" using r(2) unfolding ev written_def by blast
  ultimately show ?thesis by blast
qed

text \<open>
  C28: LPK\_Primitive returns the datatype of the constant, and for the twelve constants
  that are not implemented an int, a message on stderr and the code of success.
\<close>

theorem LPK_Primitive_result:
  assumes "lpk_ok st" "vars st p = Some v"
  shows "\<exists>a st'. LPK_Primitive c p st = Some (0, st') \<and> vars st' p = Some (Some a) \<and>
    map_option otype (objs st' a) = Some (PrimitiveDatatype (if c = LPK_CHAR then CHARACTER else if c = LPK_BYTE then BYTE
      else if c = LPK_DOUBLE then DOUBLE else if c = LPK_FLOAT then FLOAT else INTEGER)) \<and>
    stderr_messages st' = stderr_messages st + (if c \<in> {LPK_CHAR, LPK_BYTE, LPK_DOUBLE, LPK_FLOAT, LPK_INT} then 0 else 1)"
  using assms
  by (auto simp: LPK_Primitive_def new_object_def set_var_def LPK_CHAR_def LPK_BYTE_def LPK_DOUBLE_def LPK_FLOAT_def LPK_INT_def)

theorem LPK_Primitive_result_witness:
  "\<exists>st'. LPK_Primitive 9 1 (new_var lpk_init) = Some (0, st') \<and> stderr_messages st' = 1"
proof -
  have "lpk_ok (new_var lpk_init)"
    by (rule lpk_reachable_ok [OF reachable_step [OF reachable_init step_var]])
  moreover have "vars (new_var lpk_init) 1 = Some None" "stderr_messages (new_var lpk_init) = 0"
    by (simp_all add: new_var_def lpk_init_def)
  ultimately show ?thesis
    using LPK_Primitive_result [of "new_var lpk_init" 1 None 9]
    by (auto simp: LPK_CHAR_def LPK_BYTE_def LPK_DOUBLE_def LPK_FLOAT_def LPK_INT_def)
qed

end
