(* ===== verification/Interposer.thy ===== *)
theory Interposer
  imports Objects "HOL-Library.AList"
begin

text \<open>
  The tables of interposer\_common.cpp behind the MPI functions that the library
  replaces: the handles of datatypes, the message buffers and the outstanding
  requests.  What mpi.h and the C library provide is a parameter: the constants of
  the primitive handles, malloc (the address of a new block and its contents) and the
  address of the static scratch buffer.
\<close>

section \<open>State\<close>

record platform =
  MPI_DOUBLE :: int
  MPI_INT :: int
  MPI_BYTE :: int
  MPI_CHAR :: int
  MPI_FLOAT :: int
  MPI_PACKED :: int
  MPI_REQUEST_NULL :: int
  malloc :: "int \<Rightarrow> mem \<Rightarrow> i64 \<times> byte list"
  scratch :: i64

text \<open>A request names its MPI\_Request variable, the packed and the user's buffer (or NULL).\<close>

record request =
  mpi_req :: nat
  tmpbuf :: "i64 option"
  usrbuf :: "i64 option"
  req_count :: int
  req_datatype :: int

definition is_recv :: "request \<Rightarrow> bool" where
  "is_recv req \<longleftrightarrow> usrbuf req \<noteq> None"

text \<open>
  The map of the fallback handles is an association list with distinct keys, the
  queue of free handles a list.  \<open>malloced\<close> has the size of every live block.
\<close>

record interposer = store +
  g_types :: "ptr list"
  g_types_freelist :: "int list"
  g_types_fallback :: "(int \<times> ptr) list"
  g_outstanding_requests :: "request list"
  scratch_in_use :: bool
  malloced :: "i64 \<rightharpoonup> nat"
  memory :: mem

definition DDT_FAST_CACHE_SIZE :: int where "DDT_FAST_CACHE_SIZE = 50"
definition scratch_size :: int where "scratch_size = 2 * 1024 * 1024"

section \<open>Handles\<close>

definition datatype_handle_create :: "interposer \<Rightarrow> int \<times> interposer" where
  "datatype_handle_create st = (case g_types_freelist st of
     ddt # q \<Rightarrow> (ddt, st\<lparr>g_types_freelist := q\<rparr>)
   | [] \<Rightarrow> (let nexttype = DDT_FAST_CACHE_SIZE + int (length (g_types_fallback st))
           in (nexttype, st\<lparr>g_types_fallback := AList.update nexttype None (g_types_fallback st)\<rparr>)))"

definition datatype_handle_free :: "int \<Rightarrow> interposer \<Rightarrow> interposer" where
  "datatype_handle_free ddt_handle st =
     (if ddt_handle < DDT_FAST_CACHE_SIZE
      then st\<lparr>g_types_freelist := g_types_freelist st @ [ddt_handle]\<rparr>
      else st\<lparr>g_types_fallback := AList.delete ddt_handle (g_types_fallback st)\<rparr>)"

definition datatype_store :: "int \<Rightarrow> ptr \<Rightarrow> interposer \<Rightarrow> interposer option" where
  "datatype_store dt_handle dt st =
     (if dt_handle < 0 then None
      else if dt_handle < DDT_FAST_CACHE_SIZE
      then Some (st\<lparr>g_types := (g_types st)[nat dt_handle := dt]\<rparr>)
      else Some (st\<lparr>g_types_fallback := AList.update dt_handle dt (g_types_fallback st)\<rparr>))"

text \<open>The static objects have the addresses 0 to 4.\<close>

definition farc_double :: ptr where "farc_double = Some 0"
definition farc_float :: ptr where "farc_float = Some 1"
definition farc_int :: ptr where "farc_int = Some 2"
definition farc_byte :: ptr where "farc_byte = Some 3"
definition farc_char :: ptr where "farc_char = Some 4"

text \<open>Looking up a handle that is not in the map enters it with NULL.\<close>

definition datatype_retrieve :: "platform \<Rightarrow> int \<Rightarrow> interposer \<Rightarrow> (ptr \<times> interposer) option" where
  "datatype_retrieve P dt_handle st =
     (if dt_handle = MPI_DOUBLE P then Some (farc_double, st)
      else if dt_handle = MPI_INT P then Some (farc_int, st)
      else if dt_handle = MPI_BYTE P then Some (farc_byte, st)
      else if dt_handle = MPI_CHAR P then Some (farc_char, st)
      else if dt_handle = MPI_FLOAT P then Some (farc_float, st)
      else if dt_handle < 0 then None
      else if dt_handle < DDT_FAST_CACHE_SIZE then Some (g_types st ! nat dt_handle, st)
      else case map_of (g_types_fallback st) dt_handle of
             Some res \<Rightarrow> Some (res, st)
           | None \<Rightarrow> Some (None, st\<lparr>g_types_fallback := AList.update dt_handle None (g_types_fallback st)\<rparr>))"

definition static_object :: "PrimitiveType \<Rightarrow> obj" where
  "static_object type = \<lparr>otype = PrimitiveDatatype type, ocode = None, ostatic = True\<rparr>"

text \<open>The state when the program starts, and after interposer\_init.\<close>

definition interposer_start :: "mem \<Rightarrow> interposer" where
  "interposer_start m = \<lparr>objs = [0 \<mapsto> static_object DOUBLE, 1 \<mapsto> static_object FLOAT, 2 \<mapsto> static_object INTEGER,
       3 \<mapsto> static_object BYTE, 4 \<mapsto> static_object CHARACTER],
     next_obj = 5, llmodule = [], g_types = replicate 50 None, g_types_freelist = [], g_types_fallback = [],
     g_outstanding_requests = [], scratch_in_use = False, malloced = Map.empty, memory = m\<rparr>"

definition interposer_init :: "interposer \<Rightarrow> interposer" where
  "interposer_init st = st\<lparr>g_types_freelist := g_types_freelist st @ map int [0..<nat DDT_FAST_CACHE_SIZE]\<rparr>"

section \<open>Constructors\<close>

text \<open>Each creates a handle, looks up the old type, builds the object and stores it.\<close>

definition store_new :: "int \<Rightarrow> ddt \<Rightarrow> interposer \<Rightarrow> (int \<times> interposer) option" where
  "store_new newtype t st = (let (ddt, st) = new_object t st in map_option (Pair newtype) (datatype_store newtype ddt st))"

definition retrieve_type :: "platform \<Rightarrow> int \<Rightarrow> interposer \<Rightarrow> (ddt \<times> interposer) option" where
  "retrieve_type P h st = Option.bind (datatype_retrieve P h st)
     (\<lambda>(p, st). map_option (\<lambda>ob. (otype ob, st)) (deref p st))"

definition interposer_hvector :: "platform \<Rightarrow> int \<Rightarrow> int \<Rightarrow> int \<Rightarrow> int \<Rightarrow> interposer \<Rightarrow> (int \<times> interposer) option" where
  "interposer_hvector P count blocklength stride oldtype st = (let (newtype, st) = datatype_handle_create st in
     Option.bind (retrieve_type P oldtype st) (\<lambda>(old, st).
       store_new newtype (HVectorDatatype count blocklength (int_of_long stride) old) st))"

definition interposer_vector :: "platform \<Rightarrow> int \<Rightarrow> int \<Rightarrow> int \<Rightarrow> int \<Rightarrow> interposer \<Rightarrow> (int \<times> interposer) option" where
  "interposer_vector P count blocklength stride oldtype st = (let (newtype, st) = datatype_handle_create st in
     Option.bind (retrieve_type P oldtype st) (\<lambda>(old, st).
       store_new newtype (VectorDatatype count blocklength stride old) st))"

fun retrieve_types :: "platform \<Rightarrow> int list \<Rightarrow> interposer \<Rightarrow> (ddt list \<times> interposer) option" where
  "retrieve_types P [] st = Some ([], st)"
| "retrieve_types P (h # hs) st = Option.bind (retrieve_type P h st) (\<lambda>(t, st).
     map_option (apfst ((#) t)) (retrieve_types P hs st))"

definition interposer_create_struct ::
  "platform \<Rightarrow> int \<Rightarrow> int list \<Rightarrow> int list \<Rightarrow> int list \<Rightarrow> interposer \<Rightarrow> (int \<times> interposer) option" where
  "interposer_create_struct P count blocklengths displacements types st =
     (if nat count \<le> length blocklengths \<and> nat count \<le> length displacements \<and> nat count \<le> length types
      then (let (newtype, st) = datatype_handle_create st in
        Option.bind (retrieve_types P (take (nat count) types) st) (\<lambda>(olds, st).
          store_new newtype (StructDatatype count blocklengths displacements olds) st))
      else None)"

definition interposer_struct ::
  "platform \<Rightarrow> int \<Rightarrow> int list \<Rightarrow> int list \<Rightarrow> int list \<Rightarrow> interposer \<Rightarrow> (int \<times> interposer) option" where
  "interposer_struct P count blocklengths displacements types st =
     (if nat count \<le> length blocklengths \<and> nat count \<le> length displacements \<and> nat count \<le> length types
      then (let (newtype, st) = datatype_handle_create st in
        Option.bind (retrieve_types P (take (nat count) types) st) (\<lambda>(olds, st).
          store_new newtype (StructDatatype count blocklengths displacements olds) st))
      else None)"

definition interposer_create_hvector :: "platform \<Rightarrow> int \<Rightarrow> int \<Rightarrow> int \<Rightarrow> int \<Rightarrow> interposer \<Rightarrow> (int \<times> interposer) option" where
  "interposer_create_hvector P count blocklength stride oldtype st = (let (newtype, st) = datatype_handle_create st in
     Option.bind (retrieve_type P oldtype st) (\<lambda>(old, st).
       store_new newtype (HVectorDatatype count blocklength (int_of_long stride) old) st))"

definition interposer_create_hindexed ::
  "platform \<Rightarrow> int \<Rightarrow> int list \<Rightarrow> int list \<Rightarrow> int \<Rightarrow> interposer \<Rightarrow> (int \<times> interposer) option" where
  "interposer_create_hindexed P count blocklengths displacements oldtype st =
     (if nat count \<le> length blocklengths \<and> nat count \<le> length displacements
      then (let (newtype, st) = datatype_handle_create st in
        Option.bind (retrieve_type P oldtype st) (\<lambda>(old, st).
          store_new newtype (HIndexedDatatype count blocklengths displacements old) st))
      else None)"

definition interposer_hindexed ::
  "platform \<Rightarrow> int \<Rightarrow> int list \<Rightarrow> int list \<Rightarrow> int \<Rightarrow> interposer \<Rightarrow> (int \<times> interposer) option" where
  "interposer_hindexed P count blocklengths displacements oldtype st =
     (if nat count \<le> length blocklengths \<and> nat count \<le> length displacements
      then (let (newtype, st) = datatype_handle_create st in
        Option.bind (retrieve_type P oldtype st) (\<lambda>(old, st).
          store_new newtype (HIndexedDatatype count blocklengths displacements old) st))
      else None)"

definition interposer_indexed_block ::
  "platform \<Rightarrow> int \<Rightarrow> int \<Rightarrow> int list \<Rightarrow> int \<Rightarrow> interposer \<Rightarrow> (int \<times> interposer) option" where
  "interposer_indexed_block P count blocklength displacements oldtype st =
     (if nat count \<le> length displacements
      then (let (newtype, st) = datatype_handle_create st in
        Option.bind (retrieve_type P oldtype st) (\<lambda>(old, st).
          store_new newtype (IndexedBlockDatatype count blocklength displacements old) st))
      else None)"

definition interposer_contiguous :: "platform \<Rightarrow> int \<Rightarrow> int \<Rightarrow> interposer \<Rightarrow> (int \<times> interposer) option" where
  "interposer_contiguous P count oldtype st = (let (newtype, st) = datatype_handle_create st in
     Option.bind (retrieve_type P oldtype st) (\<lambda>(old, st).
       store_new newtype (ContiguousDatatype count old) st))"

section \<open>Operations on a handle\<close>

definition interposer_commit :: "platform \<Rightarrow> int \<Rightarrow> interposer \<Rightarrow> interposer option" where
  "interposer_commit P datatype st = Option.bind (datatype_retrieve P datatype st)
     (\<lambda>(p, st). DDT_Commit_object p st)"

definition interposer_free :: "platform \<Rightarrow> int \<Rightarrow> interposer \<Rightarrow> interposer option" where
  "interposer_free P datatype st = Option.bind (datatype_retrieve P datatype st)
     (\<lambda>(p, st). map_option (datatype_handle_free datatype) (DDT_Free p st))"

definition interposer_type_size :: "platform \<Rightarrow> int \<Rightarrow> interposer \<Rightarrow> (int \<times> interposer) option" where
  "interposer_type_size P datatype st = map_option (apfst getSize) (retrieve_type P datatype st)"

definition interposer_type_extent :: "platform \<Rightarrow> int \<Rightarrow> interposer \<Rightarrow> (int \<times> interposer) option" where
  "interposer_type_extent P datatype st = map_option (apfst getExtent) (retrieve_type P datatype st)"

section \<open>Buffers\<close>

definition c_malloc :: "platform \<Rightarrow> int \<Rightarrow> interposer \<Rightarrow> i64 \<times> interposer" where
  "c_malloc P n st = (let (a, bs) = malloc P n (memory st)
     in (a, st\<lparr>malloced := (malloced st)(a \<mapsto> length bs),
               memory := (memory st)(run_at a (length bs) [\<mapsto>] bs)\<rparr>))"

definition c_free :: "i64 \<Rightarrow> interposer \<Rightarrow> interposer option" where
  "c_free a st = (case malloced st a of None \<Rightarrow> None | Some n \<Rightarrow>
     Some (st\<lparr>malloced := (malloced st)(a := None), memory := memory st |` (- set (run_at a n))\<rparr>))"

text \<open>
  The buffer and its size.  The size is an int in the code and an integer here: they agree for
  messages of less than 2 GB.
\<close>

definition interposer_buffer_alloc :: "platform \<Rightarrow> int \<Rightarrow> int \<Rightarrow> interposer \<Rightarrow> ((i64 \<times> int) \<times> interposer) option" where
  "interposer_buffer_alloc P count datatype st = Option.bind (retrieve_type P datatype st) (\<lambda>(t, st).
     let buf_size = getSize t * count
     in if buf_size \<le> scratch_size \<and> \<not> scratch_in_use st
        then Some ((scratch P, buf_size), st\<lparr>scratch_in_use := True\<rparr>)
        else (let (a, st) = c_malloc P buf_size st in Some ((a, buf_size), st)))"

definition interposer_buffer_free :: "platform \<Rightarrow> i64 \<Rightarrow> interposer \<Rightarrow> interposer option" where
  "interposer_buffer_free P buf st =
     (if buf \<noteq> scratch P then c_free buf st else Some (st\<lparr>scratch_in_use := True\<rparr>))"

section \<open>Packing\<close>

definition with_memory :: "mem option \<Rightarrow> interposer \<Rightarrow> interposer option" where
  "with_memory m st = map_option (\<lambda>m. st\<lparr>memory := m\<rparr>) m"

definition interposer_pack_providedbuf :: "platform \<Rightarrow> nat \<Rightarrow> i64 \<Rightarrow> int \<Rightarrow> int \<Rightarrow> i64 \<Rightarrow> interposer \<Rightarrow> interposer option" where
  "interposer_pack_providedbuf P k inbuf incount datatype outbuf st = Option.bind (datatype_retrieve P datatype st)
     (\<lambda>(p, st). with_memory (DDT_Pack_object k inbuf outbuf p (word_of_int incount) st (memory st)) st)"

definition interposer_pack :: "platform \<Rightarrow> nat \<Rightarrow> i64 \<Rightarrow> int \<Rightarrow> int \<Rightarrow> interposer \<Rightarrow> ((i64 \<times> int) \<times> interposer) option" where
  "interposer_pack P k data count datatype st = Option.bind (interposer_buffer_alloc P count datatype st)
     (\<lambda>((buf, buf_size), st). Option.bind (datatype_retrieve P datatype st)
       (\<lambda>(p, st). map_option (Pair (buf, buf_size))
          (with_memory (DDT_Pack_object k data buf p (word_of_int count) st (memory st)) st)))"

definition interposer_unpack :: "platform \<Rightarrow> nat \<Rightarrow> i64 \<Rightarrow> int \<Rightarrow> int \<Rightarrow> i64 \<Rightarrow> interposer \<Rightarrow> interposer option" where
  "interposer_unpack P k data count datatype buf st = Option.bind (datatype_retrieve P datatype st)
     (\<lambda>(p, st). with_memory (DDT_Unpack_object k buf data p (word_of_int count) st (memory st)) st)"

section \<open>Requests\<close>

text \<open>
  With LAZY 0 the call of DDT\_Lazy\_Unpack\_Commit for a receive does nothing but look up
  its argument.
\<close>

definition interposer_request_register ::
  "platform \<Rightarrow> i64 option \<Rightarrow> i64 option \<Rightarrow> int \<Rightarrow> int \<Rightarrow> nat \<Rightarrow> interposer \<Rightarrow> interposer option" where
  "interposer_request_register P tmp usr count datatype req st =
     (let r = \<lparr>mpi_req = req, tmpbuf = tmp, usrbuf = usr, req_count = count, req_datatype = datatype\<rparr>;
          st = st\<lparr>g_outstanding_requests := g_outstanding_requests st @ [r]\<rparr>
      in if tmp \<noteq> None \<and> is_recv r then map_option snd (datatype_retrieve P datatype st) else Some st)"

text \<open>What is done for the first request of a variable: a receive is unpacked, the buffer freed.\<close>

definition finish_request :: "platform \<Rightarrow> nat \<Rightarrow> request \<Rightarrow> interposer \<Rightarrow> interposer option" where
  "finish_request P k req st = (case tmpbuf req of None \<Rightarrow> Some st
   | Some buf \<Rightarrow> Option.bind (case usrbuf req of None \<Rightarrow> Some st
       | Some usr \<Rightarrow> interposer_unpack P k usr (req_count req) (req_datatype req) buf st)
       (interposer_buffer_free P buf))"

fun remove_first :: "nat \<Rightarrow> request list \<Rightarrow> request list" where
  "remove_first r [] = []"
| "remove_first r (req # reqs) = (if mpi_req req = r then reqs else req # remove_first r reqs)"

definition interposer_request_free :: "platform \<Rightarrow> nat \<Rightarrow> nat \<Rightarrow> interposer \<Rightarrow> interposer option" where
  "interposer_request_free P k r st = (case find (\<lambda>req. mpi_req req = r) (g_outstanding_requests st) of
     None \<Rightarrow> Some st
   | Some req \<Rightarrow> map_option (\<lambda>st. st\<lparr>g_outstanding_requests := remove_first r (g_outstanding_requests st)\<rparr>)
       (finish_request P k req st))"

end
