(* ===== verification/Handle_Table.thy ===== *)
theory Handle_Table
  imports Interposer
begin

text \<open>
  The table of datatype handles: its contract as a locale, the entries of the tables of
  the interposer as the abstraction, and what the constructors make of them.
\<close>

section \<open>The interface of a table of handles\<close>

locale handle_table =
  fixes create :: "'s \<Rightarrow> int \<times> 's"
    and release :: "int \<Rightarrow> 's \<Rightarrow> 's"
    and put :: "int \<Rightarrow> 'p \<Rightarrow> 's \<Rightarrow> 's option"
    and entry :: "'s \<Rightarrow> int \<Rightarrow> 'p option"
    and inv :: "'s \<Rightarrow> bool" and releasable :: "int \<Rightarrow> 's \<Rightarrow> bool"
  assumes create_spec: "inv st \<Longrightarrow> create st = (h, st') \<Longrightarrow>
      inv st' \<and> entry st h = None \<and> entry st' h \<noteq> None \<and> (\<forall>g. g \<noteq> h \<longrightarrow> entry st' g = entry st g)"
    and put_spec: "inv st \<Longrightarrow> entry st h \<noteq> None \<Longrightarrow>
      \<exists>st'. put h p st = Some st' \<and> inv st' \<and> entry st' = (entry st)(h \<mapsto> p)"
    and release_spec: "inv st \<Longrightarrow> entry st h \<noteq> None \<Longrightarrow> releasable h st \<Longrightarrow>
      inv (release h st) \<and> entry (release h st) = (entry st)(h := None)"
begin

text \<open>A new handle with its entry: the others keep theirs, and releasing it undoes both.\<close>

lemma create_put:
  assumes "inv st" "create st = (h, st1)"
  shows "\<exists>st2. put h p st1 = Some st2 \<and> inv st2 \<and> entry st h = None \<and> entry st2 = (entry st)(h \<mapsto> p)"
proof -
  note c = create_spec [OF assms]
  obtain st2 where st2: "put h p st1 = Some st2" "inv st2" "entry st2 = (entry st1)(h \<mapsto> p)"
    using put_spec [of st1 h p] c by blast
  moreover have "(entry st1)(h \<mapsto> p) = (entry st)(h \<mapsto> p)" using c by (auto simp: fun_eq_iff)
  ultimately show ?thesis using c by auto
qed

lemma create_release:
  assumes "inv st" "create st = (h, st1)" "put h p st1 = Some st2" "releasable h st2"
  shows "inv (release h st2) \<and> entry (release h st2) = entry st"
proof -
  have st2: "inv st2" "entry st h = None" "entry st2 = (entry st)(h \<mapsto> p)"
    using create_put [OF assms(1,2), of p] assms(3) by auto
  then show ?thesis using release_spec [of st2 h] assms(4) by (auto simp: fun_eq_iff)
qed

end

section \<open>The tables of the interposer\<close>

definition entries :: "interposer \<Rightarrow> int \<Rightarrow> ptr option" where
  "entries st h = (if 0 \<le> h \<and> h < DDT_FAST_CACHE_SIZE
     then (if h \<in> set (g_types_freelist st) then None else Some (g_types st ! nat h))
     else map_of (g_types_fallback st) h)"

text \<open>
  The fast slots that are free are in the queue once, and the fallback map has the handles
  from 50 on without a gap.
\<close>

definition fallback_handles :: "nat \<Rightarrow> int list" where
  "fallback_handles n = map (\<lambda>i. DDT_FAST_CACHE_SIZE + int i) [0..<n]"

definition tables_ok :: "interposer \<Rightarrow> bool" where
  "tables_ok st \<longleftrightarrow> length (g_types st) = nat DDT_FAST_CACHE_SIZE \<and> distinct (g_types_freelist st) \<and>
     set (g_types_freelist st) \<subseteq> {0..<DDT_FAST_CACHE_SIZE} \<and>
     map fst (g_types_fallback st) = fallback_handles (length (g_types_fallback st))"

definition releasable :: "int \<Rightarrow> interposer \<Rightarrow> bool" where
  "releasable h st \<longleftrightarrow> h < DDT_FAST_CACHE_SIZE \<or>
     h = DDT_FAST_CACHE_SIZE + int (length (g_types_fallback st)) - 1"

lemma fallback_handles_simps [simp]:
  "set (fallback_handles n) = {DDT_FAST_CACHE_SIZE..<DDT_FAST_CACHE_SIZE + int n}" "distinct (fallback_handles n)"
  "fallback_handles (Suc n) = fallback_handles n @ [DDT_FAST_CACHE_SIZE + int n]" "length (fallback_handles n) = n"
proof -
  show "set (fallback_handles n) = {DDT_FAST_CACHE_SIZE..<DDT_FAST_CACHE_SIZE + int n}"
  proof
    show "{DDT_FAST_CACHE_SIZE..<DDT_FAST_CACHE_SIZE + int n} \<subseteq> set (fallback_handles n)"
    proof
      fix h assume "h \<in> {DDT_FAST_CACHE_SIZE..<DDT_FAST_CACHE_SIZE + int n}"
      then have "h = DDT_FAST_CACHE_SIZE + int (nat (h - DDT_FAST_CACHE_SIZE))" "nat (h - DDT_FAST_CACHE_SIZE) < n" by auto
      then show "h \<in> set (fallback_handles n)" unfolding fallback_handles_def by (metis atLeast0LessThan atLeast_upt image_eqI lessThan_iff list.set_map)
    qed
  qed (auto simp: fallback_handles_def)
qed (auto simp: fallback_handles_def distinct_map inj_on_def)

lemma update_new: "k \<notin> fst ` set al \<Longrightarrow> AList.update k v al = al @ [(k, v)]"
  by (induction al) auto

lemma delete_last: "map fst al = ks @ [k] \<Longrightarrow> distinct (map fst al) \<Longrightarrow> AList.delete k al = butlast al"
proof -
  assume a: "map fst al = ks @ [k]" "distinct (map fst al)"
  then obtain al' v where al: "al = al' @ [(k, v)]" by (cases al rule: rev_cases) auto
  then have "k \<notin> set (map fst al')" using a by simp
  then have "AList.delete k al' = al'" by simp
  then show ?thesis using al by (simp add: AList.delete_eq filter_append)
qed

lemma tables_okD:
  assumes "tables_ok st"
  shows "length (g_types st) = 50" "distinct (g_types_freelist st)" "\<And>h. h \<in> set (g_types_freelist st) \<Longrightarrow> 0 \<le> h \<and> h < 50"
    "fst ` set (g_types_fallback st) = {50..<50 + int (length (g_types_fallback st))}" "distinct (map fst (g_types_fallback st))"
proof -
  have "set (map fst (g_types_fallback st)) = {50..<50 + int (length (g_types_fallback st))}"
    using assms unfolding tables_ok_def by (metis DDT_FAST_CACHE_SIZE_def fallback_handles_simps(1))
  then show "fst ` set (g_types_fallback st) = {50..<50 + int (length (g_types_fallback st))}" by simp
  show "distinct (map fst (g_types_fallback st))"
    using assms unfolding tables_ok_def by (metis fallback_handles_simps(2))
qed (use assms in \<open>auto simp: tables_ok_def DDT_FAST_CACHE_SIZE_def\<close>)

lemma entry_nonneg: "tables_ok st \<Longrightarrow> entries st h \<noteq> None \<Longrightarrow> 0 \<le> h"
proof (rule ccontr)
  assume ok: "tables_ok st" and l: "entries st h \<noteq> None" and neg: "\<not> 0 \<le> h"
  then have "h \<in> fst ` set (g_types_fallback st)" by (auto simp: entries_def map_of_eq_None_iff)
  then show False using tables_okD(4) [OF ok] neg by auto
qed

lemma created:
  assumes ok: "tables_ok st" and c: "datatype_handle_create st = (h, st')"
  shows "tables_ok st' \<and> entries st h = None \<and> entries st' h \<noteq> None \<and> (\<forall>g. g \<noteq> h \<longrightarrow> entries st' g = entries st g)"
proof (cases "g_types_freelist st")
  case Nil
  let ?h = "DDT_FAST_CACHE_SIZE + int (length (g_types_fallback st))"
  have new: "?h \<notin> fst ` set (g_types_fallback st)" using tables_okD(4) [OF ok] by (simp add: DDT_FAST_CACHE_SIZE_def)
  have h: "h = ?h" "st' = st\<lparr>g_types_fallback := g_types_fallback st @ [(?h, None)]\<rparr>"
    using c Nil new by (auto simp: datatype_handle_create_def Let_def update_new)
  have "map_of (g_types_fallback st) ?h = None" using new by (simp add: map_of_eq_None_iff)
  then show ?thesis using ok by (auto simp: h tables_ok_def entries_def DDT_FAST_CACHE_SIZE_def map_add_def split: option.splits)
next
  case (Cons a q)
  then have h: "h = a" "st' = st\<lparr>g_types_freelist := q\<rparr>" using c by (auto simp: datatype_handle_create_def)
  have a: "0 \<le> a" "a < DDT_FAST_CACHE_SIZE" "a \<notin> set q" using ok Cons by (auto simp: tables_ok_def)
  show ?thesis using ok Cons a by (auto simp: h tables_ok_def entries_def)
qed

lemma put_entry:
  assumes ok: "tables_ok st" and l: "entries st h \<noteq> None"
  shows "\<exists>st'. datatype_store h p st = Some st' \<and> tables_ok st' \<and> entries st' = (entries st)(h \<mapsto> p)"
proof (cases "h < DDT_FAST_CACHE_SIZE")
  case True
  have h0: "0 \<le> h" using entry_nonneg [OF ok l] .
  have "entries (st\<lparr>g_types := (g_types st)[nat h := p]\<rparr>) = (entries st)(h \<mapsto> p)"
    using True h0 l tables_okD(1) [OF ok] by (auto simp: entries_def fun_eq_iff nth_list_update DDT_FAST_CACHE_SIZE_def)
  then show ?thesis using True h0 ok by (auto simp: datatype_store_def tables_ok_def)
next
  case False
  then have h: "h \<in> fst ` set (g_types_fallback st)" "\<not> h < 0" "\<not> h < DDT_FAST_CACHE_SIZE"
    using l by (auto simp: entries_def map_of_eq_None_iff DDT_FAST_CACHE_SIZE_def)
  have "map fst (AList.update h p (g_types_fallback st)) = map fst (g_types_fallback st)"
    using h(1) AList.update_keys [of h p "g_types_fallback st"] by simp
  moreover from this have "length (AList.update h p (g_types_fallback st)) = length (g_types_fallback st)"
    by (metis length_map)
  ultimately have "tables_ok (st\<lparr>g_types_fallback := AList.update h p (g_types_fallback st)\<rparr>)"
    using ok by (simp add: tables_ok_def)
  moreover have "entries (st\<lparr>g_types_fallback := AList.update h p (g_types_fallback st)\<rparr>) = (entries st)(h \<mapsto> p)"
    using h by (auto simp: entries_def fun_eq_iff AList.update_conv')
  ultimately show ?thesis using h by (simp add: datatype_store_def)
qed

lemma released:
  assumes ok: "tables_ok st" and l: "entries st h \<noteq> None" and r: "releasable h st"
  shows "tables_ok (datatype_handle_free h st) \<and> entries (datatype_handle_free h st) = (entries st)(h := None)"
proof (cases "h < DDT_FAST_CACHE_SIZE")
  case True
  have "0 \<le> h" using entry_nonneg [OF ok l] .
  moreover from this have "h \<notin> set (g_types_freelist st)" using True l by (auto simp: entries_def)
  ultimately show ?thesis using ok True by (auto simp: datatype_handle_free_def tables_ok_def entries_def fun_eq_iff)
next
  case False
  let ?al = "g_types_fallback st"
  have "?al \<noteq> []" using False l by (auto simp: entries_def)
  then obtain n where n: "length ?al = Suc n" by (cases ?al) auto
  have keys: "map fst ?al = fallback_handles n @ [h]"
    using ok r False n by (simp add: tables_ok_def releasable_def)
  have del: "AList.delete h ?al = butlast ?al"
    by (rule delete_last [OF keys tables_okD(5) [OF ok]])
  have "map fst (butlast ?al) = fallback_handles n" using keys by (metis butlast_snoc map_butlast)
  then have "tables_ok (st\<lparr>g_types_fallback := butlast ?al\<rparr>)" using ok n by (simp add: tables_ok_def)
  moreover have "entries (st\<lparr>g_types_fallback := AList.delete h ?al\<rparr>) = (entries st)(h := None)"
    using False by (auto simp: entries_def fun_eq_iff AList.delete_conv')
  ultimately show ?thesis using False by (simp add: datatype_handle_free_def del)
qed

interpretation handles: handle_table datatype_handle_create datatype_handle_free datatype_store entries tables_ok releasable
  by unfold_locales (simp_all add: created put_entry released)

section \<open>Looking up a datatype\<close>

definition primitive_handles :: "platform \<Rightarrow> int list" where
  "primitive_handles P = [MPI_DOUBLE P, MPI_INT P, MPI_BYTE P, MPI_CHAR P, MPI_FLOAT P]"

text \<open>The handles of the MPI library below are none that the interposer gives out next.\<close>

definition apart :: "platform \<Rightarrow> interposer \<Rightarrow> bool" where
  "apart P st \<longleftrightarrow> list_all (\<lambda>h. h < 0 \<or> DDT_FAST_CACHE_SIZE + int (length (g_types_fallback st)) < h) (primitive_handles P)"

lemma retrieve_primitive:
  "h \<in> set (primitive_handles P) \<Longrightarrow> \<exists>a < 5. datatype_retrieve P h st = Some (Some a, st) \<and>
     (\<forall>st'. datatype_retrieve P h st' = Some (Some a, st'))"
  by (auto simp: datatype_retrieve_def primitive_handles_def farc_double_def farc_int_def farc_byte_def farc_char_def farc_float_def)

lemma retrieve_user:
  "h \<notin> set (primitive_handles P) \<Longrightarrow> datatype_retrieve P h st =
     (if h < 0 then None else if h < DDT_FAST_CACHE_SIZE then Some (g_types st ! nat h, st)
      else case map_of (g_types_fallback st) h of Some res \<Rightarrow> Some (res, st)
        | None \<Rightarrow> Some (None, st\<lparr>g_types_fallback := AList.update h None (g_types_fallback st)\<rparr>))"
  by (simp add: datatype_retrieve_def primitive_handles_def)

lemma retrieve_entry:
  assumes "tables_ok st" "entries st h = Some p" "h \<notin> set (primitive_handles P)"
  shows "datatype_retrieve P h st = Some (p, st)"
proof -
  have "0 \<le> h" using entry_nonneg [OF assms(1)] assms(2) by simp
  then show ?thesis using assms(2,3) by (auto simp: retrieve_user entries_def split: if_splits)
qed

text \<open>A lookup that finds an object changes nothing.\<close>

lemma retrieve_type_same: "retrieve_type P h st = Some (t, st') \<Longrightarrow> st' = st"
proof (cases "h \<in> set (primitive_handles P)")
  case True
  then show "retrieve_type P h st = Some (t, st') \<Longrightarrow> st' = st"
    using retrieve_primitive [OF True, of st] by (auto simp: retrieve_type_def)
qed (auto simp: retrieve_type_def retrieve_user split: if_splits option.splits)

text \<open>It finds the same in a state that extends this one.\<close>

definition same_handles :: "int \<Rightarrow> interposer \<Rightarrow> interposer \<Rightarrow> bool" where
  "same_handles h st st' \<longleftrightarrow> (\<forall>a ob. objs st a = Some ob \<longrightarrow> objs st' a = Some ob) \<and>
     (\<forall>g. g \<noteq> h \<and> 0 \<le> g \<and> g < DDT_FAST_CACHE_SIZE \<longrightarrow> g_types st' ! nat g = g_types st ! nat g) \<and>
     (\<forall>g. g \<noteq> h \<longrightarrow> map_of (g_types_fallback st') g = map_of (g_types_fallback st) g)"

lemma retrieve_extends:
  assumes r: "retrieve_type P g st = Some (t, st)" and e: "same_handles h st st'" and g: "g \<noteq> h \<or> g \<in> set (primitive_handles P)"
  shows "retrieve_type P g st' = Some (t, st')"
proof (cases "g \<in> set (primitive_handles P)")
  case True
  then obtain a where a: "datatype_retrieve P g st = Some (Some a, st)" "datatype_retrieve P g st' = Some (Some a, st')"
    using retrieve_primitive by blast
  then show ?thesis using r e by (auto simp: retrieve_type_def same_handles_def)
next
  case False
  then show ?thesis using r e g
    by (auto simp: retrieve_type_def retrieve_user same_handles_def deref_def split: if_splits option.splits Option.bind_splits)
qed

lemma same_handles_trans: "same_handles h st st1 \<Longrightarrow> same_handles h st1 st2 \<Longrightarrow> same_handles h st st2"
  by (simp add: same_handles_def)

lemma create_extends:
  assumes "tables_ok st" "datatype_handle_create st = (h, st1)"
  shows "same_handles h st st1"
proof (cases "g_types_freelist st")
  case Nil
  then show ?thesis using assms(2) by (auto simp: same_handles_def datatype_handle_create_def Let_def AList.update_conv')
next
  case (Cons a q)
  then show ?thesis using assms(2) by (auto simp: same_handles_def datatype_handle_create_def)
qed

lemma new_object_tables [simp]:
  "tables_ok (snd (new_object t st)) = tables_ok st" "entries (snd (new_object t st)) = entries st"
  "apart P (snd (new_object t st)) = apart P st"
  by (simp_all add: new_object_def tables_ok_def entries_def fun_eq_iff apart_def)

lemma new_object_extends: "store_ok st \<Longrightarrow> same_handles h st (snd (new_object t st))"
  by (auto simp: same_handles_def new_object_def store_ok_def)

lemma put_extends:
  assumes "tables_ok st" "datatype_store h p st = Some st'"
  shows "same_handles h st st' \<and> objs st' = objs st \<and> next_obj st' = next_obj st"
  using assms(2) tables_okD(1) [OF assms(1)]
  by (auto simp: same_handles_def datatype_store_def AList.update_conv' nth_list_update nat_eq_iff split: if_splits)

lemma create_not_primitive:
  assumes "tables_ok st" "apart P st" "datatype_handle_create st = (h, st1)"
  shows "h \<notin> set (primitive_handles P)"
proof -
  have "0 \<le> h \<and> h \<le> DDT_FAST_CACHE_SIZE + int (length (g_types_fallback st))"
    using assms(3) tables_okD(3) [OF assms(1), of h]
    by (auto simp: datatype_handle_create_def Let_def DDT_FAST_CACHE_SIZE_def split: list.splits)
  then show ?thesis using assms(2) by (auto simp: apart_def list_all_iff)
qed

section \<open>Constructors\<close>

definition tables :: "platform \<Rightarrow> interposer \<Rightarrow> bool" where
  "tables P st \<longleftrightarrow> store_ok st \<and> tables_ok st \<and> apart P st"

text \<open>What every constructor does: a handle that was not in use denotes the new type.\<close>

definition new_type :: "platform \<Rightarrow> interposer \<Rightarrow> int \<Rightarrow> ddt \<Rightarrow> interposer \<Rightarrow> bool" where
  "new_type P st h t st' \<longleftrightarrow> store_ok st' \<and> tables_ok st' \<and> entries st h = None \<and>
     retrieve_type P h st' = Some (t, st') \<and>
     (\<forall>g u. retrieve_type P g st = Some (u, st) \<and> g \<noteq> h \<longrightarrow> retrieve_type P g st' = Some (u, st'))"

lemma datatype_store_ok: "datatype_store h p st = Some st' \<Longrightarrow> store_ok st \<Longrightarrow> store_ok st'"
  by (auto simp: datatype_store_def store_ok_def split: if_splits)

lemma create_store_ok: "datatype_handle_create st = (h, st1) \<Longrightarrow> store_ok st \<Longrightarrow> store_ok st1"
  by (auto simp: datatype_handle_create_def Let_def store_ok_def split: list.splits)

lemma construct:
  assumes ok: "tables P st" and c: "datatype_handle_create st = (h, st1)" and b: "built t"
  shows "\<exists>st'. store_new h t st1 = Some (h, st') \<and> new_type P st h t st'"
proof -
  have st: "store_ok st" "tables_ok st" "apart P st" using ok by (simp_all add: tables_def)
  note cr = created [OF st(2) c]
  let ?st2 = "snd (new_object t st1)" and ?p = "Some (next_obj st1)"
  have st1: "store_ok st1" using create_store_ok [OF c st(1)] .
  have st2: "store_ok ?st2" "tables_ok ?st2" "entries ?st2 h \<noteq> None"
    using new_object_ok [OF st1 b] cr by simp_all
  obtain st' where p: "datatype_store h ?p ?st2 = Some st'" "tables_ok st'" "entries st' = (entries ?st2)(h \<mapsto> ?p)"
    using put_entry [OF st2(2,3)] by blast
  note px = put_extends [OF st2(2) p(1)]
  have ext: "same_handles h st st'"
    using same_handles_trans [OF create_extends [OF st(2) c] same_handles_trans [OF new_object_extends [OF st1]]] px by blast
  have "datatype_retrieve P h st' = Some (?p, st')"
    using retrieve_entry [OF p(2) _ create_not_primitive [OF st(2,3) c]] p(3) by simp
  moreover have "objs st' (next_obj st1) = Some \<lparr>otype = t, ocode = None, ostatic = False\<rparr>"
    using px by (simp add: new_object_def)
  ultimately have "retrieve_type P h st' = Some (t, st')" by (simp add: retrieve_type_def)
  moreover have "store_new h t st1 = Some (h, st')" using p(1) by (simp add: store_new_def new_object_def Let_def)
  ultimately show ?thesis
    using cr p(2) datatype_store_ok [OF p(1) st2(1)] retrieve_extends [OF _ ext] by (auto simp: new_type_def)
qed

text \<open>The old type is found after the new handle was created.\<close>

lemma retrieve_created:
  assumes ok: "tables P st" and c: "datatype_handle_create st = (h, st1)" and r: "retrieve_type P g st = Some (t, st)"
  shows "retrieve_type P g st1 = Some (t, st1)"
proof (cases "g = h \<and> g \<notin> set (primitive_handles P)")
  case True
  have st: "tables_ok st" using ok by (simp add: tables_def)
  have n: "h \<notin> set (primitive_handles P)" using True by blast
  show ?thesis
  proof (cases "g_types_freelist st")
    case Nil
    then have "h = DDT_FAST_CACHE_SIZE + int (length (g_types_fallback st))"
      using c by (auto simp: datatype_handle_create_def Let_def)
    moreover from this have "map_of (g_types_fallback st) h = None"
      using tables_okD(4) [OF st] by (simp add: map_of_eq_None_iff DDT_FAST_CACHE_SIZE_def)
    ultimately show ?thesis using r n True by (simp add: retrieve_type_def retrieve_user DDT_FAST_CACHE_SIZE_def)
  next
    case (Cons a q)
    then have "st1 = st\<lparr>g_types_freelist := q\<rparr>" "h = a" using c by (auto simp: datatype_handle_create_def)
    moreover have "0 \<le> a \<and> a < DDT_FAST_CACHE_SIZE" using st Cons by (auto simp: tables_ok_def)
    ultimately show ?thesis using r n True by (auto simp: retrieve_type_def retrieve_user deref_def)
  qed
next
  case False
  have "tables_ok st" using ok by (simp add: tables_def)
  then show ?thesis using retrieve_extends [OF r create_extends [OF _ c]] False by blast
qed

lemma constructor:
  assumes ok: "tables P st" and r: "retrieve_type P old st = Some (b, st)" and t: "built (f b)"
  shows "\<exists>h st'. (let (newtype, st) = datatype_handle_create st in
     Option.bind (retrieve_type P old st) (\<lambda>(old, st). store_new newtype (f old) st)) = Some (h, st') \<and> new_type P st h (f b) st'"
proof -
  obtain h st1 where c: "datatype_handle_create st = (h, st1)" by force
  obtain st' where "store_new h (f b) st1 = Some (h, st')" "new_type P st h (f b) st'"
    using construct [OF ok c t] by blast
  then show ?thesis using c retrieve_created [OF ok c r] by auto
qed

lemma retrieve_types_created:
  assumes ok: "tables P st" and c: "datatype_handle_create st = (h, st1)"
    and r: "list_all2 (\<lambda>g t. retrieve_type P g st = Some (t, st)) olds ts"
  shows "retrieve_types P olds st1 = Some (ts, st1)"
  using r by (induction rule: list_all2_induct) (auto simp: retrieve_created [OF ok c])

lemma retrieve_built: "store_ok st \<Longrightarrow> retrieve_type P h st = Some (t, st') \<Longrightarrow> built t"
proof -
  assume s: "store_ok st" and r: "retrieve_type P h st = Some (t, st')"
  then obtain p ob st2 where "datatype_retrieve P h st = Some (p, st2)" "deref p st2 = Some ob" "t = otype ob"
    by (auto simp: retrieve_type_def split: Option.bind_splits)
  moreover from this have "deref p st = Some ob" by (auto simp: datatype_retrieve_def split: if_splits option.splits)
  ultimately show "built t" using deref_ok [OF s] by (auto simp: obj_ok_def)
qed

end
