(* ===== verification/MPI_Interface.thy ===== *)
theory MPI_Interface
  imports Handle_Table
begin

text \<open>
  The MPI functions of interposer.c and interposer\_common.cpp.  The functions of the
  MPI library they call (PMPI\_...) are a parameter: each acts on the memory of the
  process and on a network \<open>'n\<close> of which nothing is known.  An argument list \<open>peer\<close>
  stands for the rank, the tag and the communicator, which are passed on.
  The value of an MPI\_Request is kept by the address of its variable; the library sets
  it to MPI\_REQUEST\_NULL when the operation has completed.
\<close>

section \<open>The library below\<close>

type_synonym peer = "int \<times> int \<times> int"

record 'n pmpi =
  PMPI_Send :: "i64 \<Rightarrow> int \<Rightarrow> int \<Rightarrow> peer \<Rightarrow> mem \<Rightarrow> 'n \<Rightarrow> 'n"
  PMPI_Recv :: "i64 \<Rightarrow> int \<Rightarrow> int \<Rightarrow> peer \<Rightarrow> 'n \<Rightarrow> mem \<Rightarrow> mem \<times> 'n"
  PMPI_Isend :: "i64 \<Rightarrow> int \<Rightarrow> int \<Rightarrow> peer \<Rightarrow> mem \<Rightarrow> 'n \<Rightarrow> int \<times> 'n"
  PMPI_Irecv :: "i64 \<Rightarrow> int \<Rightarrow> int \<Rightarrow> peer \<Rightarrow> 'n \<Rightarrow> int \<times> 'n"
  PMPI_Wait :: "int \<Rightarrow> 'n \<Rightarrow> mem \<Rightarrow> int \<times> mem \<times> 'n"
  PMPI_Test :: "int \<Rightarrow> 'n \<Rightarrow> mem \<Rightarrow> int \<times> bool \<times> mem \<times> 'n"
  PMPI_Waitall :: "int list \<Rightarrow> 'n \<Rightarrow> mem \<Rightarrow> int \<times> mem \<times> 'n"
  PMPI_Testall :: "int list \<Rightarrow> 'n \<Rightarrow> mem \<Rightarrow> int \<times> bool \<times> int list \<times> mem \<times> 'n"

text \<open>A process: the tables of the interposer, the network and its request variables.\<close>

record 'n process =
  tables_of :: interposer
  net :: 'n
  request_var :: "nat \<Rightarrow> int"

definition set_requests :: "nat \<Rightarrow> int list \<Rightarrow> (nat \<Rightarrow> int) \<Rightarrow> nat \<Rightarrow> int" where
  "set_requests a vs f = fold (\<lambda>i g. g(a + i := vs ! i)) [0..<length vs] f"

section \<open>Initialisation and datatypes\<close>

definition MPI_Init :: "'n process \<Rightarrow> 'n process" where
  "MPI_Init w = w\<lparr>tables_of := interposer_init (tables_of w)\<rparr>"

text \<open>The constructors, MPI\_Type\_commit and MPI\_Type\_free call their namesakes of the interposer.\<close>

definition in_tables :: "'n process \<Rightarrow> (int \<times> interposer) option \<Rightarrow> (int \<times> 'n process) option" where
  "in_tables w r = map_option (\<lambda>(h, st). (h, w\<lparr>tables_of := st\<rparr>)) r"

definition MPI_Type_hvector :: "platform \<Rightarrow> int \<Rightarrow> int \<Rightarrow> int \<Rightarrow> int \<Rightarrow> 'n process \<Rightarrow> (int \<times> 'n process) option" where
  "MPI_Type_hvector P count blocklength stride oldtype w =
     in_tables w (interposer_hvector P count blocklength stride oldtype (tables_of w))"

definition MPI_Type_vector :: "platform \<Rightarrow> int \<Rightarrow> int \<Rightarrow> int \<Rightarrow> int \<Rightarrow> 'n process \<Rightarrow> (int \<times> 'n process) option" where
  "MPI_Type_vector P count blocklength stride oldtype w =
     in_tables w (interposer_vector P count blocklength stride oldtype (tables_of w))"

definition MPI_Type_create_struct ::
  "platform \<Rightarrow> int \<Rightarrow> int list \<Rightarrow> int list \<Rightarrow> int list \<Rightarrow> 'n process \<Rightarrow> (int \<times> 'n process) option" where
  "MPI_Type_create_struct P count blocklengths displacements types w =
     in_tables w (interposer_create_struct P count blocklengths displacements types (tables_of w))"

definition MPI_Type_struct ::
  "platform \<Rightarrow> int \<Rightarrow> int list \<Rightarrow> int list \<Rightarrow> int list \<Rightarrow> 'n process \<Rightarrow> (int \<times> 'n process) option" where
  "MPI_Type_struct P count blocklengths displacements types w =
     in_tables w (interposer_struct P count blocklengths displacements types (tables_of w))"

definition MPI_Type_create_hvector :: "platform \<Rightarrow> int \<Rightarrow> int \<Rightarrow> int \<Rightarrow> int \<Rightarrow> 'n process \<Rightarrow> (int \<times> 'n process) option" where
  "MPI_Type_create_hvector P count blocklength stride oldtype w =
     in_tables w (interposer_create_hvector P count blocklength stride oldtype (tables_of w))"

definition MPI_Type_create_hindexed ::
  "platform \<Rightarrow> int \<Rightarrow> int list \<Rightarrow> int list \<Rightarrow> int \<Rightarrow> 'n process \<Rightarrow> (int \<times> 'n process) option" where
  "MPI_Type_create_hindexed P count blocklengths displacements oldtype w =
     in_tables w (interposer_create_hindexed P count blocklengths displacements oldtype (tables_of w))"

definition MPI_Type_hindexed ::
  "platform \<Rightarrow> int \<Rightarrow> int list \<Rightarrow> int list \<Rightarrow> int \<Rightarrow> 'n process \<Rightarrow> (int \<times> 'n process) option" where
  "MPI_Type_hindexed P count blocklengths displacements oldtype w =
     in_tables w (interposer_hindexed P count blocklengths displacements oldtype (tables_of w))"

definition MPI_Type_create_indexed_block ::
  "platform \<Rightarrow> int \<Rightarrow> int \<Rightarrow> int list \<Rightarrow> int \<Rightarrow> 'n process \<Rightarrow> (int \<times> 'n process) option" where
  "MPI_Type_create_indexed_block P count blocklength displacements oldtype w =
     in_tables w (interposer_indexed_block P count blocklength displacements oldtype (tables_of w))"

definition MPI_Type_contiguous :: "platform \<Rightarrow> int \<Rightarrow> int \<Rightarrow> 'n process \<Rightarrow> (int \<times> 'n process) option" where
  "MPI_Type_contiguous P count oldtype w = in_tables w (interposer_contiguous P count oldtype (tables_of w))"

definition MPI_Type_commit :: "platform \<Rightarrow> int \<Rightarrow> 'n process \<Rightarrow> 'n process option" where
  "MPI_Type_commit P datatype w = map_option (\<lambda>st. w\<lparr>tables_of := st\<rparr>) (interposer_commit P datatype (tables_of w))"

definition MPI_Type_free :: "platform \<Rightarrow> int \<Rightarrow> 'n process \<Rightarrow> 'n process option" where
  "MPI_Type_free P datatype w = map_option (\<lambda>st. w\<lparr>tables_of := st\<rparr>) (interposer_free P datatype (tables_of w))"

definition MPI_Type_size :: "platform \<Rightarrow> int \<Rightarrow> 'n process \<Rightarrow> (int \<times> 'n process) option" where
  "MPI_Type_size P datatype w = in_tables w (interposer_type_size P datatype (tables_of w))"

definition MPI_Type_extent :: "platform \<Rightarrow> int \<Rightarrow> 'n process \<Rightarrow> (int \<times> 'n process) option" where
  "MPI_Type_extent P datatype w = in_tables w (interposer_type_extent P datatype (tables_of w))"

section \<open>Communication\<close>

definition packs_type :: "platform \<Rightarrow> int \<Rightarrow> bool" where
  "packs_type P datatype \<longleftrightarrow> datatype \<noteq> MPI_DOUBLE P \<and> datatype \<noteq> MPI_FLOAT P \<and> datatype \<noteq> MPI_INT P \<and>
     datatype \<noteq> MPI_BYTE P \<and> datatype \<noteq> MPI_CHAR P \<and> datatype \<noteq> MPI_PACKED P"

definition MPI_Send :: "platform \<Rightarrow> 'n pmpi \<Rightarrow> nat \<Rightarrow> i64 \<Rightarrow> int \<Rightarrow> int \<Rightarrow> peer \<Rightarrow> 'n process \<Rightarrow> 'n process option" where
  "MPI_Send P N k buf count datatype peer w =
     (if packs_type P datatype
      then Option.bind (interposer_pack P k buf count datatype (tables_of w)) (\<lambda>((outbuf, outsize), st).
        let n = PMPI_Send N outbuf outsize (MPI_BYTE P) peer (memory st) (net w)
        in map_option (\<lambda>st. w\<lparr>tables_of := st, net := n\<rparr>) (interposer_buffer_free P outbuf st))
      else Some (w\<lparr>net := PMPI_Send N buf count datatype peer (memory (tables_of w)) (net w)\<rparr>))"

definition MPI_Recv :: "platform \<Rightarrow> 'n pmpi \<Rightarrow> nat \<Rightarrow> i64 \<Rightarrow> int \<Rightarrow> int \<Rightarrow> peer \<Rightarrow> 'n process \<Rightarrow> 'n process option" where
  "MPI_Recv P N k buf count datatype peer w =
     (if packs_type P datatype
      then Option.bind (interposer_buffer_alloc P count datatype (tables_of w)) (\<lambda>((inbuf, insize), st).
        let (m, n) = PMPI_Recv N inbuf insize (MPI_BYTE P) peer (net w) (memory st)
        in map_option (\<lambda>st. w\<lparr>tables_of := st, net := n\<rparr>)
          (Option.bind (interposer_unpack P k buf count datatype inbuf (st\<lparr>memory := m\<rparr>)) (interposer_buffer_free P inbuf)))
      else (let (m, n) = PMPI_Recv N buf count datatype peer (net w) (memory (tables_of w))
        in Some (w\<lparr>tables_of := (tables_of w)\<lparr>memory := m\<rparr>, net := n\<rparr>)))"

definition MPI_Isend :: "platform \<Rightarrow> 'n pmpi \<Rightarrow> nat \<Rightarrow> i64 \<Rightarrow> int \<Rightarrow> int \<Rightarrow> peer \<Rightarrow> nat \<Rightarrow> 'n process \<Rightarrow> 'n process option" where
  "MPI_Isend P N k buf count datatype peer request w =
     (if packs_type P datatype
      then Option.bind (interposer_pack P k buf count datatype (tables_of w)) (\<lambda>((outbuf, outsize), st).
        let (r, n) = PMPI_Isend N outbuf outsize (MPI_BYTE P) peer (memory st) (net w)
        in map_option (\<lambda>st. w\<lparr>tables_of := st, net := n, request_var := (request_var w)(request := r)\<rparr>)
          (interposer_request_register P (Some outbuf) None 0 0 request st))
      else (let (r, n) = PMPI_Isend N buf count datatype peer (memory (tables_of w)) (net w)
        in map_option (\<lambda>st. w\<lparr>tables_of := st, net := n, request_var := (request_var w)(request := r)\<rparr>)
          (interposer_request_register P None None 0 0 request (tables_of w))))"

definition MPI_Irecv :: "platform \<Rightarrow> 'n pmpi \<Rightarrow> i64 \<Rightarrow> int \<Rightarrow> int \<Rightarrow> peer \<Rightarrow> nat \<Rightarrow> 'n process \<Rightarrow> 'n process option" where
  "MPI_Irecv P N buf count datatype peer request w =
     (if packs_type P datatype
      then Option.bind (interposer_buffer_alloc P count datatype (tables_of w)) (\<lambda>((inbuf, insize), st).
        let (r, n) = PMPI_Irecv N inbuf insize (MPI_BYTE P) peer (net w)
        in map_option (\<lambda>st. w\<lparr>tables_of := st, net := n, request_var := (request_var w)(request := r)\<rparr>)
          (interposer_request_register P (Some inbuf) (Some buf) count datatype request st))
      else (let (r, n) = PMPI_Irecv N buf count datatype peer (net w)
        in map_option (\<lambda>st. w\<lparr>tables_of := st, net := n, request_var := (request_var w)(request := r)\<rparr>)
          (interposer_request_register P None None 0 0 request (tables_of w))))"

text \<open>MPI\_Pack and MPI\_Unpack leave the position as it is, and pack at the start of the buffer.\<close>

definition MPI_Pack :: "platform \<Rightarrow> nat \<Rightarrow> i64 \<Rightarrow> int \<Rightarrow> int \<Rightarrow> i64 \<Rightarrow> int \<Rightarrow> int \<Rightarrow> 'n process \<Rightarrow> (int \<times> 'n process) option" where
  "MPI_Pack P k inbuf incount datatype outbuf outsize position w =
     map_option (\<lambda>st. (position, w\<lparr>tables_of := st\<rparr>))
       (interposer_pack_providedbuf P k inbuf incount datatype outbuf (tables_of w))"

definition MPI_Unpack :: "platform \<Rightarrow> nat \<Rightarrow> i64 \<Rightarrow> int \<Rightarrow> int \<Rightarrow> i64 \<Rightarrow> int \<Rightarrow> int \<Rightarrow> 'n process \<Rightarrow> (int \<times> 'n process) option" where
  "MPI_Unpack P k inbuf insize position outbuf outcount datatype w =
     map_option (\<lambda>st. (position, w\<lparr>tables_of := st\<rparr>))
       (interposer_unpack P k outbuf outcount datatype inbuf (tables_of w))"

section \<open>Completion\<close>

definition MPI_Wait :: "platform \<Rightarrow> 'n pmpi \<Rightarrow> nat \<Rightarrow> nat \<Rightarrow> 'n process \<Rightarrow> (int \<times> 'n process) option" where
  "MPI_Wait P N k request w =
     (let (ret, m, n) = PMPI_Wait N (request_var w request) (net w) (memory (tables_of w));
          st = (tables_of w)\<lparr>memory := m\<rparr>;
          w' = w\<lparr>tables_of := st, net := n, request_var := (request_var w)(request := MPI_REQUEST_NULL P)\<rparr>
      in if request_var w request \<noteq> MPI_REQUEST_NULL P
         then map_option (\<lambda>st. (ret, w'\<lparr>tables_of := st\<rparr>)) (interposer_request_free P k request st)
         else Some (ret, w'))"

text \<open>The requests that were not null are freed one after the other.\<close>

fun free_requests :: "platform \<Rightarrow> nat \<Rightarrow> nat list \<Rightarrow> interposer \<Rightarrow> interposer option" where
  "free_requests P k [] st = Some st"
| "free_requests P k (r # rs) st = Option.bind (interposer_request_free P k r st) (free_requests P k rs)"

definition MPI_Waitall :: "platform \<Rightarrow> 'n pmpi \<Rightarrow> nat \<Rightarrow> int \<Rightarrow> nat \<Rightarrow> 'n process \<Rightarrow> (int \<times> 'n process) option" where
  "MPI_Waitall P N k count array_of_requests w =
     (let oldrequests = map (\<lambda>i. request_var w (array_of_requests + i)) [0..<nat count];
          (ret, m, n) = PMPI_Waitall N oldrequests (net w) (memory (tables_of w));
          w' = w\<lparr>tables_of := (tables_of w)\<lparr>memory := m\<rparr>, net := n,
            request_var := set_requests array_of_requests (replicate (nat count) (MPI_REQUEST_NULL P)) (request_var w)\<rparr>;
          completed = map (\<lambda>i. array_of_requests + i) (filter (\<lambda>i. oldrequests ! i \<noteq> MPI_REQUEST_NULL P) [0..<nat count])
      in map_option (\<lambda>st. (ret, w'\<lparr>tables_of := st\<rparr>)) (free_requests P k completed (tables_of w')))"

text \<open>A test that has not completed frees the request all the same.\<close>

definition MPI_Test :: "platform \<Rightarrow> 'n pmpi \<Rightarrow> nat \<Rightarrow> nat \<Rightarrow> 'n process \<Rightarrow> (int \<times> bool \<times> 'n process) option" where
  "MPI_Test P N k request w =
     (let (ret, flag, m, n) = PMPI_Test N (request_var w request) (net w) (memory (tables_of w));
          st = (tables_of w)\<lparr>memory := m\<rparr>;
          w' = w\<lparr>tables_of := st, net := n, request_var :=
            (if flag then (request_var w)(request := MPI_REQUEST_NULL P) else request_var w)\<rparr>
      in if request_var w request \<noteq> MPI_REQUEST_NULL P
         then map_option (\<lambda>st. (ret, flag, w'\<lparr>tables_of := st\<rparr>)) (interposer_request_free P k request st)
         else Some (ret, flag, w'))"

definition MPI_Testall :: "platform \<Rightarrow> 'n pmpi \<Rightarrow> nat \<Rightarrow> int \<Rightarrow> nat \<Rightarrow> 'n process \<Rightarrow> (int \<times> bool \<times> 'n process) option" where
  "MPI_Testall P N k count array_of_requests w =
     (let oldrequests = map (\<lambda>i. request_var w (array_of_requests + i)) [0..<nat count];
          (ret, flag, newrequests, m, n) = PMPI_Testall N oldrequests (net w) (memory (tables_of w));
          vars = set_requests array_of_requests (take (nat count) newrequests) (request_var w);
          w' = w\<lparr>tables_of := (tables_of w)\<lparr>memory := m\<rparr>, net := n, request_var := vars\<rparr>;
          completed = map (\<lambda>i. array_of_requests + i) (filter (\<lambda>i. oldrequests ! i \<noteq> MPI_REQUEST_NULL P \<and>
            vars (array_of_requests + i) = MPI_REQUEST_NULL P) [0..<nat count])
      in map_option (\<lambda>st. (ret, flag, w'\<lparr>tables_of := st\<rparr>)) (free_requests P k completed (tables_of w')))"

end
