(* ===== verification/MPI_Process.thy ===== *)
theory MPI_Process
  imports MPI_Interface
begin

text \<open>
  A process that calls the MPI functions, as a step relation, and what holds in all states
  it reaches: the store invariant, the primitive handles, the use of the scratch buffer.
\<close>

section \<open>The invariant of the tables\<close>

definition static_type :: "nat \<Rightarrow> PrimitiveType" where
  "static_type a = [DOUBLE, FLOAT, INTEGER, BYTE, CHARACTER] ! a"

definition tables_inv :: "interposer \<Rightarrow> bool" where
  "tables_inv st \<longleftrightarrow> store_ok st \<and> length (g_types st) = nat DDT_FAST_CACHE_SIZE \<and>
     (\<forall>a < 5. \<exists>ob. objs st a = Some ob \<and> ostatic ob \<and> otype ob = PrimitiveDatatype (static_type a))"

text \<open>A step from \<open>st\<close> to \<open>st'\<close> keeps the invariant, and never gives the scratch buffer back.\<close>

definition keeps :: "interposer \<Rightarrow> interposer \<Rightarrow> bool" where
  "keeps st st' \<longleftrightarrow> (tables_inv st \<longrightarrow> tables_inv st') \<and> (scratch_in_use st \<longrightarrow> scratch_in_use st')"

named_theorems keeps \<open>the operations keep the invariant\<close>

lemma keeps_refl [simp]: "keeps st st" by (simp add: keeps_def)

lemma keeps_trans [trans]: "keeps st st1 \<Longrightarrow> keeps st1 st2 \<Longrightarrow> keeps st st2" by (simp add: keeps_def)

lemma keeps_update [simp]:
  "keeps st (st\<lparr>g_types_freelist := q\<rparr>)" "keeps st (st\<lparr>g_types_fallback := al\<rparr>)"
  "keeps st (st\<lparr>g_outstanding_requests := rs\<rparr>)" "keeps st (st\<lparr>malloced := mm\<rparr>)"
  "keeps st (st\<lparr>memory := m\<rparr>)" "keeps st (st\<lparr>scratch_in_use := True\<rparr>)"
  "keeps st (st\<lparr>malloced := mm, memory := m\<rparr>)"
  by (simp_all add: keeps_def tables_inv_def store_ok_def)

lemma keeps_create [keeps]: "datatype_handle_create st = (h, st') \<Longrightarrow> keeps st st'"
  by (auto simp: datatype_handle_create_def Let_def split: list.splits)

lemma keeps_handle_free [simp]: "keeps st (datatype_handle_free h st)"
  by (auto simp: datatype_handle_free_def)

lemma keeps_store [keeps]: "datatype_store h p st = Some st' \<Longrightarrow> keeps st st'"
  by (auto simp: datatype_store_def keeps_def tables_inv_def store_ok_def split: if_splits)

lemma keeps_retrieve [keeps]: "datatype_retrieve P h st = Some (p, st') \<Longrightarrow> keeps st st'"
  by (auto simp: datatype_retrieve_def split: if_splits option.splits)

lemma keeps_retrieve_type [keeps]: "retrieve_type P h st = Some (t, st') \<Longrightarrow> keeps st st'"
  using retrieve_type_same by fastforce

lemma keeps_retrieve_types [keeps]: "retrieve_types P hs st = Some (ts, st') \<Longrightarrow> st' = st \<and> keeps st st'"
proof (induction hs arbitrary: ts st')
  case (Cons h hs)
  then show ?case by (auto split: Option.bind_splits dest!: retrieve_type_same)
qed simp

lemma keeps_new_object: "built t \<Longrightarrow> new_object t st = (p, st') \<Longrightarrow> keeps st st'"
  using new_object_ok [of st t] by (auto simp: keeps_def tables_inv_def new_object_def store_ok_def) (metis less_irrefl_nat)+

lemma keeps_commit: "DDT_Commit_object p st = Some st' \<Longrightarrow> keeps st st'"
  using commit_object_ok [of st p st']
  by (cases p) (fastforce simp: keeps_def tables_inv_def DDT_Commit_object_def split: option.splits)+

lemma keeps_free: "DDT_Free p st = Some st' \<Longrightarrow> keeps st st'"
  using free_ok [of st p st']
  by (cases p) (fastforce simp: keeps_def tables_inv_def DDT_Free_def split: option.splits if_splits)+

lemma keeps_store_new: "store_new h t st = Some (g, st') \<Longrightarrow> (tables_inv st \<Longrightarrow> built t) \<Longrightarrow> keeps st st'"
proof -
  assume s: "store_new h t st = Some (g, st')" and t: "tables_inv st \<Longrightarrow> built t"
  obtain p st1 where n: "new_object t st = (p, st1)" "datatype_store h p st1 = Some st'"
    using s by (cases "new_object t st") (auto simp: store_new_def)
  show "keeps st st'"
  proof (cases "tables_inv st")
    case True
    then show ?thesis using keeps_new_object [OF t n(1)] keeps_store [OF n(2)] keeps_trans by blast
  next
    case False
    then show ?thesis using keeps_store [OF n(2)] n(1) by (auto simp: keeps_def new_object_def)
  qed
qed

lemma built_retrieved: "tables_inv st \<Longrightarrow> retrieve_type P h st = Some (t, st') \<Longrightarrow> built t"
  using retrieve_built [of st P h t st'] by (simp add: tables_inv_def)

lemma built_retrieved_all:
  "retrieve_types P hs st = Some (ts, st') \<Longrightarrow> tables_inv st \<Longrightarrow> length ts = length hs \<and> (\<forall>t \<in> set ts. built t)"
proof (induction hs arbitrary: ts st')
  case (Cons h hs)
  then obtain t st1 us where u: "retrieve_type P h st = Some (t, st1)" "st1 = st" "retrieve_types P hs st = Some (us, st')" "ts = t # us"
    by (auto split: Option.bind_splits dest: retrieve_type_same)
  then show ?case using Cons.IH [OF u(3)] Cons.prems(2) built_retrieved by auto
qed simp

text \<open>The shape all constructors share.\<close>

lemma keeps_constructor:
  assumes "(case datatype_handle_create st of (newtype, st) \<Rightarrow>
     Option.bind (retrieve_type P old st) (\<lambda>(old, st). store_new newtype (f old) st)) = Some (h, st')"
    and "\<And>b. built b \<Longrightarrow> built (f b)"
  shows "keeps st st'"
proof -
  obtain nt st1 where c: "datatype_handle_create st = (nt, st1)" by force
  then obtain b st2 where b: "retrieve_type P old st1 = Some (b, st2)" "store_new nt (f b) st2 = Some (h, st')"
    using assms(1) by (auto split: Option.bind_splits)
  have "st2 = st1" by (rule retrieve_type_same [OF b(1)])
  then have "keeps st1 st'" using keeps_store_new [OF b(2)] built_retrieved [OF _ b(1)] assms(2) by blast
  then show ?thesis using keeps_create [OF c] keeps_trans by blast
qed

lemma keeps_struct:
  assumes "(case datatype_handle_create st of (newtype, st) \<Rightarrow>
     Option.bind (retrieve_types P types st) (\<lambda>(olds, st). store_new newtype (StructDatatype count bl ds olds) st)) = Some (h, st')"
    and "nat count \<le> length ds" "nat count \<le> length bl" "nat count \<le> length types"
  shows "keeps st st'"
proof -
  obtain nt st1 where c: "datatype_handle_create st = (nt, st1)" by force
  then obtain ts st2 where ts: "retrieve_types P types st1 = Some (ts, st2)" "store_new nt (StructDatatype count bl ds ts) st2 = Some (h, st')"
    using assms(1) by (auto split: Option.bind_splits)
  have same: "st2 = st1" using keeps_retrieve_types [OF ts(1)] by simp
  have "built (StructDatatype count bl ds ts)" if "tables_inv st1"
    using built_retrieved_all [OF ts(1) that] assms(2-4) by (intro built.built_Struct) auto
  then have "keeps st1 st'" using keeps_store_new [OF ts(2)] same by blast
  then show ?thesis using keeps_create [OF c] keeps_trans by blast
qed

lemma keeps_constructors [keeps]:
  "interposer_contiguous P n old st = Some (h, st') \<Longrightarrow> keeps st st'"
  "interposer_vector P n l s old st = Some (h, st') \<Longrightarrow> keeps st st'"
  "interposer_hvector P n l s old st = Some (h, st') \<Longrightarrow> keeps st st'"
  "interposer_create_hvector P n l s old st = Some (h, st') \<Longrightarrow> keeps st st'"
  unfolding interposer_contiguous_def interposer_vector_def interposer_hvector_def interposer_create_hvector_def Let_def
  by (erule keeps_constructor, rule built.intros, assumption)+

lemma keeps_indexed [keeps]:
  "interposer_indexed_block P n l ds old st = Some (h, st') \<Longrightarrow> keeps st st'"
  "interposer_hindexed P n ls ds' old st = Some (h, st') \<Longrightarrow> keeps st st'"
  "interposer_create_hindexed P n ls ds' old st = Some (h, st') \<Longrightarrow> keeps st st'"
  unfolding interposer_indexed_block_def interposer_hindexed_def interposer_create_hindexed_def Let_def
  by (auto split: if_splits elim!: keeps_constructor intro: built.intros)

lemma keeps_structs [keeps]:
  "interposer_struct P n ls ds olds st = Some (h, st') \<Longrightarrow> keeps st st'"
  "interposer_create_struct P n ls ds olds st = Some (h, st') \<Longrightarrow> keeps st st'"
  unfolding interposer_struct_def interposer_create_struct_def Let_def
  by (auto split: if_splits elim!: keeps_struct)

lemma keeps_handles [keeps]:
  "interposer_commit P h st = Some st' \<Longrightarrow> keeps st st'"
  "interposer_free P h st = Some st' \<Longrightarrow> keeps st st'"
  "interposer_type_size P h st = Some (n, st') \<Longrightarrow> keeps st st'"
  "interposer_type_extent P h st = Some (n, st') \<Longrightarrow> keeps st st'"
proof -
  show "interposer_commit P h st = Some st' \<Longrightarrow> keeps st st'"
    by (auto simp: interposer_commit_def split: Option.bind_splits dest!: keeps_retrieve keeps_commit intro: keeps_trans)
  show "interposer_free P h st = Some st' \<Longrightarrow> keeps st st'"
    by (auto simp: interposer_free_def split: Option.bind_splits dest!: keeps_retrieve keeps_free intro: keeps_trans keeps_handle_free)
qed (auto simp: interposer_type_size_def interposer_type_extent_def dest: retrieve_type_same)

lemma keeps_malloc [keeps]: "c_malloc P n st = (a, st') \<Longrightarrow> keeps st st'"
  by (auto simp: c_malloc_def Let_def case_prod_unfold)

lemma keeps_c_free [keeps]: "c_free a st = Some st' \<Longrightarrow> keeps st st'"
  by (auto simp: c_free_def split: option.splits)

lemma keeps_buffers [keeps]:
  "interposer_buffer_alloc P n h st = Some (b, st') \<Longrightarrow> keeps st st'"
  "interposer_buffer_free P a st = Some st' \<Longrightarrow> keeps st st'"
  by (auto simp: interposer_buffer_alloc_def interposer_buffer_free_def Let_def split: Option.bind_splits if_splits prod.splits
      dest!: retrieve_type_same keeps_malloc keeps_c_free)

lemma keeps_with_memory [keeps]: "with_memory m st = Some st' \<Longrightarrow> keeps st st'"
  by (auto simp: with_memory_def)

lemma keeps_packing [keeps]:
  "interposer_pack_providedbuf P k i n h b st = Some st' \<Longrightarrow> keeps st st'"
  "interposer_unpack P k d n h b st = Some st' \<Longrightarrow> keeps st st'"
  "interposer_pack P k d n h st = Some (r, st') \<Longrightarrow> keeps st st'"
  unfolding interposer_pack_providedbuf_def interposer_unpack_def interposer_pack_def
  by (auto split: Option.bind_splits dest!: keeps_retrieve keeps_with_memory keeps_buffers intro: keeps_trans)
    (meson keeps_trans)

lemma keeps_finish [keeps]: "finish_request P k r st = Some st' \<Longrightarrow> keeps st st'"
  unfolding finish_request_def
  by (auto split: option.splits Option.bind_splits dest!: keeps_packing keeps_buffers intro: keeps_trans)

lemma keeps_requests [keeps]:
  "interposer_request_register P tmp usr n h r st = Some st' \<Longrightarrow> keeps st st'"
  "interposer_request_free P k r st = Some st' \<Longrightarrow> keeps st st'"
proof -
  show "interposer_request_register P tmp usr n h r st = Some st' \<Longrightarrow> keeps st st'"
    by (auto simp: interposer_request_register_def Let_def split: if_splits dest!: keeps_retrieve intro: keeps_trans [OF keeps_update(3)])
  show "interposer_request_free P k r st = Some st' \<Longrightarrow> keeps st st'"
    by (auto simp: interposer_request_free_def split: option.splits dest!: keeps_finish intro: keeps_trans)
qed

lemma keeps_free_requests [keeps]: "free_requests P k rs st = Some st' \<Longrightarrow> keeps st st'"
  by (induction rs arbitrary: st) (auto split: Option.bind_splits dest: keeps_requests intro: keeps_trans)

section \<open>Steps of a process\<close>

inductive mpi_step :: "platform \<Rightarrow> 'n pmpi \<Rightarrow> 'n process \<Rightarrow> 'n process \<Rightarrow> bool" for P N where
  step_contiguous: "MPI_Type_contiguous P n old w = Some (h, w') \<Longrightarrow> mpi_step P N w w'"
| step_vector: "MPI_Type_vector P n l s old w = Some (h, w') \<Longrightarrow> mpi_step P N w w'"
| step_hvector: "MPI_Type_hvector P n l s old w = Some (h, w') \<Longrightarrow> mpi_step P N w w'"
| step_create_hvector: "MPI_Type_create_hvector P n l s old w = Some (h, w') \<Longrightarrow> mpi_step P N w w'"
| step_indexed_block: "MPI_Type_create_indexed_block P n l ds old w = Some (h, w') \<Longrightarrow> mpi_step P N w w'"
| step_hindexed: "MPI_Type_hindexed P n ls ds old w = Some (h, w') \<Longrightarrow> mpi_step P N w w'"
| step_create_hindexed: "MPI_Type_create_hindexed P n ls ds old w = Some (h, w') \<Longrightarrow> mpi_step P N w w'"
| step_struct: "MPI_Type_struct P n ls ds olds w = Some (h, w') \<Longrightarrow> mpi_step P N w w'"
| step_create_struct: "MPI_Type_create_struct P n ls ds olds w = Some (h, w') \<Longrightarrow> mpi_step P N w w'"
| step_commit: "MPI_Type_commit P h w = Some w' \<Longrightarrow> mpi_step P N w w'"
| step_free: "MPI_Type_free P h w = Some w' \<Longrightarrow> mpi_step P N w w'"
| step_size: "MPI_Type_size P h w = Some (n, w') \<Longrightarrow> mpi_step P N w w'"
| step_extent: "MPI_Type_extent P h w = Some (n, w') \<Longrightarrow> mpi_step P N w w'"
| step_send: "MPI_Send P N k buf n h p w = Some w' \<Longrightarrow> mpi_step P N w w'"
| step_recv: "MPI_Recv P N k buf n h p w = Some w' \<Longrightarrow> mpi_step P N w w'"
| step_isend: "MPI_Isend P N k buf n h p r w = Some w' \<Longrightarrow> mpi_step P N w w'"
| step_irecv: "MPI_Irecv P N buf n h p r w = Some w' \<Longrightarrow> mpi_step P N w w'"
| step_pack: "MPI_Pack P k i n h b s pos w = Some (q, w') \<Longrightarrow> mpi_step P N w w'"
| step_unpack: "MPI_Unpack P k b s pos d n h w = Some (q, w') \<Longrightarrow> mpi_step P N w w'"
| step_wait: "MPI_Wait P N k r w = Some (ret, w') \<Longrightarrow> mpi_step P N w w'"
| step_waitall: "MPI_Waitall P N k c a w = Some (ret, w') \<Longrightarrow> mpi_step P N w w'"
| step_test: "MPI_Test P N k r w = Some (ret, flag, w') \<Longrightarrow> mpi_step P N w w'"
| step_testall: "MPI_Testall P N k c a w = Some (ret, flag, w') \<Longrightarrow> mpi_step P N w w'"

lemma in_tables_keeps: "in_tables w r = Some (h, w') \<Longrightarrow> (\<And>st. r = Some (h, st) \<Longrightarrow> keeps (tables_of w) st) \<Longrightarrow>
    keeps (tables_of w) (tables_of w')"
  by (auto simp: in_tables_def)

lemmas mpi_types = MPI_Type_contiguous_def MPI_Type_vector_def MPI_Type_hvector_def MPI_Type_create_hvector_def
  MPI_Type_create_indexed_block_def MPI_Type_hindexed_def MPI_Type_create_hindexed_def MPI_Type_struct_def
  MPI_Type_create_struct_def MPI_Type_size_def MPI_Type_extent_def

lemma keeps_memory: "keeps (st\<lparr>memory := m\<rparr>) st' \<Longrightarrow> keeps st st'"
  by (rule keeps_trans [OF keeps_update(5)])

lemma keeps_send: "MPI_Send P N k buf n h p w = Some w' \<Longrightarrow> keeps (tables_of w) (tables_of w')"
  "MPI_Recv P N k buf n h p w = Some w' \<Longrightarrow> keeps (tables_of w) (tables_of w')"
  "MPI_Isend P N k buf n h p r w = Some w' \<Longrightarrow> keeps (tables_of w) (tables_of w')"
  "MPI_Irecv P N buf n h p r w = Some w' \<Longrightarrow> keeps (tables_of w) (tables_of w')"
proof -
  show "MPI_Send P N k buf n h p w = Some w' \<Longrightarrow> keeps (tables_of w) (tables_of w')"
    by (auto simp: MPI_Send_def Let_def split: if_splits Option.bind_splits dest!: keeps_packing keeps_buffers intro: keeps_trans)
  show "MPI_Recv P N k buf n h p w = Some w' \<Longrightarrow> keeps (tables_of w) (tables_of w')"
    by (auto simp: MPI_Recv_def Let_def case_prod_unfold split: if_splits Option.bind_splits dest!: keeps_packing keeps_buffers)
      (blast dest: keeps_memory intro: keeps_trans)
  show "MPI_Isend P N k buf n h p r w = Some w' \<Longrightarrow> keeps (tables_of w) (tables_of w')"
    by (auto simp: MPI_Isend_def Let_def case_prod_unfold split: if_splits Option.bind_splits
        dest!: keeps_packing keeps_requests intro: keeps_trans)
  show "MPI_Irecv P N buf n h p r w = Some w' \<Longrightarrow> keeps (tables_of w) (tables_of w')"
    by (auto simp: MPI_Irecv_def Let_def case_prod_unfold split: if_splits Option.bind_splits
        dest!: keeps_buffers keeps_requests intro: keeps_trans)
qed

lemma keeps_completion: "MPI_Wait P N k r w = Some (ret, w') \<Longrightarrow> keeps (tables_of w) (tables_of w')"
  "MPI_Waitall P N k c a w = Some (ret, w') \<Longrightarrow> keeps (tables_of w) (tables_of w')"
  "MPI_Test P N k r w = Some (ret, flag, w') \<Longrightarrow> keeps (tables_of w) (tables_of w')"
  "MPI_Testall P N k c a w = Some (ret, flag, w') \<Longrightarrow> keeps (tables_of w) (tables_of w')"
  unfolding MPI_Wait_def MPI_Waitall_def MPI_Test_def MPI_Testall_def Let_def case_prod_unfold
  by (auto split: if_splits dest!: keeps_requests keeps_free_requests dest: keeps_memory)

lemma mpi_step_keeps: "mpi_step P N w w' \<Longrightarrow> keeps (tables_of w) (tables_of w')"
proof (induction rule: mpi_step.induct)
  case (step_commit h w w')
  then show ?case by (auto simp: MPI_Type_commit_def dest: keeps)
next
  case (step_free h w w')
  then show ?case by (auto simp: MPI_Type_free_def dest: keeps)
next
  case (step_pack k i n h b s pos w q w')
  then show ?case by (auto simp: MPI_Pack_def dest: keeps)
next
  case (step_unpack k b s pos d n h w q w')
  then show ?case by (auto simp: MPI_Unpack_def dest: keeps)
qed (auto simp: mpi_types elim!: in_tables_keeps intro: keeps keeps_send keeps_completion)

end
