(* ===== verification/MPI_Types.thy ===== *)
theory MPI_Types
  imports MPI_Process
begin

text \<open>
  What a program sees of the datatype functions of the interposer: the constructors make
  new handles, the primitive handles keep their meaning, the scratch buffer is used once,
  and a handle that is given out twice.
\<close>

section \<open>A platform\<close>

text \<open>The constants are those of MPICH; malloc and the scratch buffer have fixed addresses.\<close>

definition ex_platform :: platform where
  "ex_platform = \<lparr>MPI_DOUBLE = 1275070475, MPI_INT = 1275069445, MPI_BYTE = 1275068685, MPI_CHAR = 1275068673,
     MPI_FLOAT = 1275069450, MPI_PACKED = 1275068687, MPI_REQUEST_NULL = 738197504,
     malloc = (\<lambda>n m. (64, replicate (nat n) 0)), scratch = 4294967296\<rparr>"

definition ex_tables :: interposer where
  "ex_tables = interposer_init (interposer_start Map.empty)"

lemma start_store_ok: "store_ok (interposer_start m)"
  by (auto simp: store_ok_def interposer_start_def obj_ok_def static_object_def intro: built.intros split: if_splits)

lemma init_store_ok [simp]: "store_ok (interposer_init st) = store_ok st"
  by (simp add: interposer_init_def store_ok_def)

lemma ex_tables_ok: "tables ex_platform ex_tables"
proof -
  have "apart ex_platform ex_tables" by code_simp
  moreover have "tables_ok ex_tables"
    by (auto simp: tables_ok_def ex_tables_def interposer_init_def interposer_start_def DDT_FAST_CACHE_SIZE_def
        fallback_handles_def distinct_map inj_on_def)
  ultimately show ?thesis using start_store_ok by (simp add: tables_def ex_tables_def)
qed

lemma ex_primitives:
  "retrieve_type ex_platform 1275070475 ex_tables = Some (PrimitiveDatatype DOUBLE, ex_tables)"
  "retrieve_type ex_platform 1275069445 ex_tables = Some (PrimitiveDatatype INTEGER, ex_tables)"
  by (simp_all add: retrieve_type_def datatype_retrieve_def ex_platform_def farc_double_def farc_int_def ex_tables_def
      interposer_init_def interposer_start_def static_object_def)

section \<open>Creating and freeing datatypes\<close>

text \<open>
  C14: In a state that satisfies \<open>tables\<close>, MPI\_Type\_vector returns a handle that was not in
  use, which denotes from then on the vector of the datatype its argument denotes; every other
  handle denotes what it did.  \<open>tables\<close> asks that the objects are those of the constructors,
  that the free handles of the fast table are in the queue once, that the fallback handles are
  50, 51, \<dots> without a gap, and that none of them is a handle of the MPI library.  It holds
  in every state of a program that frees handles in use only, and of the fallback handles
  only the newest, while the handles stay below those of the library (\<open>MPI_Tables\<close>);
  after an older fallback handle was freed a handle in use is returned (C32).
\<close>

theorem MPI_Type_vector_creates:
  assumes "tables P (tables_of w)" "retrieve_type P oldtype (tables_of w) = Some (b, tables_of w)"
  shows "\<exists>h w'. MPI_Type_vector P count blocklength stride oldtype w = Some (h, w') \<and>
    new_type P (tables_of w) h (VectorDatatype count blocklength stride b) (tables_of w')"
  using constructor [OF assms, of "VectorDatatype count blocklength stride"]
    built_Vector [OF retrieve_built [OF _ assms(2)]] assms(1)
  by (fastforce simp: MPI_Type_vector_def interposer_vector_def in_tables_def tables_def)

theorem MPI_Type_vector_creates_witness:
  "\<exists>h w'. MPI_Type_vector ex_platform 3 1 2 1275070475 \<lparr>tables_of = ex_tables, net = (), request_var = (\<lambda>_. 0)\<rparr> = Some (h, w') \<and>
     retrieve_type ex_platform h (tables_of w') = Some (VectorDatatype 3 1 2 (PrimitiveDatatype DOUBLE), tables_of w')"
  using MPI_Type_vector_creates [of ex_platform "\<lparr>tables_of = ex_tables, net = (), request_var = (\<lambda>_. 0)\<rparr>" 1275070475 _ 3 1 2]
    ex_tables_ok ex_primitives by (fastforce simp: new_type_def)

text \<open>
  MPI\_Type\_create\_struct does the same for a struct of the datatypes its arguments
  denote, when the three arrays are at least as long as the count.
\<close>

theorem MPI_Type_create_struct_creates:
  assumes "tables P (tables_of w)" "list_all2 (\<lambda>g t. retrieve_type P g (tables_of w) = Some (t, tables_of w)) (take (nat count) types) ts"
    and "nat count \<le> length blocklengths" "nat count \<le> length displacements" "nat count \<le> length types"
  shows "\<exists>h w'. MPI_Type_create_struct P count blocklengths displacements types w = Some (h, w') \<and>
    new_type P (tables_of w) h (StructDatatype count blocklengths displacements ts) (tables_of w')"
proof -
  obtain h st1 where c: "datatype_handle_create (tables_of w) = (h, st1)" by force
  have len: "length ts = nat count" using list_all2_lengthD [OF assms(2)] assms(5) by simp
  have so: "store_ok (tables_of w)" using assms(1) by (simp add: tables_def)
  have "list_all2 (\<lambda>g t. built t) (take (nat count) types) ts"
    using assms(2) by (rule list_all2_mono) (rule retrieve_built [OF so])
  then have "\<forall>t \<in> set ts. built t" using len by (auto simp: list_all2_conv_all_nth in_set_conv_nth)
  then have "built (StructDatatype count blocklengths displacements ts)"
    using assms(3,4) len by (intro built.built_Struct) auto
  then obtain st' where "store_new h (StructDatatype count blocklengths displacements ts) st1 = Some (h, st')"
    "new_type P (tables_of w) h (StructDatatype count blocklengths displacements ts) st'"
    using construct [OF assms(1) c] by blast
  then show ?thesis
    using assms(3-5) c retrieve_types_created [OF assms(1) c assms(2)]
    by (simp add: MPI_Type_create_struct_def interposer_create_struct_def in_tables_def)
qed

theorem MPI_Type_create_struct_creates_witness:
  "\<exists>h w'. MPI_Type_create_struct ex_platform 2 [1, 2] [0, 8] [1275069445, 1275070475]
       \<lparr>tables_of = ex_tables, net = (), request_var = (\<lambda>_. 0)\<rparr> = Some (h, w') \<and>
     retrieve_type ex_platform h (tables_of w') =
       Some (StructDatatype 2 [1, 2] [0, 8] [PrimitiveDatatype INTEGER, PrimitiveDatatype DOUBLE], tables_of w')"
proof -
  let ?w = "\<lparr>tables_of = ex_tables, net = (), request_var = (\<lambda>_. 0)\<rparr>"
  have l: "list_all2 (\<lambda>g t. retrieve_type ex_platform g (tables_of ?w) = Some (t, tables_of ?w))
      (take (nat 2) [1275069445, 1275070475]) [PrimitiveDatatype INTEGER, PrimitiveDatatype DOUBLE]"
    using ex_primitives by (simp add: numeral_2_eq_2)
  obtain h w' where "MPI_Type_create_struct ex_platform 2 [1, 2] [0, 8] [1275069445, 1275070475] ?w = Some (h, w')"
    "new_type ex_platform (tables_of ?w) h (StructDatatype 2 [1, 2] [0, 8] [PrimitiveDatatype INTEGER, PrimitiveDatatype DOUBLE]) (tables_of w')"
    using MPI_Type_create_struct_creates [OF _ l, of "[1, 2]" "[0, 8]"] ex_tables_ok by auto
  then show ?thesis by (auto simp: new_type_def)
qed

lemma create_last: "datatype_handle_create st = (h, st1) \<Longrightarrow> tables_ok st \<Longrightarrow> releasable h st1"
  by (auto simp: datatype_handle_create_def Let_def releasable_def tables_ok_def update_new split: list.splits)
    (use tables_okD(4) in \<open>fastforce simp: update_new DDT_FAST_CACHE_SIZE_def tables_ok_def\<close>)

lemma put_releasable: "datatype_store g p st = Some st' \<Longrightarrow> tables_ok st \<Longrightarrow> entries st g \<noteq> None \<Longrightarrow> releasable h st' = releasable h st"
proof -
  assume a: "datatype_store g p st = Some st'" "tables_ok st" "entries st g \<noteq> None"
  have "g \<in> fst ` set (g_types_fallback st)" if "\<not> g < DDT_FAST_CACHE_SIZE"
    using that a(3) by (auto simp: entries_def map_of_eq_None_iff)
  then have "\<not> g < DDT_FAST_CACHE_SIZE \<Longrightarrow> map fst (AList.update g p (g_types_fallback st)) = map fst (g_types_fallback st)"
    using AList.update_keys [of g p "g_types_fallback st"] by simp
  then have "\<not> g < DDT_FAST_CACHE_SIZE \<Longrightarrow> length (AList.update g p (g_types_fallback st)) = length (g_types_fallback st)"
    by (metis length_map)
  then show ?thesis using a(1) by (auto simp: releasable_def datatype_store_def split: if_splits)
qed

text \<open>The table of handles and the store of objects do not touch each other.\<close>

lemma put_new_object:
  "datatype_store h p (snd (new_object t st)) = map_option (\<lambda>s. snd (new_object t s)) (datatype_store h p st)"
  by (auto simp: datatype_store_def new_object_def)

lemma release_objects: "entries (datatype_handle_free h (st\<lparr>next_obj := n, objs := f\<rparr>)) = entries (datatype_handle_free h st)"
    "tables_ok (datatype_handle_free h (st\<lparr>next_obj := n, objs := f\<rparr>)) = tables_ok (datatype_handle_free h st)"
  by (auto simp: datatype_handle_free_def entries_def fun_eq_iff tables_ok_def)

text \<open>A call of one of the nine constructors, with the handle it gives out.\<close>

inductive makes_type :: "platform \<Rightarrow> 'n process \<Rightarrow> int \<Rightarrow> 'n process \<Rightarrow> bool" for P w h w1 where
  makes_contiguous: "MPI_Type_contiguous P n old w = Some (h, w1) \<Longrightarrow> makes_type P w h w1"
| makes_vector: "MPI_Type_vector P n l s old w = Some (h, w1) \<Longrightarrow> makes_type P w h w1"
| makes_hvector: "MPI_Type_hvector P n l s old w = Some (h, w1) \<Longrightarrow> makes_type P w h w1"
| makes_create_hvector: "MPI_Type_create_hvector P n l s old w = Some (h, w1) \<Longrightarrow> makes_type P w h w1"
| makes_indexed_block: "MPI_Type_create_indexed_block P n l ds old w = Some (h, w1) \<Longrightarrow> makes_type P w h w1"
| makes_hindexed: "MPI_Type_hindexed P n ls ds old w = Some (h, w1) \<Longrightarrow> makes_type P w h w1"
| makes_create_hindexed: "MPI_Type_create_hindexed P n ls ds old w = Some (h, w1) \<Longrightarrow> makes_type P w h w1"
| makes_struct: "MPI_Type_struct P n ls ds olds w = Some (h, w1) \<Longrightarrow> makes_type P w h w1"
| makes_create_struct: "MPI_Type_create_struct P n ls ds olds w = Some (h, w1) \<Longrightarrow> makes_type P w h w1"

text \<open>Each creates a handle and stores a new object under it.\<close>

lemma made_one:
  assumes "(case datatype_handle_create st of (newtype, st) \<Rightarrow>
     Option.bind (retrieve_type P old st) (\<lambda>(old, st). store_new newtype (f old) st)) = Some (h, st')"
  shows "\<exists>st1 t. datatype_handle_create st = (h, st1) \<and> store_new h t st1 = Some (h, st')"
proof -
  obtain nt st1 where c: "datatype_handle_create st = (nt, st1)" by force
  then obtain b st2 where b: "retrieve_type P old st1 = Some (b, st2)" "store_new nt (f b) st2 = Some (h, st')"
    using assms by (auto split: Option.bind_splits)
  then have "st2 = st1" "nt = h" using retrieve_type_same [OF b(1)] by (auto simp: store_new_def Let_def split: prod.splits)
  then show ?thesis using b c by blast
qed

lemma made_struct:
  assumes "(case datatype_handle_create st of (newtype, st) \<Rightarrow>
     Option.bind (retrieve_types P types st) (\<lambda>(olds, st). store_new newtype (f olds) st)) = Some (h, st')"
  shows "\<exists>st1 t. datatype_handle_create st = (h, st1) \<and> store_new h t st1 = Some (h, st')"
proof -
  obtain nt st1 where c: "datatype_handle_create st = (nt, st1)" by force
  then obtain ts st2 where ts: "retrieve_types P types st1 = Some (ts, st2)" "store_new nt (f ts) st2 = Some (h, st')"
    using assms by (auto split: Option.bind_splits)
  then have "st2 = st1" "nt = h" using keeps_retrieve_types [OF ts(1)] by (auto simp: store_new_def Let_def split: prod.splits)
  then show ?thesis using ts c by blast
qed

lemmas interposer_constructors = interposer_contiguous_def interposer_vector_def interposer_hvector_def
  interposer_create_hvector_def interposer_indexed_block_def interposer_hindexed_def interposer_create_hindexed_def
  interposer_struct_def interposer_create_struct_def

lemma makes_type_shape:
  "makes_type P w h w1 \<Longrightarrow> \<exists>st1 t. datatype_handle_create (tables_of w) = (h, st1) \<and> store_new h t st1 = Some (h, tables_of w1)"
  by (erule makes_type.cases)
    (auto simp: mpi_types in_tables_def interposer_constructors Let_def split: if_splits dest!: made_one made_struct)

text \<open>Apart from the handle, what is created and freed leaves everything as it was.\<close>

lemma freed_extends:
  assumes st: "store_ok st" "tables_ok st" and c: "datatype_handle_create st = (h, st1)"
    and p: "datatype_store h (Some (next_obj st1)) st1 = Some st2"
  shows "same_handles h st (datatype_handle_free h (st2\<lparr>next_obj := n, objs := (objs st2)(next_obj st1 := None)\<rparr>))"
proof -
  have s1: "tables_ok st1" using created [OF st(2) c] by simp
  have "same_handles h st st2"
    using same_handles_trans [OF create_extends [OF st(2) c]] put_extends [OF s1 p] by blast
  moreover have none: "objs st2 (next_obj st1) = None"
    using create_store_ok [OF c st(1)] put_extends [OF s1 p] by (cases "objs st1 (next_obj st1)") (auto simp: store_ok_def)
  moreover have "objs st (next_obj st1) = None"
    using none \<open>same_handles h st st2\<close> by (cases "objs st (next_obj st1)") (auto simp: same_handles_def)
  ultimately show ?thesis by (auto simp: same_handles_def datatype_handle_free_def AList.delete_conv')
qed

text \<open>
  C15: A datatype that was just made, by any of the nine constructors, can be freed, and that
  leaves the table of handles as it was before: its handle is free again, no other handle is,
  and every other handle denotes what it did, so a program that frees each datatype before
  it makes the next never runs out of handles.  The state before satisfies \<open>tables\<close>: in
  particular the fallback handles are 50, 51, \<dots> without a gap, which holds until an older
  fallback handle than the newest is freed (C32 shows what happens then).
\<close>

theorem MPI_Type_free_undoes:
  assumes ok: "tables P (tables_of w)" and c: "makes_type P w h w1"
  shows "\<exists>w2. MPI_Type_free P h w1 = Some w2 \<and> tables_ok (tables_of w2) \<and> entries (tables_of w2) = entries (tables_of w) \<and>
    (\<forall>g t. g \<noteq> h \<and> retrieve_type P g (tables_of w) = Some (t, tables_of w) \<longrightarrow>
       retrieve_type P g (tables_of w2) = Some (t, tables_of w2))"
proof -
  have st: "store_ok (tables_of w)" "tables_ok (tables_of w)" "apart P (tables_of w)" using ok by (simp_all add: tables_def)
  obtain st1 t where cr: "datatype_handle_create (tables_of w) = (h, st1)" and sn: "store_new h t st1 = Some (h, tables_of w1)"
    using makes_type_shape [OF c] by blast
  obtain st2 where p: "datatype_store h (Some (next_obj st1)) st1 = Some st2" "tables_ok st2"
    "entries st2 = (entries (tables_of w))(h \<mapsto> Some (next_obj st1))"
    using handles.create_put [OF st(2) cr] by blast
  have c1: "tables_ok st1" "entries st1 h \<noteq> None" using handles.create_spec [OF st(2) cr] by auto
  have rel: "releasable h st2" using create_last [OF cr st(2)] put_releasable [OF p(1) c1] by simp
  have undone: "tables_ok (datatype_handle_free h st2)" "entries (datatype_handle_free h st2) = entries (tables_of w)"
    using handles.create_release [OF st(2) cr p(1) rel] by auto
  let ?st = "snd (new_object t st2)"
  have w1: "tables_of w1 = ?st"
    using sn p(1) put_new_object [of h "Some (next_obj st1)" t st1] by (auto simp: store_new_def new_object_def Let_def)
  have nx: "next_obj st2 = next_obj st1" using put_extends [OF c1(1) p(1)] by simp
  have r: "datatype_retrieve P h ?st = Some (Some (next_obj st1), ?st)"
    using retrieve_entry [of ?st h "Some (next_obj st1)" P] p(2,3) create_not_primitive [OF st(2,3) cr] by simp
  let ?after = "datatype_handle_free h (st2\<lparr>next_obj := Suc (next_obj st1), objs := (objs st2)(next_obj st1 := None)\<rparr>)"
  have "DDT_Free (Some (next_obj st1)) ?st = Some (st2\<lparr>next_obj := Suc (next_obj st1), objs := (objs st2)(next_obj st1 := None)\<rparr>)"
    using nx by (simp add: DDT_Free_def new_object_def)
  then have "MPI_Type_free P h w1 = Some (w1\<lparr>tables_of := ?after\<rparr>)"
    using r w1 by (simp add: MPI_Type_free_def interposer_free_def)
  moreover have "retrieve_type P g ?after = Some (u, ?after)"
    if "g \<noteq> h" "retrieve_type P g (tables_of w) = Some (u, tables_of w)" for g u
    using retrieve_extends [OF that(2) freed_extends [OF st(1,2) cr p(1)]] that(1) by blast
  ultimately show ?thesis using undone release_objects by auto
qed

theorem MPI_Type_free_undoes_witness:
  "\<exists>h w1 w2. MPI_Type_vector ex_platform 3 1 2 1275070475 \<lparr>tables_of = ex_tables, net = (), request_var = (\<lambda>_. 0)\<rparr> = Some (h, w1) \<and>
     entries (tables_of w1) h \<noteq> None \<and> MPI_Type_free ex_platform h w1 = Some w2 \<and> entries (tables_of w2) h = None \<and>
     retrieve_type ex_platform 1275069445 (tables_of w2) = Some (PrimitiveDatatype INTEGER, tables_of w2)"
proof -
  let ?w = "\<lparr>tables_of = ex_tables, net = (), request_var = (\<lambda>_. 0)\<rparr>"
  obtain h st' where n: "interposer_vector ex_platform 3 1 2 1275070475 ex_tables = Some (h, st')"
      "new_type ex_platform ex_tables h (VectorDatatype 3 1 2 (PrimitiveDatatype DOUBLE)) st'"
    using constructor [OF ex_tables_ok ex_primitives(1), of "VectorDatatype 3 1 2"] built_Vector [OF built_Primitive]
    unfolding interposer_vector_def by blast
  let ?w1 = "?w\<lparr>tables_of := st'\<rparr>"
  have c: "MPI_Type_vector ex_platform 3 1 2 1275070475 ?w = Some (h, ?w1)" using n by (simp add: MPI_Type_vector_def in_tables_def)
  have t: "tables ex_platform (tables_of ?w)" using ex_tables_ok by simp
  obtain st1 t where s: "datatype_handle_create ex_tables = (h, st1)" "store_new h t st1 = Some (h, st')"
    using makes_type_shape [OF makes_vector [OF c]] by auto
  have "h = 0" "st1 = ex_tables\<lparr>g_types_freelist := map int [1..<50]\<rparr>"
    using s(1) by (auto simp: ex_tables_def interposer_init_def interposer_start_def datatype_handle_create_def
        DDT_FAST_CACHE_SIZE_def upt_conv_Cons)
  then have e: "h = 0" "entries st' h \<noteq> None" "entries ex_tables h = None"
    using s(2) n(2) by (auto simp: store_new_def new_type_def new_object_def datatype_store_def entries_def ex_tables_def interposer_init_def interposer_start_def
        DDT_FAST_CACHE_SIZE_def)
  show ?thesis
    using MPI_Type_free_undoes [OF t makes_vector [OF c]] c e ex_primitives(2) by auto
qed

section \<open>Handles that are given out twice\<close>

text \<open>
  C32: When the fast handles are used up and a fallback handle that is not the newest is freed,
  the next handle that is created is the newest one, which is still in use; its datatype is lost.
\<close>

theorem handle_given_out_twice:
  assumes ok: "tables_ok st" and full: "g_types_freelist st = []" and h: "entries st h \<noteq> None" "\<not> releasable h st"
  shows "\<exists>g st'. datatype_handle_create (datatype_handle_free h st) = (g, st') \<and> g \<noteq> h \<and>
    entries (datatype_handle_free h st) g = entries st g \<and> entries st g \<noteq> None \<and> entries st' g = Some None"
proof -
  let ?al = "g_types_fallback st" and ?n = "length (g_types_fallback st)"
  have hs: "\<not> h < DDT_FAST_CACHE_SIZE" "h \<noteq> DDT_FAST_CACHE_SIZE + int ?n - 1" using h(2) by (auto simp: releasable_def)
  have mem: "h \<in> fst ` set ?al" using h(1) hs(1) by (auto simp: entries_def map_of_eq_None_iff)
  then have n: "0 < ?n" by (cases ?al) auto
  have "map fst (AList.delete h ?al) = removeAll h (map fst ?al)" by (simp add: AList.delete_keys)
  then have "length (AList.delete h ?al) = length (removeAll h (map fst ?al))" by (metis length_map)
  also have "\<dots> = ?n - 1"
    using mem tables_okD(5) [OF ok] by (simp add: distinct_remove1_removeAll [symmetric] length_remove1)
  finally have len: "length (AList.delete h ?al) = ?n - 1" .
  let ?g = "DDT_FAST_CACHE_SIZE + int (?n - 1)"
  have e: "int (?n - 1) = int ?n - 1" using n by linarith
  have g: "?g \<noteq> h" "?g \<in> fst ` set ?al"
    unfolding e tables_okD(4) [OF ok] using hs n by (auto simp: DDT_FAST_CACHE_SIZE_def Suc_le_eq)
  have "datatype_handle_create (datatype_handle_free h st) = (?g, st\<lparr>g_types_fallback :=
      AList.update ?g None (AList.delete h ?al)\<rparr>)"
    using full hs(1) len by (simp add: datatype_handle_create_def datatype_handle_free_def Let_def)
  moreover have "entries st ?g \<noteq> None" using g(2) by (simp add: entries_def map_of_eq_None_iff)
  ultimately show ?thesis
    using g hs(1) by (auto simp: datatype_handle_free_def entries_def AList.update_conv')
qed

definition ex_full :: interposer where
  "ex_full = ex_tables\<lparr>g_types_freelist := [], g_types_fallback := [(50, Some 0), (51, Some 1)]\<rparr>"

theorem handle_given_out_twice_witness:
  "\<exists>st'. datatype_handle_create (datatype_handle_free 50 ex_full) = (51, st') \<and>
     entries (datatype_handle_free 50 ex_full) 51 = Some (Some 1) \<and> entries st' 51 = Some None"
proof -
  have "tables_ok ex_full"
    by (simp add: tables_ok_def ex_full_def ex_tables_def interposer_init_def interposer_start_def fallback_handles_def
        DDT_FAST_CACHE_SIZE_def)
  moreover have "entries ex_full 50 \<noteq> None" "\<not> releasable 50 ex_full" "g_types_freelist ex_full = []"
    "entries ex_full 51 = Some (Some 1)"
    by (simp_all add: ex_full_def entries_def releasable_def DDT_FAST_CACHE_SIZE_def)
  moreover have "fst (datatype_handle_create (datatype_handle_free 50 ex_full)) = 51" by code_simp
  ultimately show ?thesis using handle_given_out_twice [of ex_full 50] by auto
qed

lemma count_list_distinct: "distinct xs \<Longrightarrow> x \<in> set xs \<Longrightarrow> count_list xs x = 1"
  by (induction xs) auto

text \<open>
  MPI\_Type\_free of a handle that was never used puts it in the queue of free handles
  once more, so that the handle is given out twice.
\<close>

theorem free_of_unused_handle:
  assumes "tables_ok st" "h \<in> set (g_types_freelist st)" "g_types st ! nat h = None" "h \<notin> set (primitive_handles P)"
  shows "\<exists>st'. interposer_free P h st = Some st' \<and> count_list (g_types_freelist st') h = 2"
proof -
  have r: "0 \<le> h" "h < DDT_FAST_CACHE_SIZE" using assms(1,2) by (auto simp: tables_ok_def)
  have "count_list (g_types_freelist st) h = 1"
    using assms(1,2) by (simp add: tables_ok_def count_list_distinct)
  then show ?thesis
    using r assms(3,4) by (auto simp: interposer_free_def retrieve_user DDT_Free_def datatype_handle_free_def)
qed

theorem free_of_unused_handle_witness:
  "\<exists>st'. interposer_free ex_platform 7 ex_tables = Some st' \<and> count_list (g_types_freelist st') 7 = 2"
proof (rule free_of_unused_handle)
  show "tables_ok ex_tables" using ex_tables_ok by (simp add: tables_def)
qed code_simp+

section \<open>A run\<close>

definition ex_start :: "unit process" where
  "ex_start = \<lparr>tables_of = ex_tables, net = (), request_var = (\<lambda>_. 0)\<rparr>"

definition ex_pmpi :: "unit pmpi" where
  "ex_pmpi = \<lparr>PMPI_Send = (\<lambda>_ _ _ _ _ _. ()), PMPI_Recv = (\<lambda>_ _ _ _ _ m. (m, ())), PMPI_Isend = (\<lambda>_ _ _ _ _ _. (1, ())),
     PMPI_Irecv = (\<lambda>_ _ _ _ _. (1, ())), PMPI_Wait = (\<lambda>_ _ m. (0, m, ())), PMPI_Test = (\<lambda>_ _ m. (0, True, m, ())),
     PMPI_Waitall = (\<lambda>_ _ m. (0, m, ())), PMPI_Testall = (\<lambda>rs _ m. (0, True, map (\<lambda>_. 0) rs, m, ()))\<rparr>"

definition ex_ints :: "unit process" where
  "ex_ints = ex_start\<lparr>tables_of := ex_tables\<lparr>g_types := (g_types ex_tables)[7 := Some 2]\<rparr>\<rparr>"

lemma ex_receive: "\<exists>w1. MPI_Irecv ex_platform ex_pmpi 0 1 7 (0, 0, 0) 1000 ex_ints = Some w1 \<and> scratch_in_use (tables_of w1)"
  by (simp add: MPI_Irecv_def packs_type_def ex_platform_def interposer_buffer_alloc_def retrieve_type_def datatype_retrieve_def
      DDT_FAST_CACHE_SIZE_def ex_ints_def ex_start_def ex_tables_def interposer_init_def interposer_start_def static_object_def
      scratch_size_def interposer_request_register_def Let_def ex_pmpi_def PrimitiveDatatype_def new_Primitive_def getSize_def
      toLLVMType.simps)

section \<open>Invariants of a process\<close>

definition started :: "mem \<Rightarrow> 'n process \<Rightarrow> bool" where
  "started m w \<longleftrightarrow> tables_of w = interposer_init (interposer_start m)"

lemma steps_keep: "(mpi_step P N)\<^sup>*\<^sup>* w w' \<Longrightarrow> keeps (tables_of w) (tables_of w')"
  by (induction rule: rtranclp_induct) (auto intro: keeps_trans mpi_step_keeps)

lemma started_inv: "started m w \<Longrightarrow> tables_inv (tables_of w)"
  using start_store_ok [of m]
  by (auto simp: started_def tables_inv_def interposer_init_def interposer_start_def static_object_def static_type_def
      DDT_FAST_CACHE_SIZE_def store_ok_def less_Suc_eq numeral_eq_Suc)

lemma statics:
  "static_type 0 = DOUBLE" "static_type 1 = FLOAT" "static_type 2 = INTEGER" "static_type 3 = BYTE" "static_type 4 = CHARACTER"
  by code_simp+

lemma retrieve_static:
  "datatype_retrieve P h st = Some (Some a, st') \<Longrightarrow> map_option otype (objs st a) = Some t \<Longrightarrow> objs st' = objs st \<Longrightarrow>
     map_option fst (retrieve_type P h st) = Some t"
  by (auto simp: retrieve_type_def)

lemma retrieve_statics:
  assumes "distinct (primitive_handles P)"
  shows "datatype_retrieve P (MPI_DOUBLE P) st = Some (Some 0, st)" "datatype_retrieve P (MPI_FLOAT P) st = Some (Some 1, st)"
    "datatype_retrieve P (MPI_INT P) st = Some (Some 2, st)" "datatype_retrieve P (MPI_BYTE P) st = Some (Some 3, st)"
    "datatype_retrieve P (MPI_CHAR P) st = Some (Some 4, st)"
  using assms by (auto simp: primitive_handles_def datatype_retrieve_def farc_double_def farc_int_def farc_byte_def
      farc_char_def farc_float_def)

text \<open>
  C12: After any sequence of MPI calls every object was built by the constructors, compiled
  code is that of DDT\_Commit, and the primitive handles denote the primitive datatypes.
\<close>

theorem mpi_invariant:
  assumes "started m w" "(mpi_step P N)\<^sup>*\<^sup>* w w'" "distinct (primitive_handles P)"
  shows "store_ok (tables_of w') \<and>
    map (\<lambda>h. map_option fst (retrieve_type P h (tables_of w'))) (primitive_handles P) =
      map (\<lambda>t. Some (PrimitiveDatatype t)) [DOUBLE, INTEGER, BYTE, CHARACTER, FLOAT]"
proof -
  have inv: "tables_inv (tables_of w')"
    using started_inv [OF assms(1)] steps_keep [OF assms(2)] by (simp add: keeps_def)
  have "map_option otype (objs (tables_of w') a) = Some (PrimitiveDatatype (static_type a))" if "a < 5" for a
    using inv that by (auto simp: tables_inv_def)
  from this [of 0] this [of 1] this [of 2] this [of 3] this [of 4] show ?thesis
    using inv retrieve_statics [OF assms(3), of "tables_of w'"] statics
    by (simp add: primitive_handles_def retrieve_static tables_inv_def)
qed

theorem mpi_invariant_witness:
  "\<exists>h w'. MPI_Type_vector ex_platform 3 1 2 1275070475 ex_start = Some (h, w') \<and> store_ok (tables_of w') \<and>
     retrieve_type ex_platform h (tables_of w') = Some (VectorDatatype 3 1 2 (PrimitiveDatatype DOUBLE), tables_of w')"
proof -
  have t: "tables ex_platform (tables_of ex_start)"
    "retrieve_type ex_platform 1275070475 (tables_of ex_start) = Some (PrimitiveDatatype DOUBLE, tables_of ex_start)"
    using ex_tables_ok ex_primitives by (simp_all add: ex_start_def)
  obtain h st' where c: "interposer_vector ex_platform 3 1 2 1275070475 (tables_of ex_start) = Some (h, st')"
    "new_type ex_platform (tables_of ex_start) h (VectorDatatype 3 1 2 (PrimitiveDatatype DOUBLE)) st'"
    using constructor [OF t, of "VectorDatatype 3 1 2"] built_Vector [OF built_Primitive] unfolding interposer_vector_def by blast
  let ?w = "ex_start\<lparr>tables_of := st'\<rparr>"
  have v: "MPI_Type_vector ex_platform 3 1 2 1275070475 ex_start = Some (h, ?w)"
    using c(1) by (simp add: MPI_Type_vector_def in_tables_def)
  have s: "started Map.empty ex_start" by (simp add: started_def ex_start_def ex_tables_def)
  have d: "distinct (primitive_handles ex_platform)" by code_simp
  have "store_ok (tables_of ?w)"
    using mpi_invariant [OF s r_into_rtranclp [of "mpi_step ex_platform ex_pmpi", OF step_vector [OF v]] d] by blast
  then show ?thesis using v c(2) by (auto simp: new_type_def)
qed

text \<open>
  C19: The scratch buffer is used for one message in the life of a process: once it is in use
  no sequence of calls gives it back, and every later buffer comes from malloc.
\<close>

theorem scratch_used_once:
  assumes "scratch_in_use (tables_of w)" "(mpi_step P N)\<^sup>*\<^sup>* w w'"
  shows "scratch_in_use (tables_of w') \<and>
    (\<forall>n h a k st. interposer_buffer_alloc P n h (tables_of w') = Some ((a, k), st) \<longrightarrow>
       a = fst (malloc P k (memory (tables_of w'))))"
proof -
  have s: "scratch_in_use (tables_of w')" using steps_keep [OF assms(2)] assms(1) by (simp add: keeps_def)
  have "a = fst (malloc P k (memory (tables_of w')))"
    if "interposer_buffer_alloc P n h (tables_of w') = Some ((a, k), st)" for n h a k st
    using that s
    by (auto simp: interposer_buffer_alloc_def c_malloc_def Let_def case_prod_unfold split: Option.bind_splits dest!: retrieve_type_same)
  then show ?thesis using s by blast
qed

theorem scratch_used_once_witness:
  "\<exists>w1 w2. MPI_Irecv ex_platform ex_pmpi 0 1 7 (0, 0, 0) 1000 ex_ints = Some w1 \<and>
     MPI_Wait ex_platform ex_pmpi 0 2000 w1 = Some (0, w2) \<and> scratch_in_use (tables_of w2)"
proof -
  obtain w1 where w1: "MPI_Irecv ex_platform ex_pmpi 0 1 7 (0, 0, 0) 1000 ex_ints = Some w1" "scratch_in_use (tables_of w1)"
    using ex_receive by blast
  have "map mpi_req (g_outstanding_requests (tables_of w1)) = [1000]"
    using w1(1) by (auto simp: MPI_Irecv_def packs_type_def ex_platform_def interposer_buffer_alloc_def retrieve_type_def datatype_retrieve_def
      DDT_FAST_CACHE_SIZE_def ex_ints_def ex_start_def ex_tables_def interposer_init_def interposer_start_def
      interposer_request_register_def Let_def case_prod_unfold c_malloc_def split: Option.bind_splits if_splits)
  then have "find (\<lambda>req. mpi_req req = 2000) (g_outstanding_requests (tables_of w1)) = None" by auto
  then have "\<exists>w2. MPI_Wait ex_platform ex_pmpi 0 2000 w1 = Some (0, w2)"
    by (cases "request_var w1 2000 = MPI_REQUEST_NULL ex_platform")
      (simp_all add: MPI_Wait_def ex_pmpi_def interposer_request_free_def Let_def)
  then obtain w2 where w2: "MPI_Wait ex_platform ex_pmpi 0 2000 w1 = Some (0, w2)" by blast
  then show ?thesis
    using scratch_used_once [OF w1(2) r_into_rtranclp [of "mpi_step ex_platform ex_pmpi", OF step_wait [OF w2]]] w1(1) by blast
qed

end
