(* ===== verification/MPI_Tables.thy ===== *)
theory MPI_Tables
  imports MPI_Types
begin

text \<open>
  The tables of handles stay in order: no call of the interposer but MPI\_Type\_free leaves a gap
  between the fallback handles, and a program that frees fast handles or the newest fallback
  handle leaves none either.
\<close>

section \<open>Calls that leave the tables as they are\<close>

definition same_tables :: "interposer \<Rightarrow> interposer \<Rightarrow> bool" where
  "same_tables st st' \<longleftrightarrow> g_types st' = g_types st \<and> g_types_freelist st' = g_types_freelist st \<and>
     g_types_fallback st' = g_types_fallback st"

lemma same_tables_refl [simp]: "same_tables st st"
  by (simp add: same_tables_def)

lemma same_tables_trans [trans]: "same_tables st st1 \<Longrightarrow> same_tables st1 st2 \<Longrightarrow> same_tables st st2"
  by (simp add: same_tables_def)

lemma same_tables_update [simp]:
  "same_tables st (st\<lparr>g_outstanding_requests := rs\<rparr>)" "same_tables st (st\<lparr>malloced := mm\<rparr>)"
  "same_tables st (st\<lparr>memory := m\<rparr>)" "same_tables st (st\<lparr>scratch_in_use := b\<rparr>)"
  "same_tables st (st\<lparr>malloced := mm, memory := m\<rparr>)" "same_tables st (st\<lparr>objs := f\<rparr>)"
  "same_tables st (st\<lparr>objs := f, llmodule := G\<rparr>)"
  by (simp_all add: same_tables_def)

lemma same_tables_in_order: "same_tables st st' \<Longrightarrow> tables_ok st' = tables_ok st \<and> entries st' = entries st \<and> releasable h st' = releasable h st"
  by (auto simp: same_tables_def tables_ok_def entries_def releasable_def fun_eq_iff)

text \<open>A lookup that finds an object, or that of a handle which is in the tables, changes nothing.\<close>

lemma retrieve_object_same: "datatype_retrieve P h st = Some (Some a, st') \<Longrightarrow> st' = st"
  by (auto simp: datatype_retrieve_def split: if_splits option.splits)

lemma retrieve_type_object: "retrieve_type P h st = Some (t, st') \<Longrightarrow> \<exists>a. datatype_retrieve P h st = Some (Some a, st)"
  using retrieve_type_same [of P h st t st']
  by (auto simp: retrieve_type_def deref_def split: Option.bind_splits dest: retrieve_object_same)

lemma retrieve_found: "datatype_retrieve P h st = Some (Some a, st) \<Longrightarrow> same_tables st st' \<Longrightarrow> datatype_retrieve P h st' = Some (Some a, st')"
  by (auto simp: datatype_retrieve_def same_tables_def split: if_splits option.splits)

lemma same_buffers:
  "c_malloc P n st = (a, st') \<Longrightarrow> same_tables st st'"
  "c_free x st = Some st' \<Longrightarrow> same_tables st st'"
  "interposer_buffer_alloc P n h st = Some (b, st') \<Longrightarrow> same_tables st st' \<and> (\<exists>a. datatype_retrieve P h st = Some (Some a, st))"
  "interposer_buffer_free P x st = Some st' \<Longrightarrow> same_tables st st'"
  "with_memory m' st = Some st' \<Longrightarrow> same_tables st st'"
  by (auto simp: c_malloc_def c_free_def interposer_buffer_alloc_def interposer_buffer_free_def with_memory_def Let_def case_prod_unfold
      split: option.splits Option.bind_splits if_splits prod.splits dest: retrieve_type_same retrieve_type_object)

lemma same_packing:
  "interposer_pack_providedbuf P k i n h b st = Some st' \<Longrightarrow> same_tables st st'"
  "interposer_unpack P k d n h b st = Some st' \<Longrightarrow> same_tables st st'"
  "interposer_pack P k d n h st = Some (r, st') \<Longrightarrow> same_tables st st'"
proof -
  have none: "DDT_Pack_object k i b None n st m = None" "DDT_Unpack_object k i b None n st m = None" for k i b n m and st :: interposer
    by (simp_all add: DDT_Pack_object_def DDT_Unpack_object_def)
  show "interposer_pack_providedbuf P k i n h b st = Some st' \<Longrightarrow> same_tables st st'"
    by (auto simp: interposer_pack_providedbuf_def with_memory_def deref_def split: Option.bind_splits) 
      (metis none not_None_eq option.distinct(1) retrieve_object_same same_tables_update(3))
  show "interposer_unpack P k d n h b st = Some st' \<Longrightarrow> same_tables st st'"
    by (auto simp: interposer_unpack_def with_memory_def deref_def split: Option.bind_splits)
      (metis none not_None_eq option.distinct(1) retrieve_object_same same_tables_update(3))
  show "interposer_pack P k d n h st = Some (r, st') \<Longrightarrow> same_tables st st'"
    by (auto simp: interposer_pack_def with_memory_def split: Option.bind_splits)
      (metis none not_None_eq option.distinct(1) retrieve_object_same same_tables_update(3) same_tables_trans same_buffers(3))
qed

lemma same_requests:
  "finish_request P k q st = Some st' \<Longrightarrow> same_tables st st'"
  "interposer_request_free P k r st = Some st' \<Longrightarrow> same_tables st st'"
proof -
  show f: "finish_request P k q st = Some st' \<Longrightarrow> same_tables st st'" for q st st'
    unfolding finish_request_def
    by (auto split: option.splits Option.bind_splits dest!: same_packing same_buffers(4) intro: same_tables_trans)
  show "interposer_request_free P k r st = Some st' \<Longrightarrow> same_tables st st'"
    by (auto simp: interposer_request_free_def split: option.splits dest!: f intro: same_tables_trans)
qed

lemma same_free_requests: "free_requests P k rs st = Some st' \<Longrightarrow> same_tables st st'"
  by (induction rs arbitrary: st) (auto split: Option.bind_splits dest: same_requests(2) intro: same_tables_trans)

text \<open>The datatype of a receive has been looked up before it is registered.\<close>

lemma same_register:
  "interposer_request_register P tmp usr n h r st = Some st' \<Longrightarrow> usr = None \<or> (\<exists>a. datatype_retrieve P h st = Some (Some a, st)) \<Longrightarrow>
     same_tables st st'"
proof -
  assume r: "interposer_request_register P tmp usr n h r st = Some st'" and h: "usr = None \<or> (\<exists>a. datatype_retrieve P h st = Some (Some a, st))"
  let ?q = "\<lparr>mpi_req = r, tmpbuf = tmp, usrbuf = usr, req_count = n, req_datatype = h\<rparr>"
  let ?st = "st\<lparr>g_outstanding_requests := g_outstanding_requests st @ [?q]\<rparr>"
  have "datatype_retrieve P h ?st = Some (Some a, ?st)" if "datatype_retrieve P h st = Some (Some a, st)" for a
    using retrieve_found [OF that] by simp
  then show "same_tables st st'" using r h by (auto simp: interposer_request_register_def Let_def is_recv_def split: if_splits)
qed

lemma same_memory: "same_tables (st\<lparr>memory := m\<rparr>) st' \<Longrightarrow> same_tables st st'"
  by (simp add: same_tables_def)

lemma same_messages: "MPI_Send P N k buf n h p w = Some w' \<Longrightarrow> same_tables (tables_of w) (tables_of w')"
  "MPI_Recv P N k buf n h p w = Some w' \<Longrightarrow> same_tables (tables_of w) (tables_of w')"
  "MPI_Isend P N k buf n h p r w = Some w' \<Longrightarrow> same_tables (tables_of w) (tables_of w')"
  "MPI_Irecv P N buf n h p r w = Some w' \<Longrightarrow> same_tables (tables_of w) (tables_of w')"
proof -
  show "MPI_Send P N k buf n h p w = Some w' \<Longrightarrow> same_tables (tables_of w) (tables_of w')"
    by (auto simp: MPI_Send_def Let_def split: if_splits Option.bind_splits dest!: same_packing same_buffers(4) intro: same_tables_trans)
  show "MPI_Recv P N k buf n h p w = Some w' \<Longrightarrow> same_tables (tables_of w) (tables_of w')"
    by (auto simp: MPI_Recv_def Let_def case_prod_unfold split: if_splits Option.bind_splits dest!: same_packing same_buffers(3,4))
      (blast dest: same_memory intro: same_tables_trans)
  show "MPI_Isend P N k buf n h p r w = Some w' \<Longrightarrow> same_tables (tables_of w) (tables_of w')"
    by (auto simp: MPI_Isend_def Let_def case_prod_unfold split: if_splits Option.bind_splits
        dest!: same_packing same_register intro: same_tables_trans)
  show "MPI_Irecv P N buf n h p r w = Some w' \<Longrightarrow> same_tables (tables_of w) (tables_of w')"
  proof (cases "packs_type P h")
    case True
    assume i: "MPI_Irecv P N buf n h p r w = Some w'"
    then obtain x k st where b: "interposer_buffer_alloc P n h (tables_of w) = Some ((x, k), st)"
      "interposer_request_register P (Some x) (Some buf) n h r st = Some (tables_of w')"
      using True by (auto simp: MPI_Irecv_def Let_def case_prod_unfold split: Option.bind_splits)
    then show ?thesis using same_buffers(3) [OF b(1)] same_register [OF b(2)] retrieve_found same_tables_trans by blast
  next
    case False
    assume "MPI_Irecv P N buf n h p r w = Some w'"
    then have "interposer_request_register P None None 0 0 r (tables_of w) = Some (tables_of w')"
      using False by (auto simp: MPI_Irecv_def Let_def case_prod_unfold)
    then show ?thesis by (rule same_register) simp
  qed
qed

lemma same_completion: "MPI_Wait P N k r w = Some (ret, w') \<Longrightarrow> same_tables (tables_of w) (tables_of w')"
  "MPI_Waitall P N k c a w = Some (ret, w') \<Longrightarrow> same_tables (tables_of w) (tables_of w')"
  "MPI_Test P N k r w = Some (ret, flag, w') \<Longrightarrow> same_tables (tables_of w) (tables_of w')"
  "MPI_Testall P N k c a w = Some (ret, flag, w') \<Longrightarrow> same_tables (tables_of w) (tables_of w')"
  unfolding MPI_Wait_def MPI_Waitall_def MPI_Test_def MPI_Testall_def Let_def case_prod_unfold
  by (auto split: if_splits dest!: same_requests(2) same_free_requests dest: same_memory)

lemma same_queries:
  "MPI_Type_commit P h w = Some w' \<Longrightarrow> same_tables (tables_of w) (tables_of w')"
  "MPI_Type_size P h w = Some (n, w') \<Longrightarrow> same_tables (tables_of w) (tables_of w')"
  "MPI_Type_extent P h w = Some (n, w') \<Longrightarrow> same_tables (tables_of w) (tables_of w')"
  "MPI_Pack P k i c h b s pos w = Some (q, w') \<Longrightarrow> same_tables (tables_of w) (tables_of w')"
  "MPI_Unpack P k b s pos d c h w = Some (q, w') \<Longrightarrow> same_tables (tables_of w) (tables_of w')"
  by (auto simp: MPI_Type_commit_def interposer_commit_def DDT_Commit_object_def MPI_Type_size_def MPI_Type_extent_def in_tables_def
      interposer_type_size_def interposer_type_extent_def MPI_Pack_def MPI_Unpack_def
      split: Option.bind_splits option.splits dest: retrieve_type_same same_packing dest!: retrieve_object_same)

section \<open>Constructors and MPI\_Type\_free\<close>

lemma made_in_order:
  assumes "makes_type P w h w'" "tables_ok (tables_of w)"
  shows "tables_ok (tables_of w')"
proof -
  obtain st1 t where c: "datatype_handle_create (tables_of w) = (h, st1)" "store_new h t st1 = Some (h, tables_of w')"
    using makes_type_shape [OF assms(1)] by blast
  let ?st = "snd (new_object t st1)"
  have "tables_ok ?st" "entries ?st h \<noteq> None" using handles.create_spec [OF assms(2) c(1)] by auto
  then obtain st2 where "datatype_store h (fst (new_object t st1)) ?st = Some st2" "tables_ok st2"
    using handles.put_spec by blast
  then show ?thesis using c(2) by (auto simp: store_new_def case_prod_unfold Let_def)
qed

text \<open>A handle that is in use, and that of the fallback handles only the newest.\<close>

definition tidy_free :: "platform \<Rightarrow> 'n process \<Rightarrow> 'n process \<Rightarrow> bool" where
  "tidy_free P w w' \<longleftrightarrow> (\<exists>h. MPI_Type_free P h w = Some w' \<and> entries (tables_of w) h \<noteq> None \<and> releasable h (tables_of w))"

lemma freed_in_order:
  assumes "tidy_free P w w'" "tables_ok (tables_of w)"
  shows "tables_ok (tables_of w')"
proof -
  obtain h where h: "MPI_Type_free P h w = Some w'" "entries (tables_of w) h \<noteq> None" "releasable h (tables_of w)"
    using assms(1) by (auto simp: tidy_free_def)
  obtain p st1 st2 where f: "datatype_retrieve P h (tables_of w) = Some (p, st1)" "DDT_Free p st1 = Some st2"
    "tables_of w' = datatype_handle_free h st2"
    using h(1) by (auto simp: MPI_Type_free_def interposer_free_def split: Option.bind_splits)
  have "st1 = tables_of w"
    using f(1) h(2) by (auto simp: datatype_retrieve_def entries_def split: if_splits option.splits)
  then have "same_tables (tables_of w) st2" using f(2) by (auto simp: DDT_Free_def split: option.splits if_splits)
  then show ?thesis using handles.release_spec [of st2 h] h(2,3) assms(2) f(3) same_tables_in_order [of "tables_of w" st2 h] by simp
qed

text \<open>The tables are in order in every state of a program whose frees are tidy.\<close>

lemma step_in_order:
  assumes "mpi_step P N w w'" "tables_ok (tables_of w)"
    and "(\<exists>h. MPI_Type_free P h w = Some w') \<longrightarrow> tidy_free P w w'"
  shows "tables_ok (tables_of w')"
proof (cases "\<exists>h. MPI_Type_free P h w = Some w'")
  case True
  then show ?thesis using freed_in_order assms(2,3) by blast
next
  case False
  have same: "same_tables (tables_of w) (tables_of w') \<Longrightarrow> tables_ok (tables_of w')"
    using same_tables_in_order assms(2) by blast
  show ?thesis
    using assms(1)
    by cases (use False in \<open>auto intro: same same_queries same_messages same_completion made_in_order [OF _ assms(2)] makes_type.intros\<close>)
qed

inductive tidy :: "platform \<Rightarrow> 'n pmpi \<Rightarrow> 'n process \<Rightarrow> 'n process \<Rightarrow> bool" for P N w where
  tidy_start: "tidy P N w w"
| tidy_step: "tidy P N w w1 \<Longrightarrow> mpi_step P N w1 w2 \<Longrightarrow> (\<exists>h. MPI_Type_free P h w1 = Some w2) \<longrightarrow> tidy_free P w1 w2 \<Longrightarrow> tidy P N w w2"

lemma tidy_in_order:
  "tidy P N w w' \<Longrightarrow> started m w \<Longrightarrow>
     list_all (\<lambda>h. h < 0 \<or> DDT_FAST_CACHE_SIZE + int (length (g_types_fallback (tables_of w'))) < h) (primitive_handles P) \<Longrightarrow>
     tables P (tables_of w')"
proof -
  assume t: "tidy P N w w'" and s: "started m w"
    and a: "list_all (\<lambda>h. h < 0 \<or> DDT_FAST_CACHE_SIZE + int (length (g_types_fallback (tables_of w'))) < h) (primitive_handles P)"
  have start: "tables_ok (tables_of w)"
    using s by (auto simp: started_def tables_ok_def interposer_init_def interposer_start_def DDT_FAST_CACHE_SIZE_def
        fallback_handles_def distinct_map inj_on_def)
  have "tables_ok (tables_of w') \<and> (mpi_step P N)\<^sup>*\<^sup>* w w'"
    using t by (induction rule: tidy.induct) (auto intro: start step_in_order rtranclp.rtrancl_into_rtrancl)
  moreover from this have "store_ok (tables_of w')"
    using started_inv [OF s] steps_keep by (auto simp: keeps_def tables_inv_def)
  ultimately show ?thesis using a by (simp add: tables_def apart_def)
qed

end
