(* ===== verification/MPI_Transfer.thy ===== *)
theory MPI_Transfer
  imports MPI_Types
begin

text \<open>
  Messages: what MPI\_Send hands to the library below, what MPI\_Recv, and MPI\_Irecv
  with MPI\_Wait, make of a message, and the round trip.  The laws of the library below and
  of malloc are named hypotheses on the parameters.
\<close>

section \<open>Hypotheses on the environment\<close>

text \<open>
  malloc returns a block of the size asked for of addresses that are not in use, the static
  scratch buffer is in memory, and neither overlaps the addresses \<open>A\<close> of the user's data.
\<close>

definition buffers_apart :: "platform \<Rightarrow> interposer \<Rightarrow> int \<Rightarrow> i64 list \<Rightarrow> bool" where
  "buffers_apart P st n A \<longleftrightarrow>
     (case malloc P n (memory st) of (a, bs) \<Rightarrow> int (length bs) = n \<and> a \<noteq> scratch P \<and>
        list_all (\<lambda>x. memory st x = None) (run_at a (length bs))) \<and>
     list_all (\<lambda>x. memory st x \<noteq> None \<and> x \<notin> set A) (run_at (scratch P) (nat n)) \<and>
     list_all (\<lambda>x. memory st x \<noteq> None) A"

text \<open>The next message from a peer is \<open>bs\<close>: a receive of its length puts it into any buffer.\<close>

definition arrives :: "'n pmpi \<Rightarrow> int \<Rightarrow> peer \<Rightarrow> 'n \<Rightarrow> byte list \<Rightarrow> 'n \<Rightarrow> bool" where
  "arrives N ty peer n bs n' \<longleftrightarrow>
     (\<forall>b m. PMPI_Recv N b (int (length bs)) ty peer n m = (m(run_at b (length bs) [\<mapsto>] bs), n'))"

text \<open>The library delivers: what one peer sends is the next message the other one gets.\<close>

definition carries :: "'n pmpi \<Rightarrow> int \<Rightarrow> peer \<Rightarrow> peer \<Rightarrow> 'n \<Rightarrow> bool" where
  "carries N ty peer peer' n \<longleftrightarrow> (\<forall>b m bs. bytes_of m (run_at b (length bs)) = map Some bs \<longrightarrow>
     (\<exists>n'. arrives N ty peer' (PMPI_Send N b (int (length bs)) ty peer m n) bs n'))"

text \<open>A receive that was started gets the message \<open>bs\<close> when it is waited for.\<close>

definition arrives_later :: "platform \<Rightarrow> 'n pmpi \<Rightarrow> int \<Rightarrow> peer \<Rightarrow> 'n \<Rightarrow> byte list \<Rightarrow> bool" where
  "arrives_later P N ty peer n bs \<longleftrightarrow> (\<forall>b. case PMPI_Irecv N b (int (length bs)) ty peer n of (r, n1) \<Rightarrow>
     r \<noteq> MPI_REQUEST_NULL P \<and> (\<forall>m. \<exists>ret n2. PMPI_Wait N r n1 m = (ret, m(run_at b (length bs) [\<mapsto>] bs), n2)))"

section \<open>Buffers\<close>

text \<open>Only the scratch flag, the blocks of malloc and the memory differ.\<close>

abbreviation buffered :: "interposer \<Rightarrow> bool \<Rightarrow> (i64 \<rightharpoonup> nat) \<Rightarrow> mem \<Rightarrow> interposer" where
  "buffered st s mm m \<equiv> st\<lparr>scratch_in_use := s, malloced := mm, memory := m\<rparr>"

lemma buffered_deref [simp]: "deref p (buffered st s mm m) = deref p st"
  by (simp add: deref_def)

lemma buffered_usable [simp]:
  "usable pack (p, buffered st s mm m) = usable pack (p, st)" "object_layout (p, buffered st s mm m) n = object_layout (p, st) n"
  "DDT_Pack_object k i b p c (buffered st s mm m) = DDT_Pack_object k i b p c st"
  "DDT_Unpack_object k i b p c (buffered st s mm m) = DDT_Unpack_object k i b p c st"
  by (auto simp: usable_def object_layout_def DDT_Pack_object_def DDT_Unpack_object_def deref_def store_ok_def fun_eq_iff
      split: option.splits)

lemma retrieve_buffered:
  "datatype_retrieve P h st = Some (Some p, st) \<Longrightarrow> datatype_retrieve P h (buffered st s mm m) = Some (Some p, buffered st s mm m)"
  by (auto simp: datatype_retrieve_def split: if_splits option.splits)

lemma alloc_buffer:
  assumes r: "retrieve_type P h st = Some (t, st)" and n: "n = getSize t * count" and ap: "buffers_apart P st n A" "0 \<le> n"
  obtains b s mm m where "interposer_buffer_alloc P count h st = Some ((b, n), buffered st s mm m)"
    "list_all (\<lambda>x. m x \<noteq> None \<and> x \<notin> set A) (run_at b (nat n))" "bytes_of m A = bytes_of (memory st) A"
    "b = scratch P \<or> b \<in> dom mm \<and> b \<noteq> scratch P \<and> mm b = Some (nat n)"
proof (cases "n \<le> scratch_size \<and> \<not> scratch_in_use st")
  case True
  show ?thesis
  proof (rule that)
    show "interposer_buffer_alloc P count h st = Some ((scratch P, n), buffered st True (malloced st) (memory st))"
      using True r n by (simp add: interposer_buffer_alloc_def)
  qed (use ap in \<open>auto simp: buffers_apart_def\<close>)
next
  case False
  obtain a bs where a: "malloc P n (memory st) = (a, bs)" by force
  then have len: "length bs = nat n" and ne: "a \<noteq> scratch P" and free: "\<And>x. x \<in> set (run_at a (length bs)) \<Longrightarrow> memory st x = None"
    and alive: "\<And>x. x \<in> set A \<Longrightarrow> memory st x \<noteq> None"
    using ap by (auto simp: buffers_apart_def list_all_iff)
  let ?m = "(memory st)(run_at a (length bs) [\<mapsto>] bs)"
  have dis: "x \<notin> set A" if "x \<in> set (run_at a (length bs))" for x using free [OF that] alive by blast
  show ?thesis
  proof (rule that)
    show "interposer_buffer_alloc P count h st = Some ((a, n), buffered st (scratch_in_use st) ((malloced st)(a \<mapsto> length bs)) ?m)"
      using False r n a by (auto simp: interposer_buffer_alloc_def c_malloc_def Let_def)
    have "dom ?m = set (run_at a (length bs)) \<union> dom (memory st)" by simp
    then have "?m x \<noteq> None" if "x \<in> set (run_at a (length bs))" for x using that by blast
    then show "list_all (\<lambda>x. ?m x \<noteq> None \<and> x \<notin> set A) (run_at a (nat n))" using dis by (simp add: list_all_iff len)
    show "bytes_of ?m A = bytes_of (memory st) A"
      by (simp add: bytes_of_def) (metis dis map_upds_apply_nontin)
  qed (use len ne in auto)
qed

lemma free_frame:
  assumes "b = scratch P \<or> mm b = Some n"
  obtains s' mm' m' where "interposer_buffer_free P b (buffered st s mm m) = Some (buffered st s' mm' m')"
    "\<forall>x. x \<notin> set (run_at b n) \<longrightarrow> m' x = m x" "\<forall>c. c \<noteq> b \<longrightarrow> mm' c = mm c"
proof (cases "b = scratch P")
  case True
  show ?thesis
  proof (rule that)
    show "interposer_buffer_free P b (buffered st s mm m) = Some (buffered st True mm m)"
      using True by (simp add: interposer_buffer_free_def)
  qed simp_all
next
  case False
  show ?thesis
  proof (rule that)
    show "interposer_buffer_free P b (buffered st s mm m) = Some (buffered st s (mm(b := None)) (m |` (- set (run_at b n))))"
      using False assms(1) by (auto simp: interposer_buffer_free_def c_free_def)
  qed simp_all
qed

lemma free_buffer:
  assumes "b = scratch P \<or> b \<in> dom mm \<and> b \<noteq> scratch P \<and> mm b = Some n"
    and "list_all (\<lambda>x. x \<notin> set A) (run_at b n)"
  obtains s' mm' m' where "interposer_buffer_free P b (buffered st s mm m) = Some (buffered st s' mm' m')"
    "bytes_of m' A = bytes_of m A"
proof -
  have "b = scratch P \<or> mm b = Some n" using assms(1) by blast
  then obtain s' mm' m' where "interposer_buffer_free P b (buffered st s mm m) = Some (buffered st s' mm' m')"
    "\<forall>x. x \<notin> set (run_at b n) \<longrightarrow> m' x = m x" "\<forall>c. c \<noteq> b \<longrightarrow> mm' c = mm c" by (rule free_frame)
  moreover from this(2) have "bytes_of m' A = bytes_of m A" using assms(2) by (auto simp: bytes_of_def list_all_iff)
  ultimately show ?thesis using that by blast
qed

section \<open>Sending\<close>

text \<open>A committed datatype behind a handle, and a count that fits an int.\<close>

definition ready_handle :: "bool \<Rightarrow> platform \<Rightarrow> interposer \<Rightarrow> int \<Rightarrow> int \<Rightarrow> nat \<Rightarrow> bool" where
  "ready_handle pack P st h count p \<longleftrightarrow> packs_type P h \<and> datatype_retrieve P h st = Some (Some p, st) \<and>
     usable pack (Some p, st) \<and> 0 < count \<and> count < 2 ^ 31"

abbreviation user_layout :: "interposer \<Rightarrow> nat \<Rightarrow> int \<Rightarrow> int list" where
  "user_layout st p count \<equiv> object_layout (Some p, st) (nat count)"

lemma ready_handleD:
  assumes "ready_handle pack P st h count p"
  obtains t where "retrieve_type P h st = Some (t, st)" "int (length (user_layout st p count)) = getSize t * count"
    "0 \<le> getSize t * count" "(0 :: i32) <s word_of_int count" "unat (word_of_int count :: i32) = nat count"
proof -
  obtain ob where ob: "objs st p = Some ob" "regular (otype ob)" "store_ok st"
    using assms by (auto simp: ready_handle_def usable_def split: option.splits)
  have so: "sound (otype ob)" using ob deref_ok [of st "Some p" ob] by (auto simp: obj_ok_def intro: built_sound)
  show ?thesis
  proof (rule that)
    show "retrieve_type P h st = Some (otype ob, st)" using assms ob by (simp add: ready_handle_def retrieve_type_def)
    show "int (length (user_layout st p count)) = getSize (otype ob) * count"
      using assms ob length_lay [OF so, of "nat count"] by (simp add: object_layout_def ready_handle_def)
    show "0 \<le> getSize (otype ob) * count" using size_pos [OF so] assms by (simp add: ready_handle_def)
  qed (use assms count32 [of count] in \<open>auto simp: ready_handle_def\<close>)
qed

text \<open>The user's data and the buffer are as packing and unpacking need them.\<close>

lemma separate_buffer:
  assumes "list_all (\<lambda>x. m x \<noteq> None \<and> x \<notin> set (data_at p D)) (run_at b (length D))" "bytes_of m (data_at p D) = bytes_of m0 (data_at p D)"
    "list_all (\<lambda>x. m0 x \<noteq> None) (data_at p D)"
  shows "separate m p D b"
  using assms by (auto simp: separate_def bytes_of_def list_all_iff)

lemma send_message:
  assumes h: "ready_handle True P (tables_of w) h count p"
    and ap: "buffers_apart P (tables_of w) (int (length (user_layout (tables_of w) p count))) (data_at buf (user_layout (tables_of w) p count))"
  shows "\<exists>w' b m k. (\<forall>j \<ge> k. MPI_Send P N j buf count h peer w = Some w') \<and>
    net w' = PMPI_Send N b (int (length (user_layout (tables_of w) p count))) (MPI_BYTE P) peer m (net w) \<and>
    bytes_of m (run_at b (length (user_layout (tables_of w) p count))) =
      bytes_of (memory (tables_of w)) (data_at buf (user_layout (tables_of w) p count)) \<and>
    bytes_of (memory (tables_of w')) (data_at buf (user_layout (tables_of w) p count)) =
      bytes_of (memory (tables_of w)) (data_at buf (user_layout (tables_of w) p count))"
proof -
  let ?st = "tables_of w" and ?D = "user_layout (tables_of w) p count"
  let ?A = "data_at buf ?D" and ?n = "int (length ?D)"
  obtain t where t: "retrieve_type P h ?st = Some (t, ?st)" "?n = getSize t * count" "0 \<le> getSize t * count"
    "(0 :: i32) <s word_of_int count" "unat (word_of_int count :: i32) = nat count" using h by (rule ready_handleD)
  obtain b s mm m where al: "interposer_buffer_alloc P count h ?st = Some ((b, ?n), buffered ?st s mm m)"
    "list_all (\<lambda>x. m x \<noteq> None \<and> x \<notin> set ?A) (run_at b (nat ?n))" "bytes_of m ?A = bytes_of (memory ?st) ?A"
    "b = scratch P \<or> b \<in> dom mm \<and> b \<noteq> scratch P \<and> mm b = Some (nat ?n)"
    by (rule alloc_buffer [OF t(1,2) ap of_nat_0_le_iff])
  have u: "usable True (Some p, ?st)" and r: "datatype_retrieve P h ?st = Some (Some p, ?st)" and pt: "packs_type P h"
    using h by (simp_all add: ready_handle_def)
  have live: "list_all (\<lambda>x. memory ?st x \<noteq> None) ?A" using ap by (simp add: buffers_apart_def)
  have off: "list_all (\<lambda>x. x \<notin> set ?A) (run_at b (nat ?n))" using al(2) by (simp add: list_all_iff)
  have sep: "separate m buf ?D b" using separate_buffer [OF _ al(3) live] al(2) by simp
  obtain m1 k where m1: "\<forall>j \<ge> k. DDT_Pack_object j buf b (Some p) (word_of_int count) ?st m = Some m1"
    "written m (run_at b (length ?D)) (bytes_of m ?A) m1"
    using object.pack_spec [OF u t(4), of m buf b] sep t(5) by auto
  have "bytes_of m1 ?A = bytes_of m ?A"
    using m1(2) al(2) by (fastforce simp: written_def bytes_of_def list_all_iff)
  moreover obtain s' mm' m' where fr: "interposer_buffer_free P b (buffered ?st s mm m1) = Some (buffered ?st s' mm' m')"
    "bytes_of m' ?A = bytes_of m1 ?A"
    by (rule free_buffer [OF al(4) off])
  ultimately have "bytes_of m' ?A = bytes_of (memory ?st) ?A" using al(3) by simp
  moreover have "MPI_Send P N j buf count h peer w = Some (w\<lparr>tables_of := buffered ?st s' mm' m',
      net := PMPI_Send N b ?n (MPI_BYTE P) peer m1 (net w)\<rparr>)" if "j \<ge> k" for j
    using that al(1) m1(1) fr(1) retrieve_buffered [OF r] pt
    by (simp add: MPI_Send_def interposer_pack_def with_memory_def)
  ultimately show ?thesis using m1(2) al(3) by (fastforce simp: written_def)
qed


section \<open>Receiving\<close>

lemma put_message:
  assumes "length bs < 2 ^ 64" shows "bytes_of (m(run_at b (length bs) [\<mapsto>] bs)) (run_at b (length bs)) = map Some bs"
proof (rule nth_equalityI)
  fix i assume "i < length (bytes_of (m(run_at b (length bs) [\<mapsto>] bs)) (run_at b (length bs)))"
  then have i: "i < length bs" by (simp add: bytes_of_def)
  have dis: "distinct (run_at b (length bs))" using assms by (rule distinct_run)
  have "distinct (map fst (rev (zip (run_at b (length bs)) bs)))" using dis by (simp add: rev_map [symmetric])
  moreover have "(run_at b (length bs) ! i, bs ! i) \<in> set (rev (zip (run_at b (length bs)) bs))" using i by (auto simp: set_zip)
  ultimately have "map_of (rev (zip (run_at b (length bs)) bs)) (run_at b (length bs) ! i) = Some (bs ! i)"
    by (rule map_of_is_SomeI)
  then have "(m(run_at b (length bs) [\<mapsto>] bs)) (run_at b (length bs) ! i) = Some (bs ! i)"
    by (simp add: map_upds_def map_add_def)
  then show "bytes_of (m(run_at b (length bs) [\<mapsto>] bs)) (run_at b (length bs)) ! i = map Some bs ! i"
    using i by (simp add: bytes_of_def)
qed (simp add: bytes_of_def)

text \<open>
  Unpacking a buffer and freeing it puts its bytes into the user's data, and touches no other
  byte and no other block.
\<close>

lemma unpack_free:
  assumes h: "ready_handle False P st h count p" and dis: "distinct (data_at buf (user_layout st p count))"
    and sep: "separate m buf (user_layout st p count) b" and own: "b = scratch P \<or> mm b = Some (length (user_layout st p count))"
  shows "\<exists>s' mm' m' k. (\<forall>j \<ge> k. Option.bind (interposer_unpack P j buf count h b (buffered st s mm m)) (interposer_buffer_free P b) =
      Some (buffered st s' mm' m')) \<and>
    bytes_of m' (data_at buf (user_layout st p count)) = bytes_of m (run_at b (length (user_layout st p count))) \<and>
    (\<forall>x. x \<notin> set (data_at buf (user_layout st p count)) \<and> x \<notin> set (run_at b (length (user_layout st p count))) \<longrightarrow> m' x = m x) \<and>
    (\<forall>c. c \<noteq> b \<longrightarrow> mm' c = mm c)"
proof -
  let ?D = "user_layout st p count"
  let ?A = "data_at buf ?D"
  obtain t where t: "retrieve_type P h st = Some (t, st)" "int (length ?D) = getSize t * count" "0 \<le> getSize t * count"
    "(0 :: i32) <s word_of_int count" "unat (word_of_int count :: i32) = nat count" using h by (rule ready_handleD)
  have u: "usable False (Some p, st)" and r: "datatype_retrieve P h st = Some (Some p, st)"
    using h by (simp_all add: ready_handle_def)
  obtain m1 k where m1: "\<forall>j \<ge> k. DDT_Unpack_object j b buf (Some p) (word_of_int count) st m = Some m1"
    "written m ?A (bytes_of m (run_at b (length ?D))) m1"
    using object.unpack_spec [OF u t(4), of m buf b] sep t(5) dis by auto
  obtain s' mm' m' where fr: "interposer_buffer_free P b (buffered st s mm m1) = Some (buffered st s' mm' m')"
    "\<forall>x. x \<notin> set (run_at b (length ?D)) \<longrightarrow> m' x = m1 x" "\<forall>c. c \<noteq> b \<longrightarrow> mm' c = mm c"
    by (rule free_frame [where mm = mm and n = "length ?D", OF own])
  have "x \<notin> set (run_at b (length ?D))" if "x \<in> set ?A" for x using sep that by (auto simp: separate_def list_all_iff)
  then have "bytes_of m' ?A = bytes_of m1 ?A" using fr(2) by (auto simp: bytes_of_def)
  then have "bytes_of m' ?A = bytes_of m (run_at b (length ?D))" using m1(2) by (simp add: written_def)
  moreover have "\<forall>j \<ge> k. Option.bind (interposer_unpack P j buf count h b (buffered st s mm m)) (interposer_buffer_free P b) =
      Some (buffered st s' mm' m')"
    using m1(1) fr(1) retrieve_buffered [OF r] by (simp add: interposer_unpack_def with_memory_def)
  moreover have "\<forall>x. x \<notin> set ?A \<and> x \<notin> set (run_at b (length ?D)) \<longrightarrow> m' x = m x" using fr(2) m1(2) by (auto simp: written_def)
  ultimately show ?thesis using fr(3) by blast
qed

lemma unpack_message:
  assumes h: "ready_handle False P st h count p" and len: "length bs = length (user_layout st p count)"
    and dis: "distinct (data_at buf (user_layout st p count))"
    and b: "list_all (\<lambda>x. x \<notin> set (data_at buf (user_layout st p count))) (run_at b (length bs))"
    and live: "list_all (\<lambda>x. m x \<noteq> None) (data_at buf (user_layout st p count))"
    and own: "b = scratch P \<or> b \<in> dom mm \<and> b \<noteq> scratch P \<and> mm b = Some (length bs)"
  shows "\<exists>s' mm' m' k. (\<forall>j \<ge> k. Option.bind (interposer_unpack P j buf count h b (buffered st s mm (m(run_at b (length bs) [\<mapsto>] bs))))
      (interposer_buffer_free P b) = Some (buffered st s' mm' m')) \<and>
    bytes_of m' (data_at buf (user_layout st p count)) = map Some bs"
proof -
  let ?D = "user_layout st p count" and ?m = "m(run_at b (length bs) [\<mapsto>] bs)"
  let ?A = "data_at buf ?D"
  obtain ob where ob: "objs st p = Some ob" "regular (otype ob)" "fits (otype ob)" "store_ok st"
    using h by (auto simp: ready_handle_def usable_def split: option.splits)
  have so: "sound (otype ob)" using ob deref_ok [of st "Some p" ob] by (auto simp: obj_ok_def intro: built_sound)
  have "unat (word_of_int count :: i32) = nat count" using h by (auto simp: ready_handle_def count32)
  then have "length ?D = length (lay (otype ob) (unat (word_of_int count :: i32)))" using ob(1) by (simp add: object_layout_def)
  then have l64: "length bs < 2 ^ 64" using length_lay_64 [OF so size_fits [OF so ob(3)]] len by simp
  have outside: "?m x = m x" if "x \<in> set ?A" for x
    using that b by (intro map_upds_apply_nontin) (auto simp: list_all_iff)
  have "dom ?m = set (run_at b (length bs)) \<union> dom m" by simp
  then have inside: "?m x \<noteq> None" if "x \<in> set (run_at b (length bs))" for x using that by blast
  have "separate ?m buf ?D b"
    using live b outside inside len by (auto simp: separate_def list_all_iff)
  moreover have "b = scratch P \<or> mm b = Some (length ?D)" using own len by auto
  ultimately show ?thesis using unpack_free [OF h dis, of ?m b mm s] put_message [OF l64] len by metis
qed

lemma receive_message:
  assumes h: "ready_handle False P (tables_of w) h count p" and len: "length bs = length (user_layout (tables_of w) p count)"
    and dis: "distinct (data_at buf (user_layout (tables_of w) p count))"
    and ap: "buffers_apart P (tables_of w) (int (length bs)) (data_at buf (user_layout (tables_of w) p count))"
    and msg: "arrives N (MPI_BYTE P) peer (net w) bs n'"
  shows "\<exists>w' k. (\<forall>j \<ge> k. MPI_Recv P N j buf count h peer w = Some w') \<and> net w' = n' \<and>
    bytes_of (memory (tables_of w')) (data_at buf (user_layout (tables_of w) p count)) = map Some bs"
proof -
  let ?st = "tables_of w" and ?D = "user_layout (tables_of w) p count"
  let ?A = "data_at buf ?D"
  obtain t where t: "retrieve_type P h ?st = Some (t, ?st)" "int (length bs) = getSize t * count"
    using ready_handleD [OF h] len by metis
  obtain b s mm m where al: "interposer_buffer_alloc P count h ?st = Some ((b, int (length bs)), buffered ?st s mm m)"
    "list_all (\<lambda>x. m x \<noteq> None \<and> x \<notin> set ?A) (run_at b (nat (int (length bs))))" "bytes_of m ?A = bytes_of (memory ?st) ?A"
    "b = scratch P \<or> b \<in> dom mm \<and> b \<noteq> scratch P \<and> mm b = Some (nat (int (length bs)))"
    by (rule alloc_buffer [OF t ap of_nat_0_le_iff])
  have off: "list_all (\<lambda>x. x \<notin> set ?A) (run_at b (length bs))" using al(2) by (simp add: list_all_iff)
  have live: "list_all (\<lambda>x. m x \<noteq> None) ?A"
    using ap al(3) by (auto simp: buffers_apart_def bytes_of_def list_all_iff)
  obtain s' mm' m' k where un: "\<forall>j \<ge> k. Option.bind (interposer_unpack P j buf count h b
      (buffered ?st s mm (m(run_at b (length bs) [\<mapsto>] bs)))) (interposer_buffer_free P b) = Some (buffered ?st s' mm' m')"
    "bytes_of m' ?A = map Some bs"
    using unpack_message [OF h len dis off live, of mm s] al(4) by auto
  have "PMPI_Recv N b (int (length bs)) (MPI_BYTE P) peer (net w) m = (m(run_at b (length bs) [\<mapsto>] bs), n')"
    using msg by (simp add: arrives_def)
  then have "\<forall>j \<ge> k. MPI_Recv P N j buf count h peer w = Some (w\<lparr>tables_of := buffered ?st s' mm' m', net := n'\<rparr>)"
    using al(1) un(1) h by (simp add: MPI_Recv_def ready_handle_def)
  then show ?thesis using un(2) by fastforce
qed


section \<open>Requests\<close>

lemma find_last: "list_all (\<lambda>q. mpi_req q \<noteq> r) rs \<Longrightarrow> mpi_req q = r \<Longrightarrow> find (\<lambda>q. mpi_req q = r) (rs @ [q]) = Some q"
  by (induction rs) auto

lemma remove_last: "list_all (\<lambda>q. mpi_req q \<noteq> r) rs \<Longrightarrow> mpi_req q = r \<Longrightarrow> remove_first r (rs @ [q]) = rs"
  by (induction rs) auto

lemma remove_first_unique: "distinct (map mpi_req rs) \<Longrightarrow> r \<notin> mpi_req ` set (remove_first r rs)"
  by (induction rs) auto

lemma find_none: "r \<notin> mpi_req ` set rs \<Longrightarrow> find (\<lambda>q. mpi_req q = r) rs = None"
  by (induction rs) auto

lemma ready_requests [simp]:
  "deref q (st\<lparr>g_outstanding_requests := rs\<rparr>) = deref q st"
  "user_layout (st\<lparr>g_outstanding_requests := rs\<rparr>) p count = user_layout st p count"
  by (simp_all add: deref_def object_layout_def)

lemma ready_registered:
  "ready_handle pack P st h count p \<Longrightarrow> ready_handle pack P (st\<lparr>g_outstanding_requests := rs\<rparr>) h count p"
  by (auto simp: ready_handle_def usable_def store_ok_def datatype_retrieve_def split: if_splits option.splits)

text \<open>What MPI\_Irecv leaves: the buffer and the user's data are in the request.\<close>

lemma irecv_registers:
  assumes h: "ready_handle False P st h count p"
  shows "interposer_request_register P (Some b) (Some buf) count h r (buffered st s mm m) =
    Some (buffered (st\<lparr>g_outstanding_requests := g_outstanding_requests st @
      [\<lparr>mpi_req = r, tmpbuf = Some b, usrbuf = Some buf, req_count = count, req_datatype = h\<rparr>]\<rparr>) s mm m)"
proof -
  have c: "buffered st s mm m\<lparr>g_outstanding_requests := rs\<rparr> = buffered (st\<lparr>g_outstanding_requests := rs\<rparr>) s mm m" for rs
    by simp
  have "datatype_retrieve P h (buffered (st\<lparr>g_outstanding_requests := rs\<rparr>) s mm m) =
      Some (Some p, buffered (st\<lparr>g_outstanding_requests := rs\<rparr>) s mm m)" for rs
    using ready_registered [OF h, of rs] by (intro retrieve_buffered) (simp add: ready_handle_def)
  then show ?thesis unfolding interposer_request_register_def Let_def c by (simp add: is_recv_def)
qed

lemma irecv_wait:
  assumes h: "ready_handle False P (tables_of w) h count p" and len: "length bs = length (user_layout (tables_of w) p count)"
    and dis: "distinct (data_at buf (user_layout (tables_of w) p count))"
    and ap: "buffers_apart P (tables_of w) (int (length bs)) (data_at buf (user_layout (tables_of w) p count))"
    and msg: "arrives_later P N (MPI_BYTE P) peer (net w) bs"
    and new: "list_all (\<lambda>q. mpi_req q \<noteq> r) (g_outstanding_requests (tables_of w))"
  shows "\<exists>w1 w2 ret k. MPI_Irecv P N buf count h peer r w = Some w1 \<and> (\<forall>j \<ge> k. MPI_Wait P N j r w1 = Some (ret, w2)) \<and>
    bytes_of (memory (tables_of w2)) (data_at buf (user_layout (tables_of w) p count)) = map Some bs \<and>
    g_outstanding_requests (tables_of w2) = g_outstanding_requests (tables_of w)"
proof -
  let ?st = "tables_of w" and ?D = "user_layout (tables_of w) p count"
  let ?A = "data_at buf ?D" and ?rs = "g_outstanding_requests (tables_of w)"
  obtain t where t: "retrieve_type P h ?st = Some (t, ?st)" "int (length bs) = getSize t * count"
    using ready_handleD [OF h] len by metis
  obtain b s mm m where al: "interposer_buffer_alloc P count h ?st = Some ((b, int (length bs)), buffered ?st s mm m)"
    "list_all (\<lambda>x. m x \<noteq> None \<and> x \<notin> set ?A) (run_at b (nat (int (length bs))))" "bytes_of m ?A = bytes_of (memory ?st) ?A"
    "b = scratch P \<or> b \<in> dom mm \<and> b \<noteq> scratch P \<and> mm b = Some (nat (int (length bs)))"
    by (rule alloc_buffer [OF t ap of_nat_0_le_iff])
  let ?q = "\<lparr>mpi_req = r, tmpbuf = Some b, usrbuf = Some buf, req_count = count, req_datatype = h\<rparr>"
  let ?st1 = "?st\<lparr>g_outstanding_requests := ?rs @ [?q]\<rparr>" and ?m = "m(run_at b (length bs) [\<mapsto>] bs)"
  obtain v n1 where v: "PMPI_Irecv N b (int (length bs)) (MPI_BYTE P) peer (net w) = (v, n1)" by force
  have vn: "v \<noteq> MPI_REQUEST_NULL P" "\<exists>ret n2. PMPI_Wait N v n1 m = (ret, ?m, n2)"
    using msg [unfolded arrives_later_def, rule_format, of b] v by auto
  obtain ret n2 where wt: "PMPI_Wait N v n1 m = (ret, ?m, n2)" using vn(2) by blast
  let ?w1 = "w\<lparr>tables_of := buffered ?st1 s mm m, net := n1, request_var := (request_var w)(r := v)\<rparr>"
  have irecv: "MPI_Irecv P N buf count h peer r w = Some ?w1"
    using al(1) v irecv_registers [OF h] h by (simp add: MPI_Irecv_def ready_handle_def)
  have off: "list_all (\<lambda>x. x \<notin> set ?A) (run_at b (length bs))" using al(2) by (simp add: list_all_iff)
  have live: "list_all (\<lambda>x. m x \<noteq> None) ?A"
    using ap al(3) by (auto simp: buffers_apart_def bytes_of_def list_all_iff)
  have own: "b = scratch P \<or> b \<in> dom mm \<and> b \<noteq> scratch P \<and> mm b = Some (length bs)" using al(4) by simp
  obtain s' mm' m' k where un: "\<forall>j \<ge> k. Option.bind (interposer_unpack P j buf count h b (buffered ?st1 s mm ?m)) (interposer_buffer_free P b) =
      Some (buffered ?st1 s' mm' m')" "bytes_of m' ?A = map Some bs"
    using unpack_message [OF ready_registered [OF h, of "?rs @ [?q]"], unfolded ready_requests, OF len dis off live own, of s] by blast
  have "interposer_request_free P j r (buffered ?st1 s mm ?m) = Some (buffered (?st1\<lparr>g_outstanding_requests := ?rs\<rparr>) s' mm' m')"
    if "j \<ge> k" for j
    using un(1) that find_last [OF new, of ?q] remove_last [OF new, of ?q]
    by (simp add: interposer_request_free_def finish_request_def)
  then have "\<forall>j \<ge> k. MPI_Wait P N j r ?w1 = Some (ret, ?w1\<lparr>tables_of := buffered (?st1\<lparr>g_outstanding_requests := ?rs\<rparr>) s' mm' m',
      net := n2, request_var := (request_var w)(r := MPI_REQUEST_NULL P)\<rparr>)"
    using wt vn(1) by (simp add: MPI_Wait_def)
  then show ?thesis using irecv un(2) by fastforce
qed

end
