(* ===== verification/MPI_Messages.thy ===== *)
theory MPI_Messages
  imports MPI_Transfer
begin

text \<open>
  The properties of messages: what is sent, what is received, the round trip between two
  processes, a receive in the background, and what MPI\_Test does to a send that has
  not completed.
\<close>

section \<open>Two processes and a network\<close>

text \<open>The network is a queue of messages, and the buffer of the receive that was started.\<close>

definition ex_net :: "(byte list list \<times> i64) pmpi" where
  "ex_net = \<lparr>PMPI_Send = (\<lambda>b k _ _ m n. (fst n @ [map (\<lambda>a. the (m a)) (run_at b (nat k))], snd n)),
     PMPI_Recv = (\<lambda>b _ _ _ n m. (case fst n of [] \<Rightarrow> (m, n) | bs # q \<Rightarrow> (m(run_at b (length bs) [\<mapsto>] bs), q, snd n))),
     PMPI_Isend = (\<lambda>b k _ _ m n. (1, fst n @ [map (\<lambda>a. the (m a)) (run_at b (nat k))], snd n)),
     PMPI_Irecv = (\<lambda>b _ _ _ n. (1, fst n, b)),
     PMPI_Wait = (\<lambda>_ n m. (case fst n of [] \<Rightarrow> (0, m, n) | bs # q \<Rightarrow> (0, m(run_at (snd n) (length bs) [\<mapsto>] bs), q, snd n))),
     PMPI_Test = (\<lambda>_ n m. (0, False, m, n)), PMPI_Waitall = (\<lambda>_ n m. (0, m, n)),
     PMPI_Testall = (\<lambda>rs n m. (0, False, rs, m, n))\<rparr>"

definition msg_type :: ddt where
  "msg_type = VectorDatatype 2 1 2 (PrimitiveDatatype INTEGER)"

definition msg_mem :: mem where
  "msg_mem a = (if a < 64 then Some (ucast a) else if 4294967296 \<le> a \<and> a < 4294967360 then Some 0 else None)"

definition ex_process :: "byte list list \<Rightarrow> (byte list list \<times> i64) process" where
  "ex_process q = \<lparr>tables_of = ex_tables\<lparr>
       objs := (objs ex_tables)(5 \<mapsto> \<lparr>otype = msg_type, ocode = DDT_Commit msg_type [], ostatic = False\<rparr>), next_obj := 6,
       g_types := (g_types ex_tables)[7 := Some 5], memory := msg_mem\<rparr>,
     net = (q, 0), request_var = (\<lambda>_. 738197504)\<rparr>"

lemma msg_type_ok: "built msg_type" "regular msg_type" "fits msg_type" "handled pack msg_type"
proof -
  show "built msg_type" by (simp add: msg_type_def built.intros)
  show "handled pack msg_type" by (cases pack) (code_simp+)
qed code_simp+

lemma ex_ready: "ready_handle pack ex_platform (tables_of (ex_process q)) 7 1 5"
proof -
  obtain c where c: "DDT_Commit msg_type [] = Some c" using commit_ready [OF msg_type_ok(1-3), of "[]"] by blast
  have "store_ok (tables_of (ex_process q))"
    using start_store_ok [of Map.empty] c msg_type_ok(1)
    by (auto simp: ex_process_def ex_tables_def interposer_init_def store_ok_def obj_ok_def interposer_start_def)
  then have "usable pack (Some 5, tables_of (ex_process q))"
    using c msg_type_ok by (simp add: usable_def ex_process_def)
  moreover have "datatype_retrieve ex_platform 7 (tables_of (ex_process q)) = Some (Some 5, tables_of (ex_process q))"
    by (simp add: datatype_retrieve_def ex_platform_def ex_process_def DDT_FAST_CACHE_SIZE_def ex_tables_def
        interposer_init_def interposer_start_def)
  ultimately show ?thesis by (simp add: ready_handle_def packs_type_def ex_platform_def)
qed

lemma ex_user_layout: "user_layout (tables_of (ex_process q)) 5 1 = [0, 1, 2, 3, 8, 9, 10, 11]"
proof -
  have "lay msg_type 1 = [0, 1, 2, 3, 8, 9, 10, 11]" by code_simp
  then show ?thesis by (simp add: object_layout_def ex_process_def)
qed

lemma ex_memory: "memory (tables_of (ex_process q)) = msg_mem"
  by (simp add: ex_process_def)

lemma ex_buffers: "buffers_apart ex_platform (tables_of (ex_process q)) 8 (data_at 0 [0, 1, 2, 3, 8, 9, 10, 11])"
    "buffers_apart ex_platform (tables_of (ex_process q)) 8 (data_at 32 [0, 1, 2, 3, 8, 9, 10, 11])"
  unfolding buffers_apart_def ex_memory by code_simp+

lemma ex_bytes: "bytes_of (memory (tables_of (ex_process q))) (data_at 0 [0, 1, 2, 3, 8, 9, 10, 11]) =
    map Some [0, 1, 2, 3, 8, 9, 10, 11]" "distinct (data_at 32 [0, 1, 2, 3, 8, 9, 10, 11])"
  unfolding ex_memory by code_simp+

section \<open>Sending and receiving\<close>

text \<open>
  C16: MPI\_Send of a committed datatype hands the library below one message of bytes, the
  packed data in the order of the type map, and leaves the user's data as it was.
\<close>

theorem MPI_Send_sends_packed:
  assumes "ready_handle True P (tables_of w) h count p" "D = user_layout (tables_of w) p count"
    and "buffers_apart P (tables_of w) (int (length D)) (data_at buf D)"
  shows "\<exists>w' b m k. (\<forall>j \<ge> k. MPI_Send P N j buf count h peer w = Some w') \<and>
    net w' = PMPI_Send N b (int (length D)) (MPI_BYTE P) peer m (net w) \<and>
    bytes_of m (run_at b (length D)) = bytes_of (memory (tables_of w)) (data_at buf D) \<and>
    bytes_of (memory (tables_of w')) (data_at buf D) = bytes_of (memory (tables_of w)) (data_at buf D)"
  using send_message [OF assms(1), where buf = buf and N = N and peer = peer] assms(2,3) by simp

theorem MPI_Send_sends_packed_witness:
  "\<exists>w' k. MPI_Send ex_platform ex_net k 0 1 7 (0, 0, 0) (ex_process []) = Some w' \<and>
     net w' = ([[0, 1, 2, 3, 8, 9, 10, 11]], 0)"
proof -
  obtain w' b m k where s: "\<forall>j \<ge> k. MPI_Send ex_platform ex_net j 0 1 7 (0, 0, 0) (ex_process []) = Some w'"
    "net w' = PMPI_Send ex_net b (int (length [0 :: int, 1, 2, 3, 8, 9, 10, 11])) (MPI_BYTE ex_platform) (0, 0, 0) m (net (ex_process []))"
    "bytes_of m (run_at b (length [0 :: int, 1, 2, 3, 8, 9, 10, 11])) = map Some [0, 1, 2, 3, 8, 9, 10, 11]"
    using MPI_Send_sends_packed [OF ex_ready [where q = "[]"] ex_user_layout [symmetric], where buf = 0 and N = ex_net and peer = "(0, 0, 0)"]
      ex_buffers(1) unfolding ex_bytes(1) by auto
  have l8: "length [0 :: int, 1, 2, 3, 8, 9, 10, 11] = 8" by simp
  have "map (\<lambda>a. the (m a)) (run_at b 8) = map the (bytes_of m (run_at b 8))" by (simp add: bytes_of_def)
  also have "\<dots> = [0, 1, 2, 3, 8, 9, 10, 11]" using s(3) [unfolded l8] by simp
  finally have "net w' = ([[0, 1, 2, 3, 8, 9, 10, 11]], 0)" using s(2) by (simp add: ex_net_def ex_process_def)
  then show ?thesis using s(1) by blast
qed

text \<open>
  C17: MPI\_Recv of a committed datatype takes one message of bytes from the library below and
  puts it into the user's data in the order of the type map.
\<close>

theorem MPI_Recv_receives_packed:
  assumes "ready_handle False P (tables_of w) h count p" "D = user_layout (tables_of w) p count"
    and "length bs = length D" "distinct (data_at buf D)" "buffers_apart P (tables_of w) (int (length D)) (data_at buf D)"
    and "arrives N (MPI_BYTE P) peer (net w) bs n'"
  shows "\<exists>w' k. (\<forall>j \<ge> k. MPI_Recv P N j buf count h peer w = Some w') \<and> net w' = n' \<and>
    bytes_of (memory (tables_of w')) (data_at buf D) = map Some bs"
  using receive_message [OF assms(1), where bs = bs and buf = buf and N = N and peer = peer and n' = n'] assms(2-6) by simp

lemma ex_arrives: "arrives ex_net ty peer (bs # q, x) bs (q, x)"
  by (simp add: arrives_def ex_net_def)

theorem MPI_Recv_receives_packed_witness:
  "\<exists>w' k. MPI_Recv ex_platform ex_net k 32 1 7 (0, 0, 0) (ex_process [[9, 8, 7, 6, 5, 4, 3, 2]]) = Some w' \<and>
     bytes_of (memory (tables_of w')) [32, 33, 34, 35, 40, 41, 42, 43] = map Some [9, 8, 7, 6, 5, 4, 3, 2]"
proof -
  let ?bs = "[9, 8, 7, 6, 5, 4, 3, 2] :: byte list"
  have at: "data_at 32 [0, 1, 2, 3, 8, 9, 10, 11] = [32, 33, 34, 35, 40, 41, 42, 43]" by code_simp
  have msg: "arrives ex_net (MPI_BYTE ex_platform) (0, 0, 0) (net (ex_process [?bs])) ?bs ([], 0)"
    using ex_arrives by (simp add: ex_process_def)
  have l: "length ?bs = length [0 :: int, 1, 2, 3, 8, 9, 10, 11]" by simp
  have b: "buffers_apart ex_platform (tables_of (ex_process [?bs])) (int (length [0 :: int, 1, 2, 3, 8, 9, 10, 11]))
      (data_at 32 [0, 1, 2, 3, 8, 9, 10, 11])" using ex_buffers(2) by simp
  show ?thesis
    using MPI_Recv_receives_packed [OF ex_ready ex_user_layout [symmetric] l ex_bytes(2) b msg] unfolding at by blast
qed

text \<open>
  C4: What one process sends with MPI\_Send the other gets with MPI\_Recv: the value of its
  data is the value of the sender's, whatever layouts the two datatypes have.
\<close>

theorem MPI_Send_Recv_copies:
  assumes "ready_handle True P (tables_of w1) h1 n1 p1" "D1 = user_layout (tables_of w1) p1 n1"
    and "buffers_apart P (tables_of w1) (int (length D1)) (data_at src D1)"
    and "ready_handle False P (tables_of w2) h2 n2 p2" "D2 = user_layout (tables_of w2) p2 n2" "length D2 = length D1"
    and "distinct (data_at dst D2)" "buffers_apart P (tables_of w2) (int (length D2)) (data_at dst D2)"
    and net: "carries N (MPI_BYTE P) peer1 peer2 (net w1)"
  shows "\<exists>w1' w2' k. (\<forall>j \<ge> k. MPI_Send P N j src n1 h1 peer1 w1 = Some w1' \<and>
      MPI_Recv P N j dst n2 h2 peer2 (w2\<lparr>net := net w1'\<rparr>) = Some w2') \<and>
    bytes_of (memory (tables_of w2')) (data_at dst D2) = bytes_of (memory (tables_of w1)) (data_at src D1)"
proof -
  obtain w1' b m k1 where s: "\<forall>j \<ge> k1. MPI_Send P N j src n1 h1 peer1 w1 = Some w1'"
    "net w1' = PMPI_Send N b (int (length D1)) (MPI_BYTE P) peer1 m (net w1)"
    "bytes_of m (run_at b (length D1)) = bytes_of (memory (tables_of w1)) (data_at src D1)"
    using send_message [OF assms(1), where buf = src and N = N and peer = peer1] assms(2,3) by auto
  define bs where "bs = map the (bytes_of (memory (tables_of w1)) (data_at src D1))"
  have bs: "map Some bs = bytes_of (memory (tables_of w1)) (data_at src D1)" "length bs = length D1"
    using assms(3) by (auto simp: bs_def buffers_apart_def bytes_of_def list_all_iff)
  have "bytes_of m (run_at b (length bs)) = map Some bs" using s(3) bs by simp
  then obtain n' where "arrives N (MPI_BYTE P) peer2 (net w1') bs n'"
    using net s(2) bs(2) unfolding carries_def by metis
  then have "arrives N (MPI_BYTE P) peer2 (net (w2\<lparr>net := net w1'\<rparr>)) bs n'" by simp
  then obtain w2' k2 where r: "\<forall>j \<ge> k2. MPI_Recv P N j dst n2 h2 peer2 (w2\<lparr>net := net w1'\<rparr>) = Some w2'"
    "bytes_of (memory (tables_of w2')) (data_at dst D2) = map Some bs"
    using receive_message [where P = P and w = "w2\<lparr>net := net w1'\<rparr>" and h = h2 and count = n2 and p = p2 and bs = bs and buf = dst
        and N = N and peer = peer2 and n' = n'] assms(4-8) bs(2) by auto
  have "\<forall>j \<ge> max k1 k2. MPI_Send P N j src n1 h1 peer1 w1 = Some w1' \<and>
      MPI_Recv P N j dst n2 h2 peer2 (w2\<lparr>net := net w1'\<rparr>) = Some w2'" using s(1) r(1) by simp
  then show ?thesis using r(2) bs(1) by metis
qed

lemma ex_carries: "carries ex_net ty peer peer' ([], x)"
proof -
  have "map (\<lambda>a. the (m a)) (run_at b (length bs)) = bs" if "bytes_of m (run_at b (length bs)) = map Some bs" for b m bs
  proof -
    have "map the (bytes_of m (run_at b (length bs))) = bs" using that by simp
    then show ?thesis by (simp add: bytes_of_def comp_def)
  qed
  then show ?thesis by (auto simp: carries_def arrives_def ex_net_def)
qed

theorem MPI_Send_Recv_copies_witness:
  "\<exists>w1' w2' k. MPI_Send ex_platform ex_net k 0 1 7 (0, 0, 0) (ex_process []) = Some w1' \<and>
     MPI_Recv ex_platform ex_net k 32 1 7 (1, 0, 0) ((ex_process [])\<lparr>net := net w1'\<rparr>) = Some w2' \<and>
     bytes_of (memory (tables_of w2')) (data_at 32 [0, 1, 2, 3, 8, 9, 10, 11]) = map Some [0, 1, 2, 3, 8, 9, 10, 11]"
proof -
  let ?D = "[0, 1, 2, 3, 8, 9, 10, 11] :: int list"
  have b: "buffers_apart ex_platform (tables_of (ex_process [])) (int (length ?D)) (data_at 0 ?D)"
    "buffers_apart ex_platform (tables_of (ex_process [])) (int (length ?D)) (data_at 32 ?D)" using ex_buffers by simp_all
  have c: "carries ex_net (MPI_BYTE ex_platform) (0, 0, 0) (1, 0, 0) (net (ex_process []))"
    using ex_carries by (simp add: ex_process_def)
  show ?thesis
    using MPI_Send_Recv_copies [OF ex_ready ex_user_layout [symmetric] b(1) ex_ready ex_user_layout [symmetric] refl ex_bytes(2) b(2) c]
    unfolding ex_bytes(1) by blast
qed

section \<open>Operations in the background\<close>

text \<open>
  C10: A receive that is started with MPI\_Irecv and waited for with MPI\_Wait puts the message
  into the user's data, and the table of requests is then as before.
\<close>

theorem MPI_Irecv_Wait_receives:
  assumes "ready_handle False P (tables_of w) h count p" "D = user_layout (tables_of w) p count"
    and "length bs = length D" "distinct (data_at buf D)" "buffers_apart P (tables_of w) (int (length D)) (data_at buf D)"
    and "arrives_later P N (MPI_BYTE P) peer (net w) bs"
    and "list_all (\<lambda>q. mpi_req q \<noteq> r) (g_outstanding_requests (tables_of w))"
  shows "\<exists>w1 w2 ret k. MPI_Irecv P N buf count h peer r w = Some w1 \<and> (\<forall>j \<ge> k. MPI_Wait P N j r w1 = Some (ret, w2)) \<and>
    bytes_of (memory (tables_of w2)) (data_at buf D) = map Some bs \<and>
    g_outstanding_requests (tables_of w2) = g_outstanding_requests (tables_of w)"
  using irecv_wait [OF assms(1), where bs = bs and buf = buf and N = N and peer = peer and r = r] assms(2-7) by simp

theorem MPI_Irecv_Wait_receives_witness:
  "\<exists>w1 w2 ret k. MPI_Irecv ex_platform ex_net 32 1 7 (0, 0, 0) 1000 (ex_process [[9, 8, 7, 6, 5, 4, 3, 2]]) = Some w1 \<and>
     MPI_Wait ex_platform ex_net k 1000 w1 = Some (ret, w2) \<and>
     bytes_of (memory (tables_of w2)) (data_at 32 [0, 1, 2, 3, 8, 9, 10, 11]) = map Some [9, 8, 7, 6, 5, 4, 3, 2]"
proof -
  let ?bs = "[9, 8, 7, 6, 5, 4, 3, 2] :: byte list" and ?D = "[0, 1, 2, 3, 8, 9, 10, 11] :: int list"
  have l: "length ?bs = length ?D" by simp
  have b: "buffers_apart ex_platform (tables_of (ex_process [?bs])) (int (length ?D)) (data_at 32 ?D)" using ex_buffers(2) by simp
  have msg: "arrives_later ex_platform ex_net (MPI_BYTE ex_platform) (0, 0, 0) (net (ex_process [?bs])) ?bs"
    by (simp add: arrives_later_def ex_net_def ex_process_def ex_platform_def)
  have new: "list_all (\<lambda>q. mpi_req q \<noteq> 1000) (g_outstanding_requests (tables_of (ex_process [?bs])))"
    by (simp add: ex_process_def ex_tables_def interposer_init_def interposer_start_def)
  show ?thesis
    using MPI_Irecv_Wait_receives [OF ex_ready ex_user_layout [symmetric] l ex_bytes(2) b msg new] by blast
qed

definition ex_sending :: "(byte list list \<times> i64) process" where
  "ex_sending = (ex_process [])\<lparr>tables_of := (tables_of (ex_process []))\<lparr>
       g_outstanding_requests := [\<lparr>mpi_req = 1000, tmpbuf = Some 48, usrbuf = None, req_count = 0, req_datatype = 0\<rparr>],
       malloced := [48 \<mapsto> 8]\<rparr>, request_var := (\<lambda>_. 1)\<rparr>"

text \<open>
  C30: MPI\_Test frees the buffer of a send that has not completed, while the request stays
  active: the library below goes on sending from freed memory.
\<close>

theorem MPI_Test_frees_buffer:
  assumes "request_var w r \<noteq> MPI_REQUEST_NULL P" "PMPI_Test N (request_var w r) (net w) (memory (tables_of w)) = (ret, False, m, n')"
    and "find (\<lambda>q. mpi_req q = r) (g_outstanding_requests (tables_of w)) = Some q" "tmpbuf q = Some b" "usrbuf q = None"
    and "b \<noteq> scratch P" "malloced (tables_of w) b = Some k"
  shows "\<exists>w'. MPI_Test P N j r w = Some (ret, False, w') \<and> malloced (tables_of w') b = None \<and>
    (\<forall>a \<in> set (run_at b k). memory (tables_of w') a = None) \<and> request_var w' r = request_var w r"
  using assms by (simp add: MPI_Test_def interposer_request_free_def finish_request_def interposer_buffer_free_def c_free_def)

theorem MPI_Test_frees_buffer_witness:
  "\<exists>w'. MPI_Test ex_platform ex_net 0 1000 ex_sending = Some (0, False, w') \<and> memory (tables_of w') 48 = None"
proof -
  let ?q = "\<lparr>mpi_req = 1000, tmpbuf = Some 48, usrbuf = None, req_count = 0, req_datatype = 0\<rparr>"
  have "48 \<in> set (run_at 48 8)" by code_simp
  moreover have "request_var ex_sending 1000 \<noteq> MPI_REQUEST_NULL ex_platform" "(48 :: i64) \<noteq> scratch ex_platform"
    "PMPI_Test ex_net (request_var ex_sending 1000) (net ex_sending) (memory (tables_of ex_sending)) =
       (0, False, memory (tables_of ex_sending), net ex_sending)"
    "find (\<lambda>q. mpi_req q = 1000) (g_outstanding_requests (tables_of ex_sending)) = Some ?q"
    "malloced (tables_of ex_sending) 48 = Some 8"
    by (simp_all add: ex_sending_def ex_platform_def ex_net_def)
  ultimately show ?thesis
    using MPI_Test_frees_buffer [of ex_sending 1000 ex_platform ex_net _ _ _ ?q 48 8 0] by fastforce
qed

end
