(* ===== verification/MPI_Requests.thy ===== *)
theory MPI_Requests
  imports MPI_Messages
begin

text \<open>
  Several operations in the background: MPI\_Waitall finishes all requests it is given,
  unpacks every receive and frees every buffer, whatever order the operations were started in;
  MPI\_Testall does so when all have completed, and nothing otherwise; MPI\_Test finishes a
  receive that has not completed, whose message is then lost.
\<close>

section \<open>Requests that do not interfere\<close>

definition receives :: "request \<Rightarrow> bool" where
  "receives q \<longleftrightarrow> tmpbuf q \<noteq> None \<and> is_recv q"

text \<open>The addresses of the user's data of a receive, and those of the buffer of a request.\<close>

definition target :: "platform \<Rightarrow> interposer \<Rightarrow> request \<Rightarrow> i64 list" where
  "target P st q = (if receives q
     then data_at (the (usrbuf q)) (object_layout (fst (the (datatype_retrieve P (req_datatype q) st)), st) (nat (req_count q)))
     else [])"

definition own_buffer :: "platform \<Rightarrow> interposer \<Rightarrow> request \<Rightarrow> i64 list" where
  "own_buffer P st q = (case tmpbuf q of None \<Rightarrow> []
     | Some b \<Rightarrow> run_at b (if receives q \<or> b = scratch P then length (target P st q) else the (malloced st b)))"

definition footprint :: "platform \<Rightarrow> interposer \<Rightarrow> request \<Rightarrow> i64 set" where
  "footprint P st q = set (target P st q) \<union> set (own_buffer P st q)"

definition finishable :: "platform \<Rightarrow> interposer \<Rightarrow> request \<Rightarrow> bool" where
  "finishable P st q \<longleftrightarrow> (case tmpbuf q of None \<Rightarrow> True | Some b \<Rightarrow>
     (b = scratch P \<or> malloced st b = Some (length (own_buffer P st q))) \<and>
     (case usrbuf q of None \<Rightarrow> True | Some usr \<Rightarrow>
       (\<exists>p. ready_handle False P st (req_datatype q) (req_count q) p) \<and> distinct (target P st q) \<and>
       list_all (\<lambda>x. memory st x \<noteq> None) (target P st q) \<and>
       list_all (\<lambda>x. memory st x \<noteq> None \<and> x \<notin> set (target P st q)) (own_buffer P st q)))"

definition no_clash :: "platform \<Rightarrow> interposer \<Rightarrow> request \<Rightarrow> request \<Rightarrow> bool" where
  "no_clash P st q q' \<longleftrightarrow> footprint P st q \<inter> footprint P st q' = {} \<and>
     (tmpbuf q \<noteq> tmpbuf q' \<or> tmpbuf q = None \<or> tmpbuf q = Some (scratch P))"

definition received :: "platform \<Rightarrow> interposer \<Rightarrow> request \<Rightarrow> byte option list" where
  "received P st q = bytes_of (memory st) (own_buffer P st q)"

text \<open>Finishing requests leaves objects, handles and types as they are.\<close>

definition same_types :: "interposer \<Rightarrow> interposer \<Rightarrow> bool" where
  "same_types st st' \<longleftrightarrow> objs st' = objs st \<and> next_obj st' = next_obj st \<and> llmodule st' = llmodule st \<and>
     g_types st' = g_types st \<and> g_types_freelist st' = g_types_freelist st \<and> g_types_fallback st' = g_types_fallback st"

lemma same_types_refl: "same_types st st"
  by (simp add: same_types_def)

lemma same_types_trans: "same_types a b \<Longrightarrow> same_types b c \<Longrightarrow> same_types a c"
  by (simp add: same_types_def)

lemma same_types_ready: "same_types st st' \<Longrightarrow> ready_handle pack P st h count p \<Longrightarrow> ready_handle pack P st' h count p"
  by (auto simp: ready_handle_def usable_def store_ok_def same_types_def deref_def datatype_retrieve_def split: if_splits option.splits)

lemma finishable_receive:
  assumes "finishable P st q" "receives q"
  obtains b usr p where "tmpbuf q = Some b" "usrbuf q = Some usr" "ready_handle False P st (req_datatype q) (req_count q) p"
    "target P st q = data_at usr (user_layout st p (req_count q))"
    "own_buffer P st q = run_at b (length (user_layout st p (req_count q)))"
proof -
  obtain b usr where b: "tmpbuf q = Some b" "usrbuf q = Some usr" using assms(2) by (auto simp: receives_def is_recv_def)
  then obtain p where p: "ready_handle False P st (req_datatype q) (req_count q) p" using assms(1) by (auto simp: finishable_def)
  then have "datatype_retrieve P (req_datatype q) st = Some (Some p, st)" by (simp add: ready_handle_def)
  then have "target P st q = data_at usr (user_layout st p (req_count q))" using b assms(2) by (simp add: target_def)
  then show ?thesis using that b p assms(2) by (simp add: own_buffer_def)
qed

lemma same_target:
  assumes "same_types st st'" "finishable P st q"
  shows "target P st' q = target P st q"
proof (cases "receives q")
  case True
  obtain b usr p where p: "tmpbuf q = Some b" "usrbuf q = Some usr" "ready_handle False P st (req_datatype q) (req_count q) p"
    "target P st q = data_at usr (user_layout st p (req_count q))"
    by (rule finishable_receive [OF assms(2) True]) blast
  have "datatype_retrieve P (req_datatype q) st' = Some (Some p, st')"
    using same_types_ready [OF assms(1) p(3)] by (simp add: ready_handle_def)
  then show ?thesis using p True assms(1) by (simp add: target_def object_layout_def deref_def same_types_def)
qed (simp add: target_def)

text \<open>A request stays finishable as long as nobody touches its footprint and its block.\<close>

lemma finishable_kept:
  assumes "same_types st st'" "finishable P st q" "\<forall>x \<in> footprint P st q. memory st' x \<noteq> None \<longleftrightarrow> memory st x \<noteq> None"
    and "\<forall>b. tmpbuf q = Some b \<and> b \<noteq> scratch P \<longrightarrow> malloced st' b = malloced st b"
  shows "finishable P st' q \<and> own_buffer P st' q = own_buffer P st q"
proof -
  have t: "target P st' q = target P st q" by (rule same_target [OF assms(1,2)])
  have o: "own_buffer P st' q = own_buffer P st q"
    using assms(4) t by (auto simp: own_buffer_def split: option.splits)
  have "finishable P st' q"
    using assms(2-4) t o same_types_ready [OF assms(1)]
    by (fastforce simp: finishable_def footprint_def list_all_iff split: option.splits)
  then show ?thesis using o by blast
qed

lemma finish_one:
  assumes "finishable P st q"
  shows "\<exists>s mm m k. (\<forall>j \<ge> k. finish_request P j q st = Some (buffered st s mm m)) \<and>
    (receives q \<longrightarrow> bytes_of m (target P st q) = received P st q) \<and>
    (\<forall>x. x \<notin> footprint P st q \<longrightarrow> m x = memory st x) \<and>
    (\<forall>c. tmpbuf q \<noteq> Some c \<longrightarrow> mm c = malloced st c)"
proof -
  have self: "buffered st (scratch_in_use st) (malloced st) (memory st) = st" by simp
  consider "tmpbuf q = None" | "tmpbuf q \<noteq> None" "usrbuf q = None" | "receives q" by (auto simp: receives_def is_recv_def)
  then show ?thesis
  proof cases
    case 1
    then have "\<forall>j. finish_request P j q st = Some (buffered st (scratch_in_use st) (malloced st) (memory st))"
      by (simp add: finish_request_def)
    then show ?thesis using 1
      by (intro exI [of _ "scratch_in_use st"] exI [of _ "malloced st"] exI [of _ "memory st"]) (auto simp: receives_def)
  next
    case 2
    then obtain b where b: "tmpbuf q = Some b" by blast
    have "b = scratch P \<or> malloced st b = Some (length (own_buffer P st q))" using assms b by (simp add: finishable_def)
    then obtain s' mm' m' where f: "interposer_buffer_free P b (buffered st (scratch_in_use st) (malloced st) (memory st)) = Some (buffered st s' mm' m')"
      "\<forall>x. x \<notin> set (run_at b (length (own_buffer P st q))) \<longrightarrow> m' x = memory st x" "\<forall>c. c \<noteq> b \<longrightarrow> mm' c = malloced st c"
      by (rule free_frame [where mm = "malloced st" and n = "length (own_buffer P st q)"])
    have "set (run_at b (length (own_buffer P st q))) \<subseteq> footprint P st q"
      using b by (simp add: footprint_def own_buffer_def)
    moreover have "\<forall>j. finish_request P j q st = Some (buffered st s' mm' m')"
      using f(1) b 2 unfolding self by (simp add: finish_request_def)
    ultimately show ?thesis using f(2,3) b 2
      by (intro exI [of _ s'] exI [of _ mm'] exI [of _ m']) (auto simp: receives_def is_recv_def)
  next
    case 3
    obtain b usr p where p: "tmpbuf q = Some b" "usrbuf q = Some usr" "ready_handle False P st (req_datatype q) (req_count q) p"
      "target P st q = data_at usr (user_layout st p (req_count q))"
      "own_buffer P st q = run_at b (length (user_layout st p (req_count q)))"
      by (rule finishable_receive [OF assms 3])
    have "distinct (data_at usr (user_layout st p (req_count q)))" "b = scratch P \<or> malloced st b = Some (length (user_layout st p (req_count q)))"
      "separate (memory st) usr (user_layout st p (req_count q)) b"
      using assms p by (auto simp: finishable_def separate_def list_all_iff)
    from unpack_free [where mm = "malloced st" and s = "scratch_in_use st", OF p(3) this(1,3,2)] obtain s' mm' m' k where
      u: "\<forall>j \<ge> k. Option.bind (interposer_unpack P j usr (req_count q) (req_datatype q) b st) (interposer_buffer_free P b) = Some (buffered st s' mm' m')"
      "bytes_of m' (target P st q) = received P st q" "\<forall>x. x \<notin> footprint P st q \<longrightarrow> m' x = memory st x"
      "\<forall>c. c \<noteq> b \<longrightarrow> mm' c = malloced st c"
      unfolding self by (auto simp: p(4,5) footprint_def received_def)
    have "\<forall>j \<ge> k. finish_request P j q st = Some (buffered st s' mm' m')" using u(1) p(1,2) by (simp add: finish_request_def)
    then show ?thesis using u(2-4) p(1)
      by (intro exI [of _ s'] exI [of _ mm'] exI [of _ m'] exI [of _ k]) auto
  qed
qed

section \<open>Finishing several requests\<close>

lemma remove_first_filter: "distinct (map mpi_req rs) \<Longrightarrow> remove_first r rs = filter (\<lambda>q. mpi_req q \<noteq> r) rs"
proof (induction rs)
  case (Cons q rs)
  then have "mpi_req q \<notin> mpi_req ` set rs" by simp
  then have "mpi_req q = r \<Longrightarrow> \<forall>x \<in> set rs. mpi_req x \<noteq> r" by (metis imageI)
  then have "mpi_req q = r \<Longrightarrow> filter (\<lambda>q. mpi_req q \<noteq> r) rs = rs" by simp
  then show ?case using Cons by simp
qed simp

text \<open>The requests of a list of variables that can be finished one after the other.\<close>

definition finishable_all :: "platform \<Rightarrow> interposer \<Rightarrow> request set \<Rightarrow> bool" where
  "finishable_all P st Q \<longleftrightarrow> (\<forall>q \<in> Q. finishable P st q) \<and> (\<forall>q \<in> Q. \<forall>q' \<in> Q. q = q' \<or> no_clash P st q q')"

definition requests_of :: "interposer \<Rightarrow> nat set \<Rightarrow> request set" where
  "requests_of st R = {q \<in> set (g_outstanding_requests st). mpi_req q \<in> R}"

lemma finish_next:
  assumes "finishable_all P st Q" "q \<in> Q" "\<forall>x. x \<notin> footprint P st q \<longrightarrow> m x = memory st x"
    "\<forall>c. tmpbuf q \<noteq> Some c \<longrightarrow> mm c = malloced st c" "st' = (buffered st s mm m)\<lparr>g_outstanding_requests := rs\<rparr>"
  shows "finishable_all P st' (Q - {q})"
    and "q' \<in> Q - {q} \<Longrightarrow> target P st' q' = target P st q' \<and> footprint P st' q' = footprint P st q' \<and> received P st' q' = received P st q'"
proof -
  have sm: "same_types st st'" by (simp add: assms(5) same_types_def)
  have one: "finishable P st' q' \<and> target P st' q' = target P st q' \<and> footprint P st' q' = footprint P st q' \<and> received P st' q' = received P st q'"
    if q': "q' \<in> Q - {q}" for q'
  proof -
    have f: "finishable P st q'" and nc: "no_clash P st q q'" using assms(1,2) q' by (auto simp: finishable_all_def)
    have mem: "\<forall>x \<in> footprint P st q'. memory st' x = memory st x"
      using nc assms(3,5) by (auto simp: no_clash_def)
    have "\<forall>b. tmpbuf q' = Some b \<and> b \<noteq> scratch P \<longrightarrow> malloced st' b = malloced st b"
      using nc assms(4,5) by (auto simp: no_clash_def)
    then have k: "finishable P st' q'" "own_buffer P st' q' = own_buffer P st q'"
      using finishable_kept [OF sm f] mem by simp_all
    moreover have "bytes_of (memory st') (own_buffer P st q') = bytes_of (memory st) (own_buffer P st q')"
      using mem by (simp add: bytes_of_def footprint_def)
    ultimately show ?thesis using same_target [OF sm f] by (simp add: footprint_def received_def)
  qed
  then show "q' \<in> Q - {q} \<Longrightarrow> target P st' q' = target P st q' \<and> footprint P st' q' = footprint P st q' \<and> received P st' q' = received P st q'"
    by blast
  have "no_clash P st' a b" if "a \<in> Q - {q}" "b \<in> Q - {q}" "a \<noteq> b" for a b
    using assms(1) one [OF that(1)] one [OF that(2)] that by (auto simp: finishable_all_def no_clash_def)
  then show "finishable_all P st' (Q - {q})" using one by (auto simp: finishable_all_def)
qed

lemma free_all:
  assumes "distinct (map mpi_req (g_outstanding_requests st))" "finishable_all P st (requests_of st (set rs))"
  shows "\<exists>st' k. (\<forall>j \<ge> k. free_requests P j rs st = Some st') \<and>
    g_outstanding_requests st' = filter (\<lambda>q. mpi_req q \<notin> set rs) (g_outstanding_requests st) \<and>
    (\<forall>q \<in> requests_of st (set rs). receives q \<longrightarrow> bytes_of (memory st') (target P st q) = received P st q) \<and>
    (\<forall>x. (\<forall>q \<in> requests_of st (set rs). x \<notin> footprint P st q) \<longrightarrow> memory st' x = memory st x)"
  using assms
proof (induction rs arbitrary: st)
  case Nil
  then show ?case by (auto simp: requests_of_def intro!: exI [of _ st])
next
  case (Cons r rs)
  let ?O = "g_outstanding_requests st"
  show ?case
  proof (cases "find (\<lambda>q. mpi_req q = r) ?O")
    case None
    then have "r \<notin> mpi_req ` set ?O" by (auto simp: find_None_iff)
    then have same: "requests_of st (set (r # rs)) = requests_of st (set rs)"
      "filter (\<lambda>q. mpi_req q \<notin> set (r # rs)) ?O = filter (\<lambda>q. mpi_req q \<notin> set rs) ?O"
      by (auto simp: requests_of_def image_iff intro!: filter_cong)
    have "interposer_request_free P j r st = Some st" for j using None by (simp add: interposer_request_free_def)
    then show ?thesis using Cons.IH [OF Cons.prems(1)] Cons.prems(2) unfolding same by simp
  next
    case (Some q)
    let ?Q = "requests_of st (set (r # rs))"
    have q: "q \<in> set ?O" "mpi_req q = r" using Some by (auto simp: find_Some_iff)
    then have qQ: "q \<in> ?Q" by (simp add: requests_of_def)
    have "finishable P st q" using Cons.prems(2) qQ by (simp add: finishable_all_def)
    from finish_one [OF this] obtain s mm m k where f: "\<forall>j \<ge> k. finish_request P j q st = Some (buffered st s mm m)"
      "receives q \<longrightarrow> bytes_of m (target P st q) = received P st q" "\<forall>x. x \<notin> footprint P st q \<longrightarrow> m x = memory st x"
      "\<forall>c. tmpbuf q \<noteq> Some c \<longrightarrow> mm c = malloced st c" by blast
    define st2 where "st2 = (buffered st s mm m)\<lparr>g_outstanding_requests := filter (\<lambda>q. mpi_req q \<noteq> r) ?O\<rparr>"
    have fr: "interposer_request_free P j r st = Some st2" if "j \<ge> k" for j
      using f(1) that Some remove_first_filter [OF Cons.prems(1)] by (simp add: interposer_request_free_def st2_def)
    have uniq: "q' = q" if "q' \<in> set ?O" "mpi_req q' = r" for q'
      using Cons.prems(1) q that by (simp add: distinct_map inj_on_def)
    have "set (g_outstanding_requests st2) = {q' \<in> set ?O. mpi_req q' \<noteq> r}" by (simp add: st2_def)
    moreover have "set (r # rs) = insert r (set rs)" by simp
    ultimately have Q2: "requests_of st2 (set rs) = ?Q - {q}"
      using uniq q unfolding requests_of_def by blast
    note nx = finish_next [OF Cons.prems(2) qQ f(3,4) st2_def]
    have "distinct (map mpi_req (g_outstanding_requests st2))" using Cons.prems(1) by (simp add: st2_def distinct_map_filter)
    from Cons.IH [OF this, unfolded Q2] obtain st' k2 where st': "\<forall>j \<ge> k2. free_requests P j rs st2 = Some st'"
      "g_outstanding_requests st' = filter (\<lambda>q. mpi_req q \<notin> set rs) (g_outstanding_requests st2)"
      "\<forall>q' \<in> ?Q - {q}. receives q' \<longrightarrow> bytes_of (memory st') (target P st2 q') = received P st2 q'"
      "\<forall>x. (\<forall>q' \<in> ?Q - {q}. x \<notin> footprint P st2 q') \<longrightarrow> memory st' x = m x"
      using nx(1) by (auto simp: st2_def)
    have "\<forall>j \<ge> max k k2. free_requests P j (r # rs) st = Some st'" using fr st'(1) by simp
    moreover have "g_outstanding_requests st' = filter (\<lambda>q. mpi_req q \<notin> set (r # rs)) ?O"
      using st'(2) by (auto simp: st2_def intro!: filter_cong)
    moreover have "memory st' x = m x" if "x \<in> footprint P st q" for x
    proof -
      have "x \<notin> footprint P st q'" if "q' \<in> ?Q - {q}" for q'
        using Cons.prems(2) qQ that \<open>x \<in> footprint P st q\<close> by (auto simp: finishable_all_def no_clash_def)
      then show ?thesis using st'(4) nx(2) by blast
    qed
    then have "bytes_of (memory st') (target P st q) = bytes_of m (target P st q)"
      by (simp add: bytes_of_def footprint_def)
    then have "\<forall>q' \<in> ?Q. receives q' \<longrightarrow> bytes_of (memory st') (target P st q') = received P st q'"
    proof (intro ballI impI)
      fix q' assume q': "q' \<in> ?Q" "receives q'"
      show "bytes_of (memory st') (target P st q') = received P st q'"
      proof (cases "q' = q")
        case False
        then have "q' \<in> ?Q - {q}" using q'(1) by blast
        then show ?thesis using st'(3) nx(2) q'(2) by simp
      qed (use \<open>bytes_of (memory st') (target P st q) = bytes_of m (target P st q)\<close> f(2) q'(2) in simp)
    qed
    moreover have "memory st' x = memory st x" if "\<forall>q' \<in> ?Q. x \<notin> footprint P st q'" for x
    proof -
      have "\<forall>q' \<in> ?Q - {q}. x \<notin> footprint P st2 q'" using that nx(2) by blast
      then have "memory st' x = m x" using st'(4) by blast
      then show ?thesis using f(3) qQ that by simp
    qed
    ultimately show ?thesis by blast
  qed
qed

section \<open>Waiting for several requests\<close>

text \<open>
  What the library below has done when the receives of \<open>Q\<close> are complete: the message of each
  is in its buffer, and nothing was allocated or freed.
\<close>

definition delivered :: "platform \<Rightarrow> interposer \<Rightarrow> request set \<Rightarrow> (request \<Rightarrow> byte list) \<Rightarrow> mem \<Rightarrow> bool" where
  "delivered P st Q msg m \<longleftrightarrow> (\<forall>x. m x = None \<longleftrightarrow> memory st x = None) \<and>
     (\<forall>q \<in> Q. receives q \<longrightarrow> bytes_of m (own_buffer P st q) = map Some (msg q))"

lemma free_delivered:
  assumes "distinct (map mpi_req (g_outstanding_requests st))" "Q = requests_of st (set rs)" "finishable_all P st Q"
    "delivered P st Q msg m"
  shows "\<exists>st' k. (\<forall>j \<ge> k. free_requests P j rs (st\<lparr>memory := m\<rparr>) = Some st') \<and>
    g_outstanding_requests st' = filter (\<lambda>q. q \<notin> Q) (g_outstanding_requests st) \<and>
    (\<forall>q \<in> Q. receives q \<longrightarrow> bytes_of (memory st') (target P st q) = map Some (msg q))"
proof -
  let ?st = "st\<lparr>memory := m\<rparr>"
  have sm: "same_types st ?st" by (simp add: same_types_def)
  have one: "finishable P ?st q \<and> target P ?st q = target P st q \<and> own_buffer P ?st q = own_buffer P st q \<and> footprint P ?st q = footprint P st q"
    if "q \<in> Q" for q
  proof -
    have f: "finishable P st q" using assms(3) that by (simp add: finishable_all_def)
    have "m x \<noteq> None \<longleftrightarrow> memory st x \<noteq> None" for x using assms(4) unfolding delivered_def by metis
    then have "finishable P ?st q \<and> own_buffer P ?st q = own_buffer P st q"
      by (intro finishable_kept [OF sm f]) simp_all
    then show ?thesis using same_target [OF sm f] by (simp add: footprint_def)
  qed
  have Q: "requests_of ?st (set rs) = Q" by (simp add: assms(2) requests_of_def)
  have "finishable_all P ?st Q" using assms(3) one by (auto simp: finishable_all_def no_clash_def)
  then obtain st' k where st': "\<forall>j \<ge> k. free_requests P j rs ?st = Some st'"
    "g_outstanding_requests st' = filter (\<lambda>q. mpi_req q \<notin> set rs) (g_outstanding_requests st)"
    "\<forall>q \<in> Q. receives q \<longrightarrow> bytes_of (memory st') (target P ?st q) = received P ?st q"
    using free_all [of ?st P rs] assms(1) unfolding Q by auto
  have "filter (\<lambda>q. mpi_req q \<notin> set rs) (g_outstanding_requests st) = filter (\<lambda>q. q \<notin> Q) (g_outstanding_requests st)"
    by (rule filter_cong) (auto simp: assms(2) requests_of_def)
  moreover have "received P ?st q = map Some (msg q)" if "q \<in> Q" "receives q" for q
    using assms(4) one [OF that(1)] that by (simp add: received_def delivered_def)
  ultimately show ?thesis using st' one by (metis (no_types, lifting))
qed

lemma set_requests_at: "i < length vs \<Longrightarrow> set_requests a vs f (a + i) = vs ! i"
proof -
  have "fold (\<lambda>i g. g(a + i := vs ! i)) [0..<n] f (a + i) = (if i < n then vs ! i else f (a + i))" for n
    by (induction n) auto
  then show "i < length vs \<Longrightarrow> ?thesis" by (simp add: set_requests_def)
qed

text \<open>
  C11: MPI\_Waitall on requests that do not interfere returns: every receive has its message in
  the user's data, in the order of the type map, its requests are finished and the other
  requests are as before.
\<close>

theorem MPI_Waitall_receives:
  assumes "distinct (map mpi_req (g_outstanding_requests (tables_of w)))"
    and "Q = requests_of (tables_of w) {a + i | i. i < nat count \<and> request_var w (a + i) \<noteq> MPI_REQUEST_NULL P}"
    and "finishable_all P (tables_of w) Q"
    and "PMPI_Waitall N (map (\<lambda>i. request_var w (a + i)) [0..<nat count]) (net w) (memory (tables_of w)) = (ret, m, n')"
    and "delivered P (tables_of w) Q msg m"
  shows "\<exists>w' k. (\<forall>j \<ge> k. MPI_Waitall P N j count a w = Some (ret, w')) \<and>
    (\<forall>q \<in> Q. receives q \<longrightarrow> bytes_of (memory (tables_of w')) (target P (tables_of w) q) = map Some (msg q)) \<and>
    g_outstanding_requests (tables_of w') = filter (\<lambda>q. q \<notin> Q) (g_outstanding_requests (tables_of w)) \<and>
    (\<forall>i < nat count. request_var w' (a + i) = MPI_REQUEST_NULL P)"
proof -
  let ?rs = "map (\<lambda>i. a + i) (filter (\<lambda>i. request_var w (a + i) \<noteq> MPI_REQUEST_NULL P) [0..<nat count])"
  have "set ?rs = {a + i | i. i < nat count \<and> request_var w (a + i) \<noteq> MPI_REQUEST_NULL P}" by auto
  then have "Q = requests_of (tables_of w) (set ?rs)" by (simp only: assms(2))
  from free_delivered [OF assms(1) this assms(3,5)] obtain st' k where
    st': "\<forall>j \<ge> k. free_requests P j ?rs ((tables_of w)\<lparr>memory := m\<rparr>) = Some st'"
    "g_outstanding_requests st' = filter (\<lambda>q. q \<notin> Q) (g_outstanding_requests (tables_of w))"
    "\<forall>q \<in> Q. receives q \<longrightarrow> bytes_of (memory st') (target P (tables_of w) q) = map Some (msg q)" by blast
  let ?v = "set_requests a (replicate (nat count) (MPI_REQUEST_NULL P)) (request_var w)"
  have rs: "map (\<lambda>i. a + i) (filter (\<lambda>i. map (\<lambda>i. request_var w (a + i)) [0..<nat count] ! i \<noteq> MPI_REQUEST_NULL P) [0..<nat count]) = ?rs"
    by (intro arg_cong [where f = "map (\<lambda>i. a + i)"] filter_cong) auto
  have "\<forall>j \<ge> k. MPI_Waitall P N j count a w = Some (ret, w\<lparr>tables_of := st', net := n', request_var := ?v\<rparr>)"
    unfolding MPI_Waitall_def Let_def assms(4) prod.case rs using st'(1) by simp
  moreover have "\<forall>i < nat count. ?v (a + i) = MPI_REQUEST_NULL P" by (simp add: set_requests_at)
  ultimately show ?thesis using st'(2,3)
    by (intro exI [of _ "w\<lparr>tables_of := st', net := n', request_var := ?v\<rparr>"] exI [of _ k]) simp
qed

text \<open>Two receives in the background, and a send that is not waited for.\<close>

definition ex_recv :: "nat \<Rightarrow> i64 \<Rightarrow> i64 \<Rightarrow> request" where
  "ex_recv r b usr = \<lparr>mpi_req = r, tmpbuf = Some b, usrbuf = Some usr, req_count = 1, req_datatype = 7\<rparr>"

definition ex_send :: request where
  "ex_send = \<lparr>mpi_req = 2000, tmpbuf = Some 4294967328, usrbuf = None, req_count = 0, req_datatype = 0\<rparr>"

definition ex_pending :: "(byte list list \<times> i64) process" where
  "ex_pending = (ex_process [])\<lparr>tables_of := (tables_of (ex_process []))\<lparr>
       g_outstanding_requests := [ex_recv 1000 4294967296 0, ex_send, ex_recv 1001 4294967312 32],
       malloced := [4294967296 \<mapsto> 8, 4294967312 \<mapsto> 8, 4294967328 \<mapsto> 8]\<rparr>, request_var := (\<lambda>r. int r)\<rparr>"

definition ex_delivery :: "request \<Rightarrow> byte list" where
  "ex_delivery q = (if mpi_req q = 1000 then [9, 8, 7, 6, 5, 4, 3, 2] else [1, 3, 5, 7, 11, 13, 17, 19])"

definition ex_delivers :: "mem \<Rightarrow> mem" where
  "ex_delivers m = m(run_at 4294967296 8 [\<mapsto>] [9, 8, 7, 6, 5, 4, 3, 2], run_at 4294967312 8 [\<mapsto>] [1, 3, 5, 7, 11, 13, 17, 19])"

lemma ex_recv_fields: "mpi_req (ex_recv r b usr) = r" "tmpbuf (ex_recv r b usr) = Some b" "usrbuf (ex_recv r b usr) = Some usr"
  "req_count (ex_recv r b usr) = 1" "req_datatype (ex_recv r b usr) = 7"
  by (simp_all add: ex_recv_def)

lemma ex_recv_parts:
  "receives (ex_recv r b usr)" "target ex_platform (tables_of ex_pending) (ex_recv r b usr) = data_at usr [0, 1, 2, 3, 8, 9, 10, 11]"
  "own_buffer ex_platform (tables_of ex_pending) (ex_recv r b usr) = run_at b 8"
  "ready_handle False ex_platform (tables_of ex_pending) 7 1 5"
proof -
  have sm: "same_types (tables_of (ex_process [])) (tables_of ex_pending)" by (simp add: same_types_def ex_pending_def)
  show r: "ready_handle False ex_platform (tables_of ex_pending) 7 1 5" by (rule same_types_ready [OF sm ex_ready])
  show rc: "receives (ex_recv r b usr)" by (simp add: receives_def ex_recv_def is_recv_def)
  have "user_layout (tables_of ex_pending) 5 1 = user_layout (tables_of (ex_process [])) 5 1"
    using sm by (simp add: object_layout_def deref_def same_types_def)
  then have l: "object_layout (Some 5, tables_of ex_pending) (nat 1) = [0, 1, 2, 3, 8, 9, 10, 11]" by (simp only: ex_user_layout)
  then show t: "target ex_platform (tables_of ex_pending) (ex_recv r b usr) = data_at usr [0, 1, 2, 3, 8, 9, 10, 11]"
    using rc r by (simp add: target_def ready_handle_def ex_recv_fields)
  show "own_buffer ex_platform (tables_of ex_pending) (ex_recv r b usr) = run_at b 8"
    using rc by (simp add: own_buffer_def ex_recv_fields t eval_nat_numeral)
qed

lemma ex_pending_set: "set (g_outstanding_requests (tables_of ex_pending)) = {ex_recv 1000 4294967296 0, ex_send, ex_recv 1001 4294967312 32}"
  "distinct (map mpi_req (g_outstanding_requests (tables_of ex_pending)))" "memory (tables_of ex_pending) = msg_mem"
  "malloced (tables_of ex_pending) = [4294967296 \<mapsto> 8, 4294967312 \<mapsto> 8, 4294967328 \<mapsto> 8]"
  "request_var ex_pending = (\<lambda>r. int r)" "scratch ex_platform = 4294967296"
  by (simp_all add: ex_pending_def ex_recv_def ex_send_def ex_memory ex_platform_def)

lemma ex_finishable: "finishable_all ex_platform (tables_of ex_pending) {ex_recv 1000 4294967296 0, ex_recv 1001 4294967312 32}"
proof -
  let ?D = "[0, 1, 2, 3, 8, 9, 10, 11] :: int list"
  have "list_all (\<lambda>x. msg_mem x \<noteq> None) (data_at 0 ?D)" "list_all (\<lambda>x. msg_mem x \<noteq> None) (data_at 32 ?D)"
    "list_all (\<lambda>x. msg_mem x \<noteq> None \<and> x \<notin> set (data_at 0 ?D)) (run_at 4294967296 8)"
    "list_all (\<lambda>x. msg_mem x \<noteq> None \<and> x \<notin> set (data_at 32 ?D)) (run_at 4294967312 8)"
    "distinct (data_at 0 ?D)" "distinct (data_at 32 ?D)" by code_simp+
  then have "finishable ex_platform (tables_of ex_pending) (ex_recv 1000 4294967296 0)"
    "finishable ex_platform (tables_of ex_pending) (ex_recv 1001 4294967312 32)"
    using ex_recv_parts(4) by (auto simp: finishable_def ex_recv_parts(2,3) ex_recv_fields ex_pending_set(3,4,6))
  moreover have "no_clash ex_platform (tables_of ex_pending) (ex_recv 1000 4294967296 0) (ex_recv 1001 4294967312 32)"
    "no_clash ex_platform (tables_of ex_pending) (ex_recv 1001 4294967312 32) (ex_recv 1000 4294967296 0)"
    unfolding no_clash_def footprint_def ex_recv_parts ex_recv_fields by code_simp+
  ultimately show ?thesis by (auto simp: finishable_all_def)
qed

lemma ex_delivered:
  assumes "Q \<subseteq> {ex_recv 1000 4294967296 0, ex_recv 1001 4294967312 32}"
  shows "delivered ex_platform (tables_of ex_pending) Q ex_delivery (ex_delivers msg_mem)"
proof -
  have "set (run_at 4294967296 8) \<union> set (run_at 4294967312 8) \<subseteq> dom msg_mem"
    unfolding subset_eq by code_simp
  moreover have "dom (ex_delivers msg_mem) = set (run_at 4294967296 8) \<union> set (run_at 4294967312 8) \<union> dom msg_mem"
    by (auto simp: ex_delivers_def)
  ultimately have "dom (ex_delivers msg_mem) = dom msg_mem" by blast
  then have "ex_delivers msg_mem x = None \<longleftrightarrow> msg_mem x = None" for x by blast
  moreover have "bytes_of (ex_delivers msg_mem) (run_at 4294967296 8) = map Some [9, 8, 7, 6, 5, 4, 3, 2]"
    "bytes_of (ex_delivers msg_mem) (run_at 4294967312 8) = map Some [1, 3, 5, 7, 11, 13, 17, 19]" by code_simp+
  ultimately show ?thesis using assms
    by (auto simp: delivered_def ex_pending_set(3) ex_recv_parts ex_recv_fields ex_delivery_def)
qed

theorem MPI_Waitall_receives_witness:
  "\<exists>w' k. MPI_Waitall ex_platform (ex_net\<lparr>PMPI_Waitall := \<lambda>_ n m. (0, ex_delivers m, n)\<rparr>) k 2 1000 ex_pending = Some (0, w') \<and>
     bytes_of (memory (tables_of w')) (data_at 0 [0, 1, 2, 3, 8, 9, 10, 11]) = map Some [9, 8, 7, 6, 5, 4, 3, 2] \<and>
     bytes_of (memory (tables_of w')) (data_at 32 [0, 1, 2, 3, 8, 9, 10, 11]) = map Some [1, 3, 5, 7, 11, 13, 17, 19] \<and>
     map mpi_req (g_outstanding_requests (tables_of w')) = [2000]"
proof -
  let ?Q = "{ex_recv 1000 4294967296 0, ex_recv 1001 4294967312 32}"
  have "{1000 + i | i. i < nat 2 \<and> request_var ex_pending (1000 + i) \<noteq> MPI_REQUEST_NULL ex_platform} = {1000, 1001}"
    by (auto simp: ex_pending_set(5) ex_platform_def less_2_cases_iff numeral_2_eq_2 less_Suc_eq)
  moreover have "requests_of (tables_of ex_pending) {1000, 1001} = ?Q"
    unfolding requests_of_def ex_pending_set(1) by (auto simp: ex_recv_fields ex_send_def)
  ultimately have Q: "?Q = requests_of (tables_of ex_pending)
      {1000 + i | i. i < nat 2 \<and> request_var ex_pending (1000 + i) \<noteq> MPI_REQUEST_NULL ex_platform}" by simp
  obtain w' k where w: "\<forall>j \<ge> k. MPI_Waitall ex_platform (ex_net\<lparr>PMPI_Waitall := \<lambda>_ n m. (0, ex_delivers m, n)\<rparr>) j 2 1000 ex_pending = Some (0, w')"
    "\<forall>q \<in> ?Q. receives q \<longrightarrow> bytes_of (memory (tables_of w')) (target ex_platform (tables_of ex_pending) q) = map Some (ex_delivery q)"
    "g_outstanding_requests (tables_of w') = filter (\<lambda>q. q \<notin> ?Q) (g_outstanding_requests (tables_of ex_pending))"
    using MPI_Waitall_receives [OF ex_pending_set(2) Q ex_finishable _ ex_delivered [OF order.refl],
        where N = "ex_net\<lparr>PMPI_Waitall := \<lambda>_ n m. (0, ex_delivers m, n)\<rparr>" and ret = 0 and n' = "net ex_pending"]
    by (auto simp: ex_pending_set(3))
  moreover have "map mpi_req (g_outstanding_requests (tables_of w')) = [2000]"
    unfolding w(3) by (simp add: ex_pending_def ex_recv_def ex_send_def)
  moreover have "bytes_of (memory (tables_of w')) (data_at 0 [0, 1, 2, 3, 8, 9, 10, 11]) = map Some [9, 8, 7, 6, 5, 4, 3, 2]"
    "bytes_of (memory (tables_of w')) (data_at 32 [0, 1, 2, 3, 8, 9, 10, 11]) = map Some [1, 3, 5, 7, 11, 13, 17, 19]"
    using w(2) by (simp_all add: ex_recv_parts ex_recv_fields ex_delivery_def)
  ultimately show ?thesis by (intro exI [of _ w'] exI [of _ k]) simp
qed

text \<open>The requests the library below has set to null are finished, whichever these are.\<close>

lemma testall_completed:
  assumes "distinct (map mpi_req (g_outstanding_requests (tables_of w)))"
    and "PMPI_Testall N (map (\<lambda>i. request_var w (a + i)) [0..<nat count]) (net w) (memory (tables_of w)) = (ret, flag, rs, m, n')"
    and "length rs = nat count"
    and "Q = requests_of (tables_of w) {a + i | i. i < nat count \<and> request_var w (a + i) \<noteq> MPI_REQUEST_NULL P \<and> rs ! i = MPI_REQUEST_NULL P}"
    and "finishable_all P (tables_of w) Q" "delivered P (tables_of w) Q msg m"
  shows "\<exists>w' k. (\<forall>j \<ge> k. MPI_Testall P N j count a w = Some (ret, flag, w')) \<and>
    (\<forall>q \<in> Q. receives q \<longrightarrow> bytes_of (memory (tables_of w')) (target P (tables_of w) q) = map Some (msg q)) \<and>
    g_outstanding_requests (tables_of w') = filter (\<lambda>q. q \<notin> Q) (g_outstanding_requests (tables_of w)) \<and>
    (\<forall>i < nat count. request_var w' (a + i) = rs ! i)"
proof -
  let ?v = "set_requests a rs (request_var w)"
  have v: "\<forall>i < nat count. ?v (a + i) = rs ! i" using assms(3) by (simp add: set_requests_at)
  let ?rs = "map (\<lambda>i. a + i) (filter (\<lambda>i. request_var w (a + i) \<noteq> MPI_REQUEST_NULL P \<and> rs ! i = MPI_REQUEST_NULL P) [0..<nat count])"
  have "set ?rs = {a + i | i. i < nat count \<and> request_var w (a + i) \<noteq> MPI_REQUEST_NULL P \<and> rs ! i = MPI_REQUEST_NULL P}" by auto
  then have "Q = requests_of (tables_of w) (set ?rs)" by (simp only: assms(4))
  from free_delivered [OF assms(1) this assms(5,6)] obtain st' k where
    st': "\<forall>j \<ge> k. free_requests P j ?rs ((tables_of w)\<lparr>memory := m\<rparr>) = Some st'"
    "g_outstanding_requests st' = filter (\<lambda>q. q \<notin> Q) (g_outstanding_requests (tables_of w))"
    "\<forall>q \<in> Q. receives q \<longrightarrow> bytes_of (memory st') (target P (tables_of w) q) = map Some (msg q)" by blast
  have rs: "map (\<lambda>i. a + i) (filter (\<lambda>i. map (\<lambda>i. request_var w (a + i)) [0..<nat count] ! i \<noteq> MPI_REQUEST_NULL P \<and>
      ?v (a + i) = MPI_REQUEST_NULL P) [0..<nat count]) = ?rs"
    using v by (intro arg_cong [where f = "map (\<lambda>i. a + i)"] filter_cong) auto
  have t: "take (nat count) rs = rs" using assms(3) by simp
  have "\<forall>j \<ge> k. MPI_Testall P N j count a w = Some (ret, flag, w\<lparr>tables_of := st', net := n', request_var := ?v\<rparr>)"
    unfolding MPI_Testall_def Let_def assms(2) prod.case t rs using st'(1) by simp
  then show ?thesis using st'(2,3) v
    by (intro exI [of _ "w\<lparr>tables_of := st', net := n', request_var := ?v\<rparr>"] exI [of _ k]) simp
qed

text \<open>When nothing is complete the requests keep their values, and the interposer does nothing.\<close>

lemma set_requests_same: "set_requests a (map (\<lambda>i. f (a + i)) [0..<n]) f = f"
proof -
  have "fold (\<lambda>i g. g(a + i := map (\<lambda>i. f (a + i)) [0..<n] ! i)) [0..<k] f = f" if "k \<le> n" for k
    using that by (induction k) (simp_all add: fun_eq_iff)
  from this [of n] show ?thesis by (simp add: set_requests_def)
qed

lemma testall_incomplete:
  assumes "rs = map (\<lambda>i. request_var w (a + i)) [0..<nat count]" "PMPI_Testall N rs (net w) (memory (tables_of w)) = (ret, False, rs, m, n')"
  shows "MPI_Testall P N j count a w = Some (ret, False, w\<lparr>tables_of := (tables_of w)\<lparr>memory := m\<rparr>, net := n'\<rparr>)"
proof -
  have t: "take (nat count) rs = map (\<lambda>i. request_var w (a + i)) [0..<nat count]" by (simp add: assms(1))
  have none: "filter (\<lambda>i. map (\<lambda>i. request_var w (a + i)) [0..<nat count] ! i \<noteq> MPI_REQUEST_NULL P \<and>
      request_var w (a + i) = MPI_REQUEST_NULL P) [0..<nat count] = []" by (simp add: filter_empty_conv)
  show ?thesis
    unfolding MPI_Testall_def Let_def assms(1) [symmetric] assms(2) prod.case
    by (simp add: t [unfolded assms(1)] assms(1) set_requests_same none del: upt_Suc)
qed

text \<open>
  C18: MPI\_Testall is all or none, as the MPI standard has it.  The library below keeps to
  the standard: it sets every request to null when all have completed, and none otherwise.
  When all have completed every receive has its message in the user's data, in the order of
  the type map, its requests leave the table and the other requests stay; otherwise the
  interposer touches neither the memory nor its tables, and every request can still be waited for.
\<close>

theorem MPI_Testall_all_or_none:
  assumes "distinct (map mpi_req (g_outstanding_requests (tables_of w)))"
    and olds: "olds = map (\<lambda>i. request_var w (a + i)) [0..<nat count]"
    and "PMPI_Testall N olds (net w) (memory (tables_of w)) =
      (ret, flag, if flag then replicate (nat count) (MPI_REQUEST_NULL P) else olds, m, n')"
    and "Q = requests_of (tables_of w) {a + i | i. i < nat count \<and> request_var w (a + i) \<noteq> MPI_REQUEST_NULL P}"
    and "flag \<longrightarrow> finishable_all P (tables_of w) Q \<and> delivered P (tables_of w) Q msg m"
  shows "\<exists>w' k. (\<forall>j \<ge> k. MPI_Testall P N j count a w = Some (ret, flag, w')) \<and>
    (if flag
     then (\<forall>q \<in> Q. receives q \<longrightarrow> bytes_of (memory (tables_of w')) (target P (tables_of w) q) = map Some (msg q)) \<and>
       g_outstanding_requests (tables_of w') = filter (\<lambda>q. q \<notin> Q) (g_outstanding_requests (tables_of w)) \<and>
       (\<forall>i < nat count. request_var w' (a + i) = MPI_REQUEST_NULL P)
     else tables_of w' = (tables_of w)\<lparr>memory := m\<rparr> \<and> request_var w' = request_var w)"
proof (cases flag)
  case True
  let ?rs = "replicate (nat count) (MPI_REQUEST_NULL P)"
  have "{a + i | i. i < nat count \<and> request_var w (a + i) \<noteq> MPI_REQUEST_NULL P} =
      {a + i | i. i < nat count \<and> request_var w (a + i) \<noteq> MPI_REQUEST_NULL P \<and> ?rs ! i = MPI_REQUEST_NULL P}" by auto
  then have Q: "Q = requests_of (tables_of w)
      {a + i | i. i < nat count \<and> request_var w (a + i) \<noteq> MPI_REQUEST_NULL P \<and> ?rs ! i = MPI_REQUEST_NULL P}"
    by (simp only: assms(4))
  have p: "PMPI_Testall N (map (\<lambda>i. request_var w (a + i)) [0..<nat count]) (net w) (memory (tables_of w)) = (ret, True, ?rs, m, n')"
    using assms(3) True olds by simp
  show ?thesis
    using testall_completed [OF assms(1) p _ Q] assms(5) True by auto
next
  case False
  then show ?thesis using testall_incomplete [OF olds] assms(3) by auto
qed

lemma ex_requests: "{ex_recv 1000 4294967296 0, ex_recv 1001 4294967312 32} = requests_of (tables_of ex_pending)
    {1000 + i | i. i < nat 2 \<and> request_var ex_pending (1000 + i) \<noteq> MPI_REQUEST_NULL ex_platform}"
proof -
  have "{1000 + i | i. i < nat 2 \<and> request_var ex_pending (1000 + i) \<noteq> MPI_REQUEST_NULL ex_platform} = {1000, 1001}"
    by (auto simp: ex_pending_set(5) ex_platform_def less_2_cases_iff numeral_2_eq_2 less_Suc_eq)
  moreover have "requests_of (tables_of ex_pending) {1000, 1001} = {ex_recv 1000 4294967296 0, ex_recv 1001 4294967312 32}"
    unfolding requests_of_def ex_pending_set(1) by (auto simp: ex_recv_fields ex_send_def)
  ultimately show ?thesis by simp
qed

text \<open>A library that completes both receives, and one that has received neither.\<close>

definition ex_testall :: "bool \<Rightarrow> (byte list list \<times> i64) pmpi" where
  "ex_testall flag = ex_net\<lparr>PMPI_Testall := \<lambda>rs n m. (0, flag, if flag then replicate 2 738197504 else rs,
     if flag then ex_delivers m else m, n)\<rparr>"

theorem MPI_Testall_all_or_none_witness:
  "(\<exists>w' k. MPI_Testall ex_platform (ex_testall True) k 2 1000 ex_pending = Some (0, True, w') \<and>
     bytes_of (memory (tables_of w')) (data_at 0 [0, 1, 2, 3, 8, 9, 10, 11]) = map Some [9, 8, 7, 6, 5, 4, 3, 2] \<and>
     bytes_of (memory (tables_of w')) (data_at 32 [0, 1, 2, 3, 8, 9, 10, 11]) = map Some [1, 3, 5, 7, 11, 13, 17, 19] \<and>
     map mpi_req (g_outstanding_requests (tables_of w')) = [2000]) \<and>
   (\<exists>w' k. MPI_Testall ex_platform (ex_testall False) k 2 1000 ex_pending = Some (0, False, w') \<and>
     map mpi_req (g_outstanding_requests (tables_of w')) = [1000, 2000, 1001] \<and> request_var w' 1001 = 1001)"
proof
  let ?Q = "{ex_recv 1000 4294967296 0, ex_recv 1001 4294967312 32}"
  have null: "MPI_REQUEST_NULL ex_platform = 738197504" by (simp add: ex_platform_def)
  have p: "PMPI_Testall (ex_testall f) olds (net ex_pending) (memory (tables_of ex_pending)) =
      (0, f, if f then replicate (nat 2) (MPI_REQUEST_NULL ex_platform) else olds, if f then ex_delivers msg_mem else msg_mem, net ex_pending)"
    for f olds by (simp add: ex_testall_def null ex_pending_set(3))
  note both = MPI_Testall_all_or_none [OF ex_pending_set(2) refl p ex_requests, where msg = ex_delivery]
  obtain w' k where w: "\<forall>j \<ge> k. MPI_Testall ex_platform (ex_testall True) j 2 1000 ex_pending = Some (0, True, w')"
    "\<forall>q \<in> ?Q. receives q \<longrightarrow> bytes_of (memory (tables_of w')) (target ex_platform (tables_of ex_pending) q) = map Some (ex_delivery q)"
    "g_outstanding_requests (tables_of w') = filter (\<lambda>q. q \<notin> ?Q) (g_outstanding_requests (tables_of ex_pending))"
    using both [of True] ex_finishable ex_delivered [OF order.refl] by (simp only: if_True simp_thms) blast
  have "map mpi_req (g_outstanding_requests (tables_of w')) = [2000]"
    unfolding w(3) by (simp add: ex_pending_def ex_recv_def ex_send_def)
  moreover have "bytes_of (memory (tables_of w')) (data_at 0 [0, 1, 2, 3, 8, 9, 10, 11]) = map Some [9, 8, 7, 6, 5, 4, 3, 2]"
    "bytes_of (memory (tables_of w')) (data_at 32 [0, 1, 2, 3, 8, 9, 10, 11]) = map Some [1, 3, 5, 7, 11, 13, 17, 19]"
    using w(2) by (simp_all add: ex_recv_parts ex_recv_fields ex_delivery_def)
  ultimately show "\<exists>w' k. MPI_Testall ex_platform (ex_testall True) k 2 1000 ex_pending = Some (0, True, w') \<and>
     bytes_of (memory (tables_of w')) (data_at 0 [0, 1, 2, 3, 8, 9, 10, 11]) = map Some [9, 8, 7, 6, 5, 4, 3, 2] \<and>
     bytes_of (memory (tables_of w')) (data_at 32 [0, 1, 2, 3, 8, 9, 10, 11]) = map Some [1, 3, 5, 7, 11, 13, 17, 19] \<and>
     map mpi_req (g_outstanding_requests (tables_of w')) = [2000]"
    using w(1) by (intro exI [of _ w'] exI [of _ k]) simp
  obtain w2 k2 where w2: "\<forall>j \<ge> k2. MPI_Testall ex_platform (ex_testall False) j 2 1000 ex_pending = Some (0, False, w2)"
    "tables_of w2 = (tables_of ex_pending)\<lparr>memory := msg_mem\<rparr>" "request_var w2 = request_var ex_pending"
    using both [of False] by (simp only: if_False simp_thms) blast
  then show "\<exists>w' k. MPI_Testall ex_platform (ex_testall False) k 2 1000 ex_pending = Some (0, False, w') \<and>
     map mpi_req (g_outstanding_requests (tables_of w')) = [1000, 2000, 1001] \<and> request_var w' 1001 = 1001"
    by (intro exI [of _ w2] exI [of _ k2]) (simp add: ex_pending_def ex_recv_def ex_send_def)
qed

section \<open>A test before the message is there\<close>

text \<open>
  C29: MPI\_Test on a receive that has not completed finishes the request all the same: it
  unpacks whatever the buffer has by then into the user's data and forgets the request, while
  the library below still has the operation.  A later MPI\_Wait returns without unpacking: the
  user's data stay what they were at the test, whatever message has arrived.
\<close>

theorem MPI_Test_forgets_request:
  assumes "distinct (map mpi_req (g_outstanding_requests (tables_of w)))" "request_var w r \<noteq> MPI_REQUEST_NULL P"
    and "find (\<lambda>q. mpi_req q = r) (g_outstanding_requests (tables_of w)) = Some q" "receives q" "finishable P (tables_of w) q"
    and "PMPI_Test N (request_var w r) (net w) (memory (tables_of w)) = (ret, False, m, n')" "\<forall>x. m x = None \<longleftrightarrow> memory (tables_of w) x = None"
    and "\<forall>m. bytes_of (fst (snd (PMPI_Wait N (request_var w r) n' m))) (target P (tables_of w) q) = bytes_of m (target P (tables_of w) q)"
  shows "\<exists>w1 w2 k. (\<forall>j \<ge> k. MPI_Test P N j r w = Some (ret, False, w1)) \<and>
    request_var w1 r = request_var w r \<and> r \<notin> mpi_req ` set (g_outstanding_requests (tables_of w1)) \<and>
    (\<forall>j. MPI_Wait P N j r w1 = Some (fst (PMPI_Wait N (request_var w r) n' (memory (tables_of w1))), w2)) \<and>
    memory (tables_of w2) = fst (snd (PMPI_Wait N (request_var w r) n' (memory (tables_of w1)))) \<and>
    bytes_of (memory (tables_of w2)) (target P (tables_of w) q) = bytes_of m (own_buffer P (tables_of w) q)"
proof -
  let ?st = "(tables_of w)\<lparr>memory := m\<rparr>" and ?O = "g_outstanding_requests (tables_of w)"
  have sm: "same_types (tables_of w) ?st" by (simp add: same_types_def)
  have dom: "m x \<noteq> None \<longleftrightarrow> memory (tables_of w) x \<noteq> None" for x using assms(7) by metis
  then have f: "finishable P ?st q" "own_buffer P ?st q = own_buffer P (tables_of w) q"
    using finishable_kept [OF sm assms(5)] by simp_all
  have t: "target P ?st q = target P (tables_of w) q" by (rule same_target [OF sm assms(5)])
  obtain s mm m1 k where one: "\<forall>j \<ge> k. finish_request P j q ?st = Some (buffered ?st s mm m1)"
    "bytes_of m1 (target P (tables_of w) q) = received P ?st q" using finish_one [OF f(1)] assms(4) t by auto
  define w1 where "w1 = w\<lparr>tables_of := (buffered ?st s mm m1)\<lparr>g_outstanding_requests := remove_first r ?O\<rparr>, net := n'\<rparr>"
  have test: "\<forall>j \<ge> k. MPI_Test P N j r w = Some (ret, False, w1)"
    using assms(2,3,6) one(1) by (simp add: MPI_Test_def interposer_request_free_def w1_def)
  have gone: "r \<notin> mpi_req ` set (g_outstanding_requests (tables_of w1))"
    using remove_first_unique [OF assms(1)] by (simp add: w1_def)
  have w1: "request_var w1 = request_var w" "net w1 = n'" "memory (tables_of w1) = m1" by (simp_all add: w1_def)
  obtain ret' m2 n2 where p: "PMPI_Wait N (request_var w r) n' m1 = (ret', m2, n2)" by (metis prod_cases3)
  define w2 where "w2 = w1\<lparr>tables_of := (tables_of w1)\<lparr>memory := m2\<rparr>, net := n2,
    request_var := (request_var w)(r := MPI_REQUEST_NULL P)\<rparr>"
  have wait: "\<forall>j. MPI_Wait P N j r w1 = Some (ret', w2)"
    using p assms(2) find_none [OF gone] w1 by (simp add: MPI_Wait_def interposer_request_free_def w2_def)
  have "bytes_of m2 (target P (tables_of w) q) = bytes_of m1 (target P (tables_of w) q)"
    using assms(8) [rule_format, of m1] p by simp
  also have "\<dots> = bytes_of m (own_buffer P (tables_of w) q)" using one(2) f(2) by (simp add: received_def)
  finally show ?thesis using test wait gone w1 p
    by (intro exI [of _ w1] exI [of _ w2] exI [of _ k]) (simp add: w2_def)
qed

text \<open>The message arrives in the buffer after the test: the user's data are the zeros it had before.\<close>

definition ex_tested :: "(byte list list \<times> i64) process" where
  "ex_tested = ex_pending\<lparr>net := ([[9, 8, 7, 6, 5, 4, 3, 2]], 4294967296)\<rparr>"

theorem MPI_Test_forgets_request_witness:
  "\<exists>w1 w2 k. MPI_Test ex_platform ex_net k 1000 ex_tested = Some (0, False, w1) \<and> MPI_Wait ex_platform ex_net k 1000 w1 = Some (0, w2) \<and>
     bytes_of (memory (tables_of w2)) (run_at 4294967296 8) = map Some [9, 8, 7, 6, 5, 4, 3, 2] \<and>
     bytes_of (memory (tables_of w2)) (data_at 0 [0, 1, 2, 3, 8, 9, 10, 11]) = replicate 8 (Some 0)"
proof -
  let ?q = "ex_recv 1000 4294967296 0" and ?r = 1000
  have tw: "tables_of ex_tested = tables_of ex_pending" "request_var ex_tested = request_var ex_pending" by (simp_all add: ex_tested_def)
  have q: "find (\<lambda>q. mpi_req q = 1000) (g_outstanding_requests (tables_of ex_tested)) = Some ?q" "receives ?q"
    "finishable ex_platform (tables_of ex_tested) ?q" "request_var ex_tested 1000 \<noteq> MPI_REQUEST_NULL ex_platform"
    using ex_finishable by (simp_all add: tw finishable_all_def ex_recv_parts ex_pending_set(5))
      (simp_all add: ex_pending_def ex_recv_def ex_platform_def)
  have d: "distinct (map mpi_req (g_outstanding_requests (tables_of ex_tested)))" using ex_pending_set(2) by (simp add: tw)
  have p: "PMPI_Test ex_net (request_var ex_tested 1000) (net ex_tested) (memory (tables_of ex_tested)) =
      (0, False, msg_mem, ([[9, 8, 7, 6, 5, 4, 3, 2]], 4294967296))" by (simp add: ex_net_def ex_tested_def ex_pending_set(3))
  have wt: "PMPI_Wait ex_net v ([[9, 8, 7, 6, 5, 4, 3, 2]], 4294967296) m =
      (0, m(run_at 4294967296 8 [\<mapsto>] [9, 8, 7, 6, 5, 4, 3, 2]), ([], 4294967296))" for v m by (simp add: ex_net_def eval_nat_numeral)
  have t: "target ex_platform (tables_of ex_tested) ?q = data_at 0 [0, 1, 2, 3, 8, 9, 10, 11]"
    "own_buffer ex_platform (tables_of ex_tested) ?q = run_at 4294967296 8" by (simp_all add: tw ex_recv_parts)
  have off: "set (data_at 0 [0, 1, 2, 3, 8, 9, 10, 11]) \<inter> set (run_at 4294967296 8) = {}" by code_simp
  have keep: "\<forall>m. bytes_of (fst (snd (PMPI_Wait ex_net (request_var ex_tested 1000) ([[9, 8, 7, 6, 5, 4, 3, 2]], 4294967296) m)))
      (target ex_platform (tables_of ex_tested) ?q) = bytes_of m (target ex_platform (tables_of ex_tested) ?q)"
    unfolding t wt using off by (auto simp: bytes_of_def disjoint_iff map_upds_apply_nontin)
  have zeros: "bytes_of msg_mem (run_at 4294967296 8) = replicate 8 (Some 0)" by code_simp
  have new: "bytes_of (m(run_at 4294967296 8 [\<mapsto>] [9, 8, 7, 6, 5, 4, 3, 2])) (run_at 4294967296 8) =
      map Some [9, 8, 7, 6, 5, 4, 3, 2]" for m :: mem by code_simp
  have "\<exists>w1 w2 k. (\<forall>j \<ge> k. MPI_Test ex_platform ex_net j 1000 ex_tested = Some (0, False, w1)) \<and>
    (\<forall>j. MPI_Wait ex_platform ex_net j 1000 w1 = Some (0, w2)) \<and>
    memory (tables_of w2) = (memory (tables_of w1))(run_at 4294967296 8 [\<mapsto>] [9, 8, 7, 6, 5, 4, 3, 2]) \<and>
    bytes_of (memory (tables_of w2)) (data_at 0 [0, 1, 2, 3, 8, 9, 10, 11]) = bytes_of msg_mem (run_at 4294967296 8)"
    using MPI_Test_forgets_request [OF d q(4,1,2,3) p _ keep] unfolding wt t by (simp add: tw ex_pending_set(3)) blast
  then show ?thesis using zeros new by (metis order.refl)
qed

end
