(* ===== verification/Ddt_Text.thy ===== *)
theory Ddt_Text
  imports Datatypes
begin

text \<open>
  The text form of datatypes: \<open>toString\<close> of each class in ddt\_jit.cpp, the lexer
  ddtplayer/lexer.flex and the grammar ddtplayer/parser.ypp.  The parser builds for every
  text the datatypes of this library and, next to each, a datatype of the MPI library
  below, which is left out.  A syntax error is None, and so is a number that does not fit an
  int, for which atoi is not defined.  The counters of the loops are ints, which overflow.
\<close>

section \<open>Numbers\<close>

definition digit_char :: "nat \<Rightarrow> char" where
  "digit_char d = char_of (48 + d)"

definition is_digit :: "char \<Rightarrow> bool" where
  "is_digit c \<longleftrightarrow> 48 \<le> (of_char c :: nat) \<and> (of_char c :: nat) \<le> 57"

fun show_nat :: "nat \<Rightarrow> string" where
  "show_nat n = (if n < 10 then [digit_char n] else show_nat (n div 10) @ [digit_char (n mod 10)])"

declare show_nat.simps [simp del]

definition show_int :: "int \<Rightarrow> string" where
  "show_int i = (if i < 0 then CHR ''-'' # show_nat (nat (- i)) else show_nat (nat i))"

definition digits_value :: "string \<Rightarrow> nat" where
  "digits_value = foldl (\<lambda>a c. a * 10 + (of_char c - 48)) 0"

lemma of_digit_char [simp]: "d < 10 \<Longrightarrow> of_char (digit_char d) = 48 + d"
  by (simp add: digit_char_def)

lemma is_digit_char [simp]: "d < 10 \<Longrightarrow> is_digit (digit_char d)"
  by (simp add: is_digit_def)

lemma show_nat_digits: "list_all is_digit (show_nat n) \<and> show_nat n \<noteq> [] \<and> digits_value (show_nat n) = n"
proof (induction n rule: show_nat.induct)
  case (1 n)
  then show ?case
    by (subst (1 2 3) show_nat.simps) (auto simp: digits_value_def)
qed

lemma takeWhile_digits:
  assumes "list_all is_digit ds" "\<not> is_digit c"
  shows "takeWhile is_digit (ds @ c # cs) = ds" "dropWhile is_digit (ds @ c # cs) = c # cs"
  using assms by (induction ds) auto

section \<open>toString\<close>

fun join :: "string \<Rightarrow> string list \<Rightarrow> string" where
  "join sep [] = []"
| "join sep [x] = x"
| "join sep (x # y # xs) = x @ sep @ join sep (y # xs)"

fun Primitive_toString :: "PrimitiveType \<Rightarrow> string" where
  "Primitive_toString BYTE = ''byte''"
| "Primitive_toString CHARACTER = ''char''"
| "Primitive_toString DOUBLE = ''double''"
| "Primitive_toString FLOAT = ''float''"
| "Primitive_toString INTEGER = ''int''"

definition Contiguous_toString :: "int \<Rightarrow> string \<Rightarrow> string" where
  "Contiguous_toString count basetype = ''ctg('' @ show_int count @ '')['' @ basetype @ '']''"

definition Vector_toString :: "bool \<Rightarrow> int \<Rightarrow> int \<Rightarrow> int \<Rightarrow> string \<Rightarrow> string" where
  "Vector_toString summary count blocklen stride basetype =
     (let sep = (if summary then '','' else '' '')
      in ''vec('' @ show_int count @ sep @ show_int blocklen @ sep @ show_int stride @ '')['' @ basetype @ '']'')"

definition HVector_toString :: "bool \<Rightarrow> int \<Rightarrow> int \<Rightarrow> int \<Rightarrow> string \<Rightarrow> string" where
  "HVector_toString summary count blocklen stride basetype =
     (let sep = (if summary then '','' else '' '')
      in ''hvec('' @ show_int count @ sep @ show_int blocklen @ sep @ show_int stride @ '')['' @ basetype @ '']'')"

definition IndexedBlock_toString :: "bool \<Rightarrow> int \<Rightarrow> int \<Rightarrow> int list \<Rightarrow> string \<Rightarrow> string" where
  "IndexedBlock_toString summary count blocklen displs basetype =
     (let sep = (if summary then '','' else '' '')
      in (if summary then ''idxb('' @ show_int count @ '','' @ show_int blocklen
          else ''idxb('' @ show_int blocklen @ '':'' @ join sep (map show_int displs)) @
         '')['' @ basetype @ '']'')"

definition HIndexed_toString :: "bool \<Rightarrow> int list \<Rightarrow> int list \<Rightarrow> string \<Rightarrow> string" where
  "HIndexed_toString summary blocklens displs basetype =
     (let sep = (if summary then '';'' else '' '')
      in ''hidx('' @ join sep (map2 (\<lambda>d l. show_int d @ '','' @ show_int l) displs blocklens) @ '')['' @ basetype @ '']'')"

definition Struct_toString :: "bool \<Rightarrow> int \<Rightarrow> int list \<Rightarrow> int list \<Rightarrow> string list \<Rightarrow> string" where
  "Struct_toString summary count blocklens displs basetypes =
     (let sep = (if summary then '';'' else '' '')
      in ''struct('' @ show_int count @ '')'' @
         join sep (map (\<lambda>((d, l), b). ''['' @ show_int d @ '','' @ show_int l @ '']'' @ ''{'' @ b @ ''}'')
           (zip (zip displs blocklens) basetypes)))"

definition Resized_toString :: "dims \<Rightarrow> string \<Rightarrow> string" where
  "Resized_toString d basetype =
     ''resized('' @ show_int (lower_bound d) @ '','' @ show_int (upper_bound d - lower_bound d) @ '')['' @ basetype @ '']''"

fun toString :: "bool \<Rightarrow> ddt \<Rightarrow> string" where
  "toString summary (Primitive d type) = Primitive_toString type"
| "toString summary (Contiguous d count b) = Contiguous_toString count (toString summary b)"
| "toString summary (Vector d count blocklen stride b) =
     Vector_toString summary count blocklen stride (toString summary b)"
| "toString summary (HVector d count blocklen stride b) =
     HVector_toString summary count blocklen stride (toString summary b)"
| "toString summary (IndexedBlock d count blocklen displs b _) =
     IndexedBlock_toString summary count blocklen displs (toString summary b)"
| "toString summary (HIndexed d count blocklens displs b) =
     HIndexed_toString summary blocklens displs (toString summary b)"
| "toString summary (Struct d count blocklens displs bs) =
     Struct_toString summary count blocklens displs (map (toString summary) bs)"
| "toString summary (Resized d b) = Resized_toString d (toString summary b)"

section \<open>The lexer\<close>

datatype token =
  BYTE_TOKEN | CHAR_TOKEN | INT_TOKEN | DOUBLE_TOKEN | FLOAT_TOKEN
| CONTIGUOUS_TOKEN | VECTOR_TOKEN | HVECTOR_TOKEN | HINDEXED_TOKEN | INDEXEDBLOCK_TOKEN | STRUCT_TOKEN | RESIZED_TOKEN
| ELEM | NUM int | Punct char | UNKNOWN

definition keyword_rules :: "(string \<times> token) list" where
  "keyword_rules = [(''byte'', BYTE_TOKEN), (''char'', CHAR_TOKEN), (''int'', INT_TOKEN), (''double'', DOUBLE_TOKEN),
     (''float'', FLOAT_TOKEN), (''ctg'', CONTIGUOUS_TOKEN), (''vec'', VECTOR_TOKEN), (''hvec'', HVECTOR_TOKEN),
     (''hidx'', HINDEXED_TOKEN), (''idxb'', INDEXEDBLOCK_TOKEN), (''struct'', STRUCT_TOKEN), (''resized'', RESIZED_TOKEN)]"

fun strip :: "string \<Rightarrow> string \<Rightarrow> string option" where
  "strip [] s = Some s"
| "strip (c # cs) [] = None"
| "strip (c # cs) (d # ds) = (if c = d then strip cs ds else None)"

fun keyword :: "(string \<times> token) list \<Rightarrow> string \<Rightarrow> (token \<times> string) option" where
  "keyword [] s = None"
| "keyword ((k, t) # ks) s = (case strip k s of Some r \<Rightarrow> Some (t, r) | None \<Rightarrow> keyword ks s)"

lemma strip_length: "strip k s = Some r \<Longrightarrow> length s = length k + length r"
  by (induction k s rule: strip.induct) (auto split: if_splits)

lemma keyword_length: "keyword ks s = Some (t, r) \<Longrightarrow> \<forall>(k, t) \<in> set ks. k \<noteq> [] \<Longrightarrow> length r < length s"
  by (induction ks) (auto split: option.splits dest!: strip_length)

lemma keyword_rules_length: "keyword keyword_rules s = Some (t, r) \<Longrightarrow> length r < length s"
  by (erule keyword_length) (simp add: keyword_rules_def)

text \<open>The longest match wins; no keyword begins with another one.\<close>

function yylex :: "string \<Rightarrow> token list" where
  "yylex [] = []"
| "yylex (c # cs) =
     (case keyword keyword_rules (c # cs) of
        Some (t, r) \<Rightarrow> t # yylex r
      | None \<Rightarrow>
          if is_digit c then NUM (int (digits_value (takeWhile is_digit (c # cs)))) # yylex (dropWhile is_digit cs)
          else if c = CHR ''-'' then
            (case cs of
               d # ds \<Rightarrow> if is_digit d then NUM (- int (digits_value (takeWhile is_digit cs))) # yylex (dropWhile is_digit ds)
                         else ELEM # yylex cs
             | [] \<Rightarrow> ELEM # yylex cs)
          else if c \<in> set ''[]():,;'' then Punct c # yylex cs
          else if c \<in> {CHR '' '', CHR 0x09, CHR 0x0A, CHR 0x0D} then yylex cs
          else if c = CHR ''/'' \<and> take 1 cs = ''/'' then yylex (dropWhile (\<lambda>x. x \<noteq> CHR 0x0A) cs)
          else UNKNOWN # yylex cs)"
  by pat_completeness auto

termination
  by (relation "measure length") (auto simp: less_Suc_eq_le length_dropWhile_le le_SucI dest: keyword_rules_length)

section \<open>Loops over ranges\<close>

text \<open>
  The loops of the actions, \<open>for (int i = start; i <= stop; i += stride)\<close>, collect what their
  bodies make.  A loop that does not end is None.  A counter that leaves the range of an int
  is undefined behaviour, which is an error.
\<close>

record range =
  r_start :: int
  r_stop :: int
  r_stride :: int

datatype c_error = Int_Overflow

definition in_int :: "int \<Rightarrow> bool" where
  "in_int i \<longleftrightarrow> - (2 ^ 31) \<le> i \<and> i < 2 ^ 31"

partial_function (option) for_loop ::
  "(int \<Rightarrow> (c_error + 'a list) option) \<Rightarrow> int \<Rightarrow> int \<Rightarrow> int \<Rightarrow> (c_error + 'a list) option" where
  "for_loop act i limit inc =
     (if i \<le> limit
      then Option.bind (act i) (\<lambda>r. case r of Inl e \<Rightarrow> Some (Inl e) | Inr xs \<Rightarrow>
        if in_int (i + inc)
        then Option.bind (for_loop act (i + inc) limit inc) (\<lambda>r. case r of Inl e \<Rightarrow> Some (Inl e) | Inr ys \<Rightarrow> Some (Inr (xs @ ys)))
        else Some (Inl Int_Overflow))
      else Some (Inr []))"

definition over_range :: "(int \<Rightarrow> (c_error + 'a list) option) \<Rightarrow> range \<Rightarrow> (c_error + 'a list) option" where
  "over_range act r = for_loop act (r_start r) (r_stop r) (r_stride r)"

fun for_each :: "('b \<Rightarrow> (c_error + 'a list) option) \<Rightarrow> 'b list \<Rightarrow> (c_error + 'a list) option" where
  "for_each act [] = Some (Inr [])"
| "for_each act (x # xs) = Option.bind (act x) (\<lambda>r. case r of Inl e \<Rightarrow> Some (Inl e) | Inr as \<Rightarrow>
     Option.bind (for_each act xs) (\<lambda>r. case r of Inl e \<Rightarrow> Some (Inl e) | Inr bs \<Rightarrow> Some (Inr (as @ bs))))"

definition createVecs :: "range \<Rightarrow> range \<Rightarrow> range \<Rightarrow> ddt list \<Rightarrow> bool \<Rightarrow> (c_error + ddt list) option" where
  "createVecs counts blens strides subtypes isHvector =
     for_each (\<lambda>subtype. over_range (\<lambda>count. over_range (\<lambda>blen. over_range (\<lambda>stride.
       Some (Inr [if isHvector then HVectorDatatype count blen stride subtype else VectorDatatype count blen stride subtype]))
       strides) blens) counts) subtypes"

definition createContiguous :: "range \<Rightarrow> ddt list \<Rightarrow> (c_error + ddt list) option" where
  "createContiguous counts subtypes =
     for_each (\<lambda>subtype. over_range (\<lambda>count. Some (Inr [ContiguousDatatype count subtype])) counts) subtypes"

section \<open>The grammar\<close>

fun parse_num :: "token list \<Rightarrow> (int \<times> token list) option" where
  "parse_num (NUM a # ts) = Some (a, ts)"
| "parse_num _ = None"

fun expect :: "char \<Rightarrow> token list \<Rightarrow> token list option" where
  "expect c (Punct d # ts) = (if d = c then Some ts else None)"
| "expect c _ = None"

lemma parse_num_length: "parse_num ts = Some (a, us) \<Longrightarrow> length ts = Suc (length us)"
  by (induction ts rule: parse_num.induct) auto

lemma expect_length: "expect c ts = Some us \<Longrightarrow> length ts = Suc (length us)"
  by (induction c ts rule: expect.induct) (auto split: if_splits)

definition parse_range :: "token list \<Rightarrow> (range \<times> token list) option" where
  "parse_range ts = Option.bind (parse_num ts) (\<lambda>(a, ts).
     case expect (CHR '':'') ts of
       None \<Rightarrow> Some (\<lparr>r_start = a, r_stop = a, r_stride = 1\<rparr>, ts)
     | Some ts \<Rightarrow> Option.bind (parse_num ts) (\<lambda>(b, ts). Option.bind (expect (CHR '':'') ts) (\<lambda>ts.
         Option.bind (parse_num ts) (\<lambda>(e, ts). Some (\<lparr>r_start = a, r_stop = e, r_stride = b\<rparr>, ts)))))"

text \<open>Three ranges, with commas between them or not.\<close>

definition parse_ranges :: "token list \<Rightarrow> ((range \<times> range \<times> range) \<times> token list) option" where
  "parse_ranges ts = Option.bind (parse_range ts) (\<lambda>(a, ts).
     case expect (CHR '','') ts of
       Some ts \<Rightarrow> Option.bind (parse_range ts) (\<lambda>(b, ts). Option.bind (expect (CHR '','') ts) (\<lambda>ts.
         Option.bind (parse_range ts) (\<lambda>(c, ts). Some ((a, b, c), ts))))
     | None \<Rightarrow> Option.bind (parse_range ts) (\<lambda>(b, ts).
         Option.bind (parse_range ts) (\<lambda>(c, ts). Some ((a, b, c), ts))))"

text \<open>The entries of idxb, each with an optional comma before the next.\<close>

function parse_idxbentries :: "token list \<Rightarrow> (int list \<times> token list) option" where
  "parse_idxbentries ts = Option.bind (parse_num ts) (\<lambda>(a, us).
     case expect (CHR '','') us of
       Some vs \<Rightarrow> map_option (apfst ((#) a)) (parse_idxbentries vs)
     | None \<Rightarrow> if parse_num us = None then Some ([a], us) else map_option (apfst ((#) a)) (parse_idxbentries us))"
  by pat_completeness auto

termination
  by (relation "measure length") (auto dest!: parse_num_length expect_length)

text \<open>An entry of hidx is a displacement and a block length.\<close>

function parse_idxentries :: "token list \<Rightarrow> ((int \<times> int) list \<times> token list) option" where
  "parse_idxentries ts = Option.bind (parse_num ts) (\<lambda>(a, us). Option.bind (expect (CHR '','') us) (\<lambda>vs.
     Option.bind (parse_num vs) (\<lambda>(b, ws).
       case expect (CHR '';'') ws of
         Some xs \<Rightarrow> map_option (apfst ((#) (a, b))) (parse_idxentries xs)
       | None \<Rightarrow> if parse_num ws = None then Some ([(a, b)], ws) else map_option (apfst ((#) (a, b))) (parse_idxentries ws))))"
  by pat_completeness auto

termination
  by (relation "measure length") (auto dest!: parse_num_length expect_length)

declare parse_idxbentries.simps [simp del] parse_idxentries.simps [simp del]

definition primitive_of :: "token \<Rightarrow> PrimitiveType option" where
  "primitive_of t = (case t of BYTE_TOKEN \<Rightarrow> Some BYTE | CHAR_TOKEN \<Rightarrow> Some CHARACTER | INT_TOKEN \<Rightarrow> Some INTEGER
     | FLOAT_TOKEN \<Rightarrow> Some FLOAT | DOUBLE_TOKEN \<Rightarrow> Some DOUBLE | _ \<Rightarrow> None)"

text \<open>What stands before the subtype, as a function from the subtypes to the types.\<close>

fun parse_head :: "token list \<Rightarrow> ((ddt list \<Rightarrow> (c_error + ddt list) option) \<times> token list) option" where
  "parse_head [] = None"
| "parse_head (t # ts) = Option.bind (expect (CHR ''('') ts) (\<lambda>ts.
     if t = CONTIGUOUS_TOKEN then Option.bind (parse_range ts) (\<lambda>(r, ts). Some (createContiguous r, ts))
     else if t = VECTOR_TOKEN then Option.bind (parse_ranges ts) (\<lambda>((a, b, c), ts). Some (\<lambda>subs. createVecs a b c subs False, ts))
     else if t = HVECTOR_TOKEN then Option.bind (parse_ranges ts) (\<lambda>((a, b, c), ts). Some (\<lambda>subs. createVecs a b c subs True, ts))
     else if t = INDEXEDBLOCK_TOKEN then Option.bind (parse_num ts) (\<lambda>(blocklen, ts).
       Option.bind (expect (CHR '':'') ts) (\<lambda>ts. Option.bind (parse_idxbentries ts) (\<lambda>(displs, ts).
         Some (for_each (\<lambda>sub. Some (Inr [IndexedBlockDatatype (int (length displs)) blocklen displs sub])), ts))))
     else if t = HINDEXED_TOKEN then Option.bind (parse_idxentries ts) (\<lambda>(es, ts).
       Some (for_each (\<lambda>sub. Some (Inr [HIndexedDatatype (int (length es)) (map snd es) (map fst es) sub])), ts))
     else if t = RESIZED_TOKEN then Option.bind (parse_num ts) (\<lambda>(lb, ts). Option.bind (expect (CHR '','') ts) (\<lambda>ts.
       Option.bind (parse_num ts) (\<lambda>(extent, ts). Some (for_each (\<lambda>sub. Some (Inr [ResizedDatatype sub lb extent])), ts))))
     else None)"

lemma parse_range_length: "parse_range ts = Some (r, us) \<Longrightarrow> length us < length ts"
  by (auto simp: parse_range_def split: Option.bind_splits option.splits dest!: parse_num_length expect_length)

lemma parse_ranges_length: "parse_ranges ts = Some (r, us) \<Longrightarrow> length us < length ts"
  by (auto simp: parse_ranges_def split: Option.bind_splits option.splits dest!: parse_range_length expect_length)

lemma parse_idxbentries_length: "parse_idxbentries ts = Some (r, us) \<Longrightarrow> length us < length ts"
proof (induction ts arbitrary: r us rule: parse_idxbentries.induct)
  case (1 ts)
  then show ?case
    by (subst (asm) (3) parse_idxbentries.simps)
      (fastforce split: Option.bind_splits option.splits if_splits dest: parse_num_length expect_length)
qed

lemma parse_idxentries_length: "parse_idxentries ts = Some (r, us) \<Longrightarrow> length us < length ts"
proof (induction ts arbitrary: r us rule: parse_idxentries.induct)
  case (1 ts)
  then show ?case
    by (subst (asm) (3) parse_idxentries.simps)
      (fastforce split: Option.bind_splits option.splits if_splits dest: parse_num_length expect_length)
qed

lemma parse_head_length:
  assumes "parse_head ts = Some (r, us)" shows "length us < length ts"
proof -
  obtain t ts' as where t: "ts = t # ts'" "expect (CHR ''('') ts' = Some as" using assms
    by (cases ts) (auto split: Option.bind_splits)
  consider "t = CONTIGUOUS_TOKEN" | "t = VECTOR_TOKEN" | "t = HVECTOR_TOKEN" | "t = INDEXEDBLOCK_TOKEN"
    | "t = HINDEXED_TOKEN" | "t = RESIZED_TOKEN" using assms t by (auto split: if_splits)
  then show ?thesis
    using assms t(2) expect_length [OF t(2)] unfolding t(1)
    by cases (auto split: Option.bind_splits dest!: parse_range_length parse_ranges_length parse_num_length expect_length
        parse_idxbentries_length parse_idxentries_length)
qed

declare parse_head.simps [simp del]

function parse_datatype :: "token list \<Rightarrow> (ddt list \<times> token list) option" where
  "parse_datatype [] = None"
| "parse_datatype (t # ts) =
     (case primitive_of t of
        Some type \<Rightarrow> Some ([PrimitiveDatatype type], ts)
      | None \<Rightarrow> Option.bind (parse_head (t # ts)) (\<lambda>(act, us). Option.bind (expect (CHR '')'') us) (\<lambda>vs.
          Option.bind (expect (CHR ''['') vs) (\<lambda>ws. Option.bind (parse_datatype ws) (\<lambda>(subtypes, xs).
            Option.bind (expect (CHR '']'') xs) (\<lambda>ys.
              case act subtypes of Some (Inr types) \<Rightarrow> Some (types, ys) | _ \<Rightarrow> None))))))"
  by pat_completeness auto

termination
  by (relation "measure length") (auto dest!: parse_head_length expect_length)

declare parse_datatype.simps [simp del]

lemma parse_datatype_length: "parse_datatype ts = Some (r, us) \<Longrightarrow> length us < length ts"
proof (induction ts arbitrary: r us rule: parse_datatype.induct)
  case (2 t ts)
  show ?case
  proof (cases "primitive_of t")
    case None
    then obtain act as bs cs subs ds where p: "parse_head (t # ts) = Some (act, as)" "expect (CHR '')'') as = Some bs"
      "expect (CHR ''['') bs = Some cs" "parse_datatype cs = Some (subs, ds)" "expect (CHR '']'') ds = Some us"
      using 2(2) by (auto simp: parse_datatype.simps split: Option.bind_splits option.splits sum.splits)
    then show ?thesis
      using 2(1) [OF None p(1) refl p(2,3,4)] parse_head_length [OF p(1)] expect_length [OF p(2)] expect_length [OF p(3)]
        expect_length [OF p(5)] by simp
  qed (use 2(2) in \<open>auto simp: parse_datatype.simps\<close>)
qed (simp add: parse_datatype.simps)

text \<open>The input is a sequence of types, which the player runs one after the other.\<close>

function parse_input :: "token list \<Rightarrow> ddt list option" where
  "parse_input ts = Option.bind (parse_datatype ts) (\<lambda>(types, us).
     if us = [] then Some types else map_option ((@) types) (parse_input us))"
  by pat_completeness auto

termination
  by (relation "measure length") (auto dest!: parse_datatype_length)

declare parse_input.simps [simp del]

text \<open>The value of a number is that of atoi, which has to fit an int.\<close>

fun atoi_ok :: "token \<Rightarrow> bool" where
  "atoi_ok (NUM i) = in_int i"
| "atoi_ok _ = True"

definition read_datatypes :: "string \<Rightarrow> ddt list option" where
  "read_datatypes s = (let ts = yylex s in if list_all atoi_ok ts then parse_input ts else None)"

section \<open>Reading what was written\<close>

fun tokens :: "ddt \<Rightarrow> token list" where
  "tokens (Primitive d type) = [case type of BYTE \<Rightarrow> BYTE_TOKEN | CHARACTER \<Rightarrow> CHAR_TOKEN | INTEGER \<Rightarrow> INT_TOKEN
     | FLOAT \<Rightarrow> FLOAT_TOKEN | DOUBLE \<Rightarrow> DOUBLE_TOKEN]"
| "tokens (Contiguous d count b) =
     [CONTIGUOUS_TOKEN, Punct (CHR ''(''), NUM count, Punct (CHR '')''), Punct (CHR ''['')] @ tokens b @ [Punct (CHR '']'')]"
| "tokens (Vector d count blocklen stride b) =
     [VECTOR_TOKEN, Punct (CHR ''(''), NUM count, NUM blocklen, NUM stride, Punct (CHR '')''), Punct (CHR ''['')] @ tokens b @ [Punct (CHR '']'')]"
| "tokens (HVector d count blocklen stride b) =
     [HVECTOR_TOKEN, Punct (CHR ''(''), NUM count, NUM blocklen, NUM stride, Punct (CHR '')''), Punct (CHR ''['')] @ tokens b @ [Punct (CHR '']'')]"
| "tokens (IndexedBlock d count blocklen displs b _) =
     [INDEXEDBLOCK_TOKEN, Punct (CHR ''(''), NUM blocklen, Punct (CHR '':'')] @ map NUM displs @
     [Punct (CHR '')''), Punct (CHR ''['')] @ tokens b @ [Punct (CHR '']'')]"
| "tokens (HIndexed d count blocklens displs b) =
     [HINDEXED_TOKEN, Punct (CHR ''('')] @ concat (map2 (\<lambda>x l. [NUM x, Punct (CHR '',''), NUM l]) displs blocklens) @
     [Punct (CHR '')''), Punct (CHR ''['')] @ tokens b @ [Punct (CHR '']'')]"
| "tokens (Struct d count blocklens displs bs) = []"
| "tokens (Resized d b) =
     [RESIZED_TOKEN, Punct (CHR ''(''), NUM (lower_bound d), Punct (CHR '',''), NUM (upper_bound d - lower_bound d),
      Punct (CHR '')''), Punct (CHR ''['')] @ tokens b @ [Punct (CHR '']'')]"

text \<open>
  The grammar has no rule for structs, and wants at least one entry.  The numbers are ints, and
  those that become ranges are smaller than the largest int, which their loops step over.
\<close>

definition counter :: "int \<Rightarrow> bool" where
  "counter i \<longleftrightarrow> in_int i \<and> in_int (i + 1)"

fun readable :: "ddt \<Rightarrow> bool" where
  "readable (Primitive d type) = True"
| "readable (Contiguous d count b) = (readable b \<and> counter count)"
| "readable (Vector d count blocklen stride b) = (readable b \<and> counter count \<and> counter blocklen \<and> counter stride)"
| "readable (HVector d count blocklen stride b) = (readable b \<and> counter count \<and> counter blocklen \<and> counter stride)"
| "readable (IndexedBlock d count blocklen displs b _) = (readable b \<and> 0 < count \<and> in_int blocklen \<and> list_all in_int displs)"
| "readable (HIndexed d count blocklens displs b) =
     (readable b \<and> 0 < count \<and> list_all (\<lambda>(x, l). in_int x \<and> in_int l) (zip displs blocklens))"
| "readable (Struct d count blocklens displs bs) = False"
| "readable (Resized d b) = (readable b \<and> in_int (lower_bound d) \<and> in_int (upper_bound d - lower_bound d))"

lemma readable_ints: "readable t \<Longrightarrow> list_all atoi_ok (tokens t)"
proof (induction t)
  case (Primitive d type)
  then show ?case by (cases type) simp_all
next
  case (IndexedBlock d count blocklen displs b arr)
  have "list_all atoi_ok (map NUM displs) = list_all in_int displs" by (induction displs) simp_all
  then show ?case using IndexedBlock by simp
next
  case (HIndexed d count blocklens displs b)
  have "list_all atoi_ok (concat (map (\<lambda>(x, l). [NUM x, Punct (CHR '',''), NUM l]) es)) =
      list_all (\<lambda>(x, l). in_int x \<and> in_int l) es" for es by (induction es) auto
  then show ?case using HIndexed by simp
qed (simp_all add: counter_def)

subsection \<open>Lexing\<close>

lemma keyword_none: "\<forall>(k, t) \<in> set ks. k \<noteq> [] \<and> hd k \<noteq> x \<Longrightarrow> keyword ks (x # xs) = None"
proof (induction ks)
  case (Cons kt ks)
  obtain k t where "kt = (k, t)" by force
  then show ?case using Cons by (cases k) auto
qed simp

lemma keyword_starts: "\<forall>(k, t) \<in> set keyword_rules. k \<noteq> [] \<and> \<not> is_digit (hd k) \<and> hd k \<notin> set ''-[]():,; ''"
  by code_simp

lemma no_keyword: "is_digit x \<or> x \<in> set ''-[]():,; '' \<Longrightarrow> keyword keyword_rules (x # xs) = None"
  using keyword_starts by (intro keyword_none) fastforce

lemma lex_digits: "is_digit x \<Longrightarrow> yylex (x # xs) = NUM (int (digits_value (takeWhile is_digit (x # xs)))) # yylex (dropWhile is_digit xs)"
  by (subst yylex.simps) (simp add: no_keyword)

lemma lex_minus:
  assumes "is_digit x" shows "yylex (CHR ''-'' # x # xs) = NUM (- int (digits_value (takeWhile is_digit (x # xs)))) # yylex (dropWhile is_digit xs)"
proof -
  have "\<not> is_digit (CHR ''-'')" by code_simp
  then show ?thesis using assms by (subst yylex.simps) (simp add: no_keyword)
qed

declare yylex.simps(2) [simp del]

lemma lex_int:
  assumes "\<not> is_digit c" shows "yylex (show_int i @ c # cs) = NUM i # yylex (c # cs)"
proof -
  obtain d ds where d: "show_nat (nat \<bar>i\<bar>) = d # ds" using show_nat_digits by (cases "show_nat (nat \<bar>i\<bar>)") auto
  have dd: "is_digit d" "list_all is_digit ds" "digits_value (d # ds) = nat \<bar>i\<bar>" using show_nat_digits [of "nat \<bar>i\<bar>"] d by auto
  show ?thesis
    using d dd takeWhile_digits [OF dd(2) assms] by (cases "i < 0") (simp_all add: show_int_def lex_digits lex_minus)
qed

lemma lex_keywords:
  "yylex (''byte'' @ s) = BYTE_TOKEN # yylex s" "yylex (''char'' @ s) = CHAR_TOKEN # yylex s"
  "yylex (''int'' @ s) = INT_TOKEN # yylex s" "yylex (''double'' @ s) = DOUBLE_TOKEN # yylex s"
  "yylex (''float'' @ s) = FLOAT_TOKEN # yylex s" "yylex (''ctg'' @ s) = CONTIGUOUS_TOKEN # yylex s"
  "yylex (''vec'' @ s) = VECTOR_TOKEN # yylex s" "yylex (''hvec'' @ s) = HVECTOR_TOKEN # yylex s"
  "yylex (''hidx'' @ s) = HINDEXED_TOKEN # yylex s" "yylex (''idxb'' @ s) = INDEXEDBLOCK_TOKEN # yylex s"
  "yylex (''resized'' @ s) = RESIZED_TOKEN # yylex s"
  by (simp_all add: keyword_rules_def yylex.simps(2))

lemma not_digit: "\<not> is_digit (CHR ''('')" "\<not> is_digit (CHR '')'')" "\<not> is_digit (CHR ''['')" "\<not> is_digit (CHR '']'')"
  "\<not> is_digit (CHR '','')" "\<not> is_digit (CHR '':'')" "\<not> is_digit (CHR '';'')" "\<not> is_digit (CHR '' '')"
  by code_simp+

lemma lex_punct:
  "yylex (CHR ''('' # s) = Punct (CHR ''('') # yylex s" "yylex (CHR '')'' # s) = Punct (CHR '')'') # yylex s"
  "yylex (CHR ''['' # s) = Punct (CHR ''['') # yylex s" "yylex (CHR '']'' # s) = Punct (CHR '']'') # yylex s"
  "yylex (CHR '','' # s) = Punct (CHR '','') # yylex s" "yylex (CHR '':'' # s) = Punct (CHR '':'') # yylex s"
  "yylex (CHR '' '' # s) = yylex s"
  by (simp_all add: yylex.simps(2) no_keyword not_digit)

lemmas lex_words = lex_keywords [simplified] lex_punct lex_int not_digit

lemma lex_displs: "yylex (join '' '' (map show_int ds) @ CHR '')'' # s) = map NUM ds @ yylex (CHR '')'' # s)"
proof (induction "'' ''" "map show_int ds" arbitrary: ds rule: join.induct)
  case (2 x)
  then obtain d where "ds = [d]" by (cases ds) auto
  then show ?case by (simp add: lex_words)
next
  case (3 x y xs)
  then obtain d e es where ds: "ds = d # e # es" "xs = map show_int es" "y = show_int e" by (cases ds; cases "tl ds") auto
  then have "yylex (join '' '' (map show_int (e # es)) @ CHR '')'' # s) = map NUM (e # es) @ yylex (CHR '')'' # s)"
    using 3(1) [of "e # es"] by simp
  then show ?case using ds(1) by (simp add: lex_words)
qed simp

lemma lex_entries:
  "yylex (join '' '' (map (\<lambda>(d, l). show_int d @ '','' @ show_int l) es) @ CHR '')'' # s) =
     concat (map (\<lambda>(d, l). [NUM d, Punct (CHR '',''), NUM l]) es) @ yylex (CHR '')'' # s)"
proof (induction es rule: induct_list012)
  case (3 x y es)
  then show ?case by (cases x; cases y) (simp add: lex_words)
qed (auto simp: lex_words)

lemma lex_tokens: "readable t \<Longrightarrow> yylex (toString False t @ s) = tokens t @ yylex s"
proof (induction t arbitrary: s)
  case (Primitive d type)
  then show ?case by (cases type) (simp_all add: lex_words)
next
  case (IndexedBlock d count blocklen displs b arr)
  then show ?case using lex_displs [of displs]
    by (simp add: IndexedBlock_toString_def lex_words)
next
  case (HIndexed d count blocklens displs b)
  have "map2 (\<lambda>x l. show_int x @ '','' @ show_int l) displs blocklens =
      map (\<lambda>(d, l). show_int d @ '','' @ show_int l) (zip displs blocklens)" by simp
  then show ?case using HIndexed lex_entries [of "zip displs blocklens"]
    by (simp add: HIndexed_toString_def lex_words)
qed (simp_all add: lex_words Contiguous_toString_def Vector_toString_def HVector_toString_def Resized_toString_def)

subsection \<open>Parsing\<close>

lemma over_single [simp]:
  assumes "counter a" shows "over_range act \<lparr>r_start = a, r_stop = a, r_stride = 1\<rparr> = act a"
proof -
  have "for_loop act (a + 1) a 1 = Some (Inr [])" by (subst for_loop.simps) simp
  then show ?thesis using assms unfolding over_range_def counter_def
    by (subst for_loop.simps) (cases "act a"; auto split: sum.split)
qed

lemma parse_displs: "ds \<noteq> [] \<Longrightarrow> parse_idxbentries (map NUM ds @ Punct (CHR '')'') # ts) = Some (ds, Punct (CHR '')'') # ts)"
proof (induction ds rule: induct_list012)
  case (2 x)
  show ?case by (subst parse_idxbentries.simps) simp
next
  case (3 x y zs)
  show ?case using 3(2) by (subst parse_idxbentries.simps) simp
qed simp

lemma parse_entries:
  "es \<noteq> [] \<Longrightarrow> parse_idxentries (concat (map (\<lambda>(d, l). [NUM d, Punct (CHR '',''), NUM l]) es) @ Punct (CHR '')'') # ts) =
     Some (es, Punct (CHR '')'') # ts)"
proof (induction es rule: induct_list012)
  case (2 x)
  show ?case by (cases x) (subst parse_idxentries.simps, simp)
next
  case (3 x y zs)
  then show ?case by (cases x; cases y) (subst parse_idxentries.simps, simp)
qed simp

lemma ctor_take:
  "0 < count \<Longrightarrow> nat count \<le> length displ \<Longrightarrow>
     IndexedBlockDatatype (int (length (take (nat count) displ))) blocklen (take (nat count) displ) b =
     IndexedBlockDatatype count blocklen displ b"
  "0 < count \<Longrightarrow> nat count \<le> length displ \<Longrightarrow> nat count \<le> length bls \<Longrightarrow>
     HIndexedDatatype (int (length (zip (take (nat count) displ) (take (nat count) bls)))) (take (nat count) bls) (take (nat count) displ) b =
     HIndexedDatatype count bls displ b"
  by (simp_all add: IndexedBlockDatatype_def HIndexedDatatype_def new_IndexedBlock_def new_HIndexed_def Let_def)

text \<open>The tokens of what the constructors make; the entries are those that the count takes.\<close>

definition entries_of :: "int \<Rightarrow> int list \<Rightarrow> int list \<Rightarrow> (int \<times> int) list" where
  "entries_of count displ blocklen = zip (take (nat count) displ) (take (nat count) blocklen)"

lemma tokens_ctors:
  assumes "built b"
  shows "tokens (ContiguousDatatype count b) =
      [CONTIGUOUS_TOKEN, Punct (CHR ''(''), NUM count, Punct (CHR '')''), Punct (CHR ''['')] @ tokens b @ [Punct (CHR '']'')]"
    "tokens (VectorDatatype count blocklen stride b) = [VECTOR_TOKEN, Punct (CHR ''(''), NUM count, NUM blocklen, NUM stride,
      Punct (CHR '')''), Punct (CHR ''['')] @ tokens b @ [Punct (CHR '']'')]"
    "tokens (HVectorDatatype count blocklen stride b) = [HVECTOR_TOKEN, Punct (CHR ''(''), NUM count, NUM blocklen, NUM stride,
      Punct (CHR '')''), Punct (CHR ''['')] @ tokens b @ [Punct (CHR '']'')]"
    "tokens (IndexedBlockDatatype count blocklen displ b) = [INDEXEDBLOCK_TOKEN, Punct (CHR ''(''), NUM blocklen, Punct (CHR '':'')] @
      map NUM (take (nat count) displ) @ [Punct (CHR '')''), Punct (CHR ''['')] @ tokens b @ [Punct (CHR '']'')]"
    "tokens (HIndexedDatatype count blocklens displ b) = [HINDEXED_TOKEN, Punct (CHR ''('')] @
      concat (map (\<lambda>(d, l). [NUM d, Punct (CHR '',''), NUM l]) (entries_of count displ blocklens)) @
      [Punct (CHR '')''), Punct (CHR ''['')] @ tokens b @ [Punct (CHR '']'')]"
    "tokens (ResizedDatatype b lb extent) = [RESIZED_TOKEN, Punct (CHR ''(''), NUM lb, Punct (CHR '',''), NUM extent,
      Punct (CHR '')''), Punct (CHR ''['')] @ tokens b @ [Punct (CHR '']'')]"
  by (simp_all add: clone_built [OF assms] ctor_defs new_Contiguous_def new_Vector_def new_HVector_def
    new_IndexedBlock_def new_HIndexed_def new_Resized_def Let_def entries_of_def)

lemma readable_ctors:
  assumes "built b"
  shows "readable (ContiguousDatatype count b) = (readable b \<and> counter count)"
    "readable (VectorDatatype count blocklen stride b) = (readable b \<and> counter count \<and> counter blocklen \<and> counter stride)"
    "readable (HVectorDatatype count blocklen stride b) = (readable b \<and> counter count \<and> counter blocklen \<and> counter stride)"
    "readable (IndexedBlockDatatype count blocklen displ b) =
      (readable b \<and> 0 < count \<and> in_int blocklen \<and> list_all in_int (take (nat count) displ))"
    "readable (HIndexedDatatype count blocklens displ b) =
      (readable b \<and> 0 < count \<and> list_all (\<lambda>(x, l). in_int x \<and> in_int l) (entries_of count displ blocklens))"
    "readable (ResizedDatatype b lb extent) = (readable b \<and> in_int lb \<and> in_int extent)"
  by (simp_all add: clone_built [OF assms] ctor_defs new_Contiguous_def new_Vector_def new_HVector_def
    new_IndexedBlock_def new_HIndexed_def new_Resized_def Let_def entries_of_def)

lemma entries_taken:
  assumes "nat count \<le> length displ" "nat count \<le> length bls"
  shows "map fst (entries_of count displ bls) = take (nat count) displ" "map snd (entries_of count displ bls) = take (nat count) bls"
    "length (entries_of count displ bls) = nat count"
  using assms by (simp_all add: entries_of_def)

lemmas parse_defs = parse_datatype.simps primitive_of_def parse_head.simps parse_range_def parse_ranges_def

lemma parse_tokens: "built t \<Longrightarrow> readable t \<Longrightarrow> parse_datatype (tokens t @ ts) = Some ([t], ts)"
proof (induction arbitrary: ts rule: built.induct)
  case (built_Primitive type)
  show ?case by (cases type) (simp_all add: PrimitiveDatatype_def new_Primitive_def Let_def parse_defs)
next
  case (built_Contiguous b count)
  then show ?case by (simp add: readable_ctors tokens_ctors parse_defs createContiguous_def)
next
  case (built_Vector b count blocklen stride)
  then show ?case by (simp add: readable_ctors tokens_ctors parse_defs createVecs_def)
next
  case (built_HVector b count blocklen stride)
  then show ?case by (simp add: readable_ctors tokens_ctors parse_defs createVecs_def)
next
  case (built_IndexedBlock b count displ blocklen)
  note b = readable_ctors(4) [OF built_IndexedBlock.hyps(1)] tokens_ctors(4) [OF built_IndexedBlock.hyps(1)]
  have c: "0 < count" "readable b" using built_IndexedBlock.prems b by simp_all
  then have "take (nat count) displ \<noteq> []" using built_IndexedBlock.hyps(2) by (cases displ) auto
  then show ?case using built_IndexedBlock.IH [OF c(2)] ctor_take(1) [OF c(1) built_IndexedBlock.hyps(2)]
    by (simp add: b parse_defs parse_displs)
next
  case (built_HIndexed b count displ blocklen)
  note b = readable_ctors(5) [OF built_HIndexed.hyps(1)] tokens_ctors(5) [OF built_HIndexed.hyps(1)]
  have c: "0 < count" "readable b" using built_HIndexed.prems b by simp_all
  note e = entries_taken [OF built_HIndexed.hyps(2,3)]
  have "entries_of count displ blocklen \<noteq> []" using e(3) c(1) by auto
  then show ?case using built_HIndexed.IH [OF c(2)] ctor_take(2) [OF c(1) built_HIndexed.hyps(2,3)] e
    by (simp add: b parse_defs parse_entries entries_of_def [symmetric] del: map_fst_zip_take map_snd_zip_take)
next
  case (built_Resized b lb extent)
  then show ?case by (simp add: readable_ctors tokens_ctors parse_defs)
qed (simp add: StructDatatype_def new_Struct_def Let_def)

end
