(* ===== verification/Player_Text.thy ===== *)
theory Player_Text
  imports Ddt_Text
begin

text \<open>
  What the datatype player reads: the text of a datatype gives the datatype back, the ranges
  of its notation give every combination of their values, and the texts that its grammar
  does not accept.
\<close>

section \<open>Ranges\<close>

definition entered :: "range \<Rightarrow> bool" where
  "entered r \<longleftrightarrow> r_start r \<le> r_stop r"

definition steps_of :: "range \<Rightarrow> nat" where
  "steps_of r = (if entered r then nat ((r_stop r - r_start r) div r_stride r + 1) else 0)"

definition range_list :: "range \<Rightarrow> int list" where
  "range_list r = map (\<lambda>i. r_start r + int i * r_stride r) [0..<steps_of r]"

text \<open>A loop over the range ends in an int: it is not entered, or steps up to an int behind the stop.\<close>

definition ends_in_int :: "range \<Rightarrow> bool" where
  "ends_in_int r \<longleftrightarrow> entered r \<longrightarrow> in_int (r_start r) \<and> 0 < r_stride r \<and> in_int (r_start r + int (steps_of r) * r_stride r)"

lemma div_less: "0 < c \<Longrightarrow> (x :: int) div c < k \<longleftrightarrow> x < k * c"
proof -
  assume c: "0 < c"
  have x: "x = x div c * c + x mod c" "0 \<le> x mod c" "x mod c < c" using c by simp_all
  show ?thesis
  proof
    assume "x div c < k"
    then have "(x div c + 1) * c \<le> k * c" using c by (intro mult_right_mono) auto
    then have "x div c * c + c \<le> k * c" by (simp add: algebra_simps)
    then show "x < k * c" using x by linarith
  next
    assume l: "x < k * c"
    show "x div c < k"
    proof (rule ccontr)
      assume "\<not> x div c < k"
      then have "k * c \<le> x div c * c" using c by (intro mult_right_mono) auto
      then show False using l x by linarith
    qed
  qed
qed

lemma for_loop_values:
  assumes "0 < inc" "\<And>i. act i = Some (Inr (f i))" "a \<le> b" "in_int a" "in_int (a + int (nat ((b - a) div inc + 1)) * inc)"
    and "k \<le> nat ((b - a) div inc + 1)"
  shows "for_loop act (a + int k * inc) b inc = Some (Inr (concat (map (\<lambda>i. f (a + int i * inc)) [k..<nat ((b - a) div inc + 1)])))"
  using assms(6)
proof (induction "nat ((b - a) div inc + 1) - k" arbitrary: k)
  case 0
  then have "(b - a) div inc < int k" by linarith
  then have "b - a < int k * inc" using assms(1) by (simp add: div_less)
  then show ?case using 0 by (subst for_loop.simps) simp
next
  case (Suc n)
  let ?n = "nat ((b - a) div inc + 1)"
  have k: "k < ?n" using Suc(2) by linarith
  then have "int k \<le> (b - a) div inc" by linarith
  then have le: "int k * inc \<le> b - a" using assms(1) div_less [of inc "b - a" "int k"] by linarith
  have "n = ?n - Suc k" "Suc k \<le> ?n" using Suc(2) k by linarith+
  from Suc(1) [OF this] have "for_loop act (a + int k * inc + inc) b inc =
      Some (Inr (concat (map (\<lambda>i. f (a + int i * inc)) [Suc k..<?n])))"
    by (simp add: algebra_simps)
  moreover have "in_int (a + int k * inc + inc)"
  proof -
    have "0 \<le> int (Suc k) * inc" "int (Suc k) * inc \<le> int ?n * inc" using assms(1) k by (simp, intro mult_right_mono) auto
    then show ?thesis using assms(4,5) by (simp add: in_int_def algebra_simps)
  qed
  ultimately show ?case using le assms(2) k by (subst for_loop.simps) (simp add: upt_conv_Cons)
qed

lemma over_range_values:
  assumes "ends_in_int r" "\<And>i. act i = Some (Inr (f i))"
  shows "over_range act r = Some (Inr (concat (map f (range_list r))))"
proof (cases "entered r")
  case True
  then show ?thesis
    using for_loop_values [of "r_stride r" act f "r_start r" "r_stop r" 0] assms
    by (simp add: over_range_def range_list_def comp_def ends_in_int_def steps_of_def entered_def)
next
  case False
  then show ?thesis unfolding over_range_def by (subst for_loop.simps) (simp add: range_list_def steps_of_def entered_def)
qed

lemma for_each_values: "(\<And>x. act x = Some (Inr (f x))) \<Longrightarrow> for_each act xs = Some (Inr (concat (map f xs)))"
  by (induction xs) auto

text \<open>With the increment 0 a loop that is entered does not end, whatever its body makes.\<close>

lemma for_loop_diverges: "for_loop act i limit inc = Some r \<Longrightarrow> \<not> (i \<le> limit \<and> inc = 0 \<and> in_int i \<and> (\<exists>f. \<forall>i. act i = Some (Inr (f i))))"
proof (rule for_loop.raw_induct [where P = "\<lambda>act i limit inc _. \<not> (i \<le> limit \<and> inc = 0 \<and> in_int i \<and> (\<exists>f. \<forall>i. act i = Some (Inr (f i))))"])
  fix loop :: "(int \<Rightarrow> (c_error + 'a list) option) \<Rightarrow> int \<Rightarrow> int \<Rightarrow> int \<Rightarrow> (c_error + 'a list) option" and act i limit inc r
  assume ih: "\<And>act i limit inc r. loop act i limit inc = Some r \<Longrightarrow> \<not> (i \<le> limit \<and> inc = 0 \<and> in_int i \<and> (\<exists>f. \<forall>i. act i = Some (Inr (f i))))"
    and s: "(if i \<le> limit then Option.bind (act i) (\<lambda>r. case r of Inl e \<Rightarrow> Some (Inl e) | Inr xs \<Rightarrow>
        if in_int (i + inc) then Option.bind (loop act (i + inc) limit inc)
          (\<lambda>r. case r of Inl e \<Rightarrow> Some (Inl e) | Inr ys \<Rightarrow> Some (Inr (xs @ ys)))
        else Some (Inl Int_Overflow)) else Some (Inr [])) = Some r"
  show "\<not> (i \<le> limit \<and> inc = 0 \<and> in_int i \<and> (\<exists>f. \<forall>i. act i = Some (Inr (f i))))"
  proof
    assume a: "i \<le> limit \<and> inc = 0 \<and> in_int i \<and> (\<exists>f. \<forall>i. act i = Some (Inr (f i)))"
    then obtain q where "loop act i limit inc = Some q" using s by (auto split: Option.bind_splits)
    then show False using ih a by blast
  qed
qed

text \<open>A loop that is entered and makes a list has a positive increment and stays in an int.\<close>

lemma for_loop_list: "for_loop act i limit inc = Some r \<Longrightarrow> i \<le> limit \<longrightarrow> (\<exists>ys. r = Inr ys) \<longrightarrow>
    0 < inc \<and> in_int (i + int (nat ((limit - i) div inc + 1)) * inc) \<and> (\<exists>xs. act i = Some (Inr xs))"
proof (rule for_loop.raw_induct [where P = "\<lambda>act i limit inc r. i \<le> limit \<longrightarrow> (\<exists>ys. r = Inr ys) \<longrightarrow>
    0 < inc \<and> in_int (i + int (nat ((limit - i) div inc + 1)) * inc) \<and> (\<exists>xs. act i = Some (Inr xs))"])
  fix loop :: "(int \<Rightarrow> (c_error + 'a list) option) \<Rightarrow> int \<Rightarrow> int \<Rightarrow> int \<Rightarrow> (c_error + 'a list) option" and act i limit inc r
  assume ih: "\<And>act i limit inc r. loop act i limit inc = Some r \<Longrightarrow> i \<le> limit \<longrightarrow> (\<exists>ys. r = Inr ys) \<longrightarrow>
      0 < inc \<and> in_int (i + int (nat ((limit - i) div inc + 1)) * inc) \<and> (\<exists>xs. act i = Some (Inr xs))"
    and s: "(if i \<le> limit then Option.bind (act i) (\<lambda>r. case r of Inl e \<Rightarrow> Some (Inl e) | Inr xs \<Rightarrow>
        if in_int (i + inc) then Option.bind (loop act (i + inc) limit inc)
          (\<lambda>r. case r of Inl e \<Rightarrow> Some (Inl e) | Inr ys \<Rightarrow> Some (Inr (xs @ ys)))
        else Some (Inl Int_Overflow)) else Some (Inr [])) = Some r"
  show "i \<le> limit \<longrightarrow> (\<exists>ys. r = Inr ys) \<longrightarrow>
      0 < inc \<and> in_int (i + int (nat ((limit - i) div inc + 1)) * inc) \<and> (\<exists>xs. act i = Some (Inr xs))"
  proof (intro impI)
    assume le: "i \<le> limit" and "\<exists>ys. r = Inr ys"
    then obtain xs ys where p: "act i = Some (Inr xs)" "in_int (i + inc)" "loop act (i + inc) limit inc = Some (Inr ys)"
      using s by (auto split: Option.bind_splits sum.splits if_splits)
    show "0 < inc \<and> in_int (i + int (nat ((limit - i) div inc + 1)) * inc) \<and> (\<exists>xs. act i = Some (Inr xs))"
    proof (cases "i + inc \<le> limit")
      case True
      then have n: "0 < inc" "in_int (i + inc + int (nat ((limit - (i + inc)) div inc + 1)) * inc)"
        using ih [OF p(3)] by simp_all
      have d: "(limit - (i + inc)) div inc = (limit - i) div inc - 1"
        using n(1) div_mult_self1 [of inc "limit - i" "-1"] by (simp add: algebra_simps)
      have "0 \<le> (limit - (i + inc)) div inc" using True n(1) by (intro div_int_pos_iff [THEN iffD2]) simp
      then have "int (nat ((limit - i) div inc + 1)) = int (nat ((limit - (i + inc)) div inc + 1)) + 1"
        using d by linarith
      then have "i + int (nat ((limit - i) div inc + 1)) * inc = i + inc + int (nat ((limit - (i + inc)) div inc + 1)) * inc"
        by (simp only: distrib_left distrib_right mult_1 mult_1_right ac_simps)
      then show ?thesis using n p(1) by (metis)
    next
      case False
      then have "0 < inc" "(limit - i) div inc = 0" using le by (simp, intro div_pos_pos_trivial) auto
      then show ?thesis using p(1,2) by simp
    qed
  qed
qed

lemma over_range_list:
  assumes "over_range act r = Some (Inr ys)" "entered r" "in_int (r_start r)"
  shows "ends_in_int r \<and> (\<exists>xs. act (r_start r) = Some (Inr xs))"
  using for_loop_list [OF assms(1)[unfolded over_range_def]] assms(2,3)
  by (simp add: ends_in_int_def entered_def steps_of_def)

text \<open>With any other increment it ends, or the counter overflows.\<close>

lemma for_loop_total:
  assumes "\<And>i. act i = Some (Inr (f i))" "inc \<noteq> 0" "in_int i"
  shows "\<exists>r. for_loop act i limit inc = Some r"
  using assms(3)
proof (induction "nat (if 0 < inc then 2 ^ 31 - i else i + 2 ^ 31 + 1)" arbitrary: i rule: less_induct)
  case less
  show ?case
  proof (cases "i \<le> limit \<and> in_int (i + inc)")
    case True
    have "nat (if 0 < inc then 2 ^ 31 - (i + inc) else i + inc + 2 ^ 31 + 1) < nat (if 0 < inc then 2 ^ 31 - i else i + 2 ^ 31 + 1)"
      using True less.prems assms(2) by (auto simp: in_int_def)
    then obtain q where "for_loop act (i + inc) limit inc = Some q" using less.hyps True by blast
    then show ?thesis using True assms(1) by (subst for_loop.simps) (cases q; simp)
  next
    case False
    then show ?thesis using assms(1) by (subst for_loop.simps) auto
  qed
qed

lemma over_range_overflow:
  assumes "\<And>i. act i = Some (Inr (f i))" "\<not> ends_in_int r" "in_int (r_start r)" "r_stride r \<noteq> 0"
  shows "over_range act r = Some (Inl Int_Overflow)"
proof -
  obtain q where q: "over_range act r = Some q"
    using for_loop_total [of act f, OF assms(1,4,3)] unfolding over_range_def by blast
  have "entered r" using assms(2) by (auto simp: ends_in_int_def)
  then have no: "q \<noteq> Inr ys" for ys using over_range_list [of act r ys] assms(2,3) q by blast
  show ?thesis
  proof (cases q)
    case (Inl e)
    then show ?thesis using q by (cases e) simp
  qed (use no in blast)
qed

lemma over_range_diverges:
  assumes "\<And>i. act i = Some (Inr (f i))" "entered r" "in_int (r_start r)" "r_stride r = 0"
  shows "over_range act r = None"
  using for_loop_diverges [of act "r_start r" "r_stop r" "r_stride r"] assms
  by (cases "over_range act r") (auto simp: over_range_def entered_def)

lemma for_each_list: "for_each act (x # xs) = Some (Inr ys) \<Longrightarrow> \<exists>zs. act x = Some (Inr zs)"
  by (auto split: Option.bind_splits sum.splits)

text \<open>
  C24: When every range is passed without leaving the ints, upwards or not at all, the loops of
  createVecs end, and they make one vector for every subtype, count, block length and stride of
  the ranges, in this order.
\<close>

theorem createVecs_all:
  assumes "ends_in_int counts" "ends_in_int blens" "ends_in_int strides"
  shows "createVecs counts blens strides subtypes isHvector = Some (Inr (concat (map (\<lambda>t. concat (map (\<lambda>c. concat (map (\<lambda>b.
    map (\<lambda>s. if isHvector then HVectorDatatype c b s t else VectorDatatype c b s t) (range_list strides))
      (range_list blens))) (range_list counts))) subtypes)))"
  unfolding createVecs_def
  by (intro for_each_values over_range_values [OF assms(1)] over_range_values [OF assms(2)])
    (simp add: over_range_values [OF assms(3)])

theorem createVecs_all_witness:
  "createVecs \<lparr>r_start = 1, r_stop = 2, r_stride = 1\<rparr> \<lparr>r_start = 1, r_stop = 1, r_stride = 1\<rparr>
     \<lparr>r_start = 2147483640, r_stop = 2147483644, r_stride = 3\<rparr> [PrimitiveDatatype INTEGER] False =
   Some (Inr [VectorDatatype 1 1 2147483640 (PrimitiveDatatype INTEGER), VectorDatatype 1 1 2147483643 (PrimitiveDatatype INTEGER),
     VectorDatatype 2 1 2147483640 (PrimitiveDatatype INTEGER), VectorDatatype 2 1 2147483643 (PrimitiveDatatype INTEGER)])"
proof -
  let ?c = "\<lparr>r_start = 1, r_stop = 2, r_stride = 1\<rparr>" and ?b = "\<lparr>r_start = 1, r_stop = 1, r_stride = 1\<rparr>"
    and ?s = "\<lparr>r_start = 2147483640, r_stop = 2147483644, r_stride = 3\<rparr>"
  have "ends_in_int ?c" "ends_in_int ?b" "ends_in_int ?s" by code_simp+
  moreover have "range_list ?c = [1, 2]" "range_list ?b = [1]" "range_list ?s = [2147483640, 2147483643]" by code_simp+
  ultimately show ?thesis using createVecs_all [of ?c ?b ?s "[PrimitiveDatatype INTEGER]" False] by simp
qed

text \<open>
  C25: The player has no result for the other ranges, and no check of the grammar keeps them out.
  A contiguous type whose range of counts is entered makes the loop go on for ever if the
  increment is 0, and makes the counter overflow if it is negative or the loop
  passes the largest int.  createVecs makes no list when such a range is reached, be it the
  one of the counts, of the block lengths or of the strides.
\<close>

theorem range_without_result:
  assumes "subtypes \<noteq> []" "in_int (r_start counts)" "in_int (r_start blens)" "in_int (r_start strides)"
  shows "(entered counts \<and> r_stride counts = 0 \<longrightarrow> createContiguous counts subtypes = None) \<and>
    (\<not> ends_in_int counts \<and> r_stride counts \<noteq> 0 \<longrightarrow> createContiguous counts subtypes = Some (Inl Int_Overflow)) \<and>
    (\<not> ends_in_int counts \<or> entered counts \<and> (\<not> ends_in_int blens \<or> entered blens \<and> \<not> ends_in_int strides) \<longrightarrow>
      (\<forall>types. createVecs counts blens strides subtypes isHvector \<noteq> Some (Inr types)))"
proof (intro conjI impI allI notI)
  obtain t ts where t: "subtypes = t # ts" using assms(1) by (cases subtypes) auto
  have body: "Some (Inr [ContiguousDatatype c t]) = Some (Inr ((\<lambda>c. [ContiguousDatatype c t]) c))" for c by simp
  show "createContiguous counts subtypes = None" if "entered counts \<and> r_stride counts = 0"
    using over_range_diverges [OF body, of counts] that assms(2) by (simp add: createContiguous_def t)
  show "createContiguous counts subtypes = Some (Inl Int_Overflow)" if "\<not> ends_in_int counts \<and> r_stride counts \<noteq> 0"
    using over_range_overflow [OF body, of counts] that assms(2) by (simp add: createContiguous_def t)
  fix types
  assume bad: "\<not> ends_in_int counts \<or> entered counts \<and> (\<not> ends_in_int blens \<or> entered blens \<and> \<not> ends_in_int strides)"
    and "createVecs counts blens strides subtypes isHvector = Some (Inr types)"
  from for_each_list [OF this(2) [unfolded createVecs_def t]] obtain ys where
    c: "over_range (\<lambda>c. over_range (\<lambda>b. over_range (\<lambda>s. Some (Inr [if isHvector then HVectorDatatype c b s t else VectorDatatype c b s t]))
      strides) blens) counts = Some (Inr ys)" by blast
  have "ends_in_int counts" "entered counts" using over_range_list [OF c _ assms(2)] bad by (auto simp: ends_in_int_def)
  moreover from over_range_list [OF c this(2) assms(2)] obtain zs where
    b: "over_range (\<lambda>b. over_range (\<lambda>s. Some (Inr [if isHvector then HVectorDatatype (r_start counts) b s t
      else VectorDatatype (r_start counts) b s t])) strides) blens = Some (Inr zs)" by blast
  ultimately have "ends_in_int blens" "entered blens" using over_range_list [OF b _ assms(3)] bad by (auto simp: ends_in_int_def)
  moreover from over_range_list [OF b this(2) assms(3)] obtain us where
    s: "over_range (\<lambda>s. Some (Inr [if isHvector then HVectorDatatype (r_start counts) (r_start blens) s t
      else VectorDatatype (r_start counts) (r_start blens) s t])) strides = Some (Inr us)" by blast
  ultimately show False using over_range_list [OF s _ assms(4)] bad \<open>ends_in_int counts\<close> by (auto simp: ends_in_int_def)
qed

theorem range_without_result_witness:
  "createContiguous \<lparr>r_start = 1, r_stop = 3, r_stride = 0\<rparr> [PrimitiveDatatype INTEGER] = None \<and>
   createContiguous \<lparr>r_start = 2147483647, r_stop = 2147483647, r_stride = 1\<rparr> [PrimitiveDatatype BYTE] = Some (Inl Int_Overflow) \<and>
   (\<forall>types. createVecs \<lparr>r_start = 1, r_stop = 1, r_stride = 1\<rparr> \<lparr>r_start = 2, r_stop = 2, r_stride = 1\<rparr>
     \<lparr>r_start = 4, r_stop = 8, r_stride = -1\<rparr> [PrimitiveDatatype INTEGER] True \<noteq> Some (Inr types))"
proof -
  let ?z = "\<lparr>r_start = 1, r_stop = 3, r_stride = 0\<rparr>" and ?m = "\<lparr>r_start = 2147483647, r_stop = 2147483647, r_stride = 1\<rparr>"
    and ?o = "\<lparr>r_start = 1, r_stop = 1, r_stride = 1\<rparr>" and ?t = "\<lparr>r_start = 2, r_stop = 2, r_stride = 1\<rparr>"
    and ?d = "\<lparr>r_start = 4, r_stop = 8, r_stride = -1\<rparr>"
  have "entered ?z" "r_stride ?z = 0" "\<not> ends_in_int ?m" "r_stride ?m \<noteq> 0" "entered ?o" "entered ?t" "\<not> ends_in_int ?d"
    "in_int (r_start ?z)" "in_int (r_start ?m)" "in_int (r_start ?o)" "in_int (r_start ?t)" "in_int (r_start ?d)" by code_simp+
  then show ?thesis
    using range_without_result [of "[PrimitiveDatatype INTEGER]" ?z ?o ?o] range_without_result [of "[PrimitiveDatatype BYTE]" ?m ?o ?o]
      range_without_result [of "[PrimitiveDatatype INTEGER]" ?o ?t ?d True] by blast
qed

text \<open>No text of such a range is read.\<close>

lemma zero_increment_text: "read_datatypes ''ctg(1:0:3)[int]'' = None"
proof -
  let ?r = "\<lparr>r_start = 1, r_stop = 3, r_stride = 0\<rparr>"
  have "over_range (\<lambda>c. Some (Inr [ContiguousDatatype c (PrimitiveDatatype INTEGER)])) ?r = None"
    by (rule over_range_diverges [where f = "\<lambda>c. [ContiguousDatatype c (PrimitiveDatatype INTEGER)]"]) (simp_all add: entered_def in_int_def)
  then have "createContiguous ?r [PrimitiveDatatype INTEGER] = None" by (simp add: createContiguous_def)
  moreover have "yylex ''ctg(1:0:3)[int]'' = [CONTIGUOUS_TOKEN, Punct (CHR ''(''), NUM 1, Punct (CHR '':''), NUM 0, Punct (CHR '':''),
      NUM 3, Punct (CHR '')''), Punct (CHR ''[''), INT_TOKEN, Punct (CHR '']'')]" by code_simp
  ultimately show ?thesis
    by (simp add: read_datatypes_def Let_def parse_input.simps parse_datatype.simps primitive_of_def parse_head.simps parse_range_def)
qed

section \<open>Reading what was written\<close>

lemma lex_texts: "\<forall>t \<in> set ts. readable t \<Longrightarrow>
    yylex (concat (map (\<lambda>t. toString False t @ [CHR 0x0A]) ts)) = concat (map tokens ts)"
proof (induction ts)
  case (Cons t ts)
  have "keyword keyword_rules (CHR 0x0A # s) = None" "\<not> is_digit (CHR 0x0A)" for s by (simp add: keyword_rules_def) code_simp
  then have "yylex (CHR 0x0A # s) = yylex s" for s by (simp add: yylex.simps(2))
  then show ?case using Cons by (simp add: lex_tokens)
qed simp

lemma tokens_nonempty: "readable t \<Longrightarrow> tokens t \<noteq> []"
  by (cases t) auto

lemma parse_texts: "ts \<noteq> [] \<Longrightarrow> \<forall>t \<in> set ts. built t \<and> readable t \<Longrightarrow> parse_input (concat (map tokens ts)) = Some ts"
proof (induction ts rule: induct_list012)
  case (2 t)
  then show ?case using parse_tokens [of t "[]"] by (simp add: parse_input.simps)
next
  case (3 t u ts)
  have "concat (map tokens (u # ts)) \<noteq> []" using 3(4) tokens_nonempty [of u] by simp
  then show ?case using 3 parse_tokens [of t "concat (map tokens (u # ts))"]
    by (subst parse_input.simps) simp
qed simp

text \<open>
  C23: The player reads back the text of any sequence of datatypes, one on a line: it gets the
  datatypes themselves, as long as they are built by the constructors, contain no struct and
  no empty list of displacements, their numbers are ints, and their counts, block lengths and
  strides, which the player reads as ranges of one value, are below the largest int.
\<close>

theorem text_roundtrip:
  assumes "ts \<noteq> []" "\<forall>t \<in> set ts. built t \<and> readable t"
  shows "read_datatypes (concat (map (\<lambda>t. toString False t @ [CHR 0x0A]) ts)) = Some ts"
proof -
  have "list_all atoi_ok (concat (map tokens ts))"
    using assms(2) readable_ints by (auto simp: list_all_iff)
  then show ?thesis using lex_texts [of ts] parse_texts [OF assms] assms(2) by (simp add: read_datatypes_def Let_def)
qed

theorem text_roundtrip_witness:
  "read_datatypes (''hvec(2 1 -24)[idxb(1:3 0 -5)[float]]'' @ [CHR 0x0A] @ ''hidx(0,2 40,1)[resized(0,16)[double]]'' @ [CHR 0x0A]) =
   Some [HVectorDatatype 2 1 (-24) (IndexedBlockDatatype 3 1 [3, 0, -5] (PrimitiveDatatype FLOAT)),
     HIndexedDatatype 2 [2, 1] [0, 40] (ResizedDatatype (PrimitiveDatatype DOUBLE) 0 16)]"
proof -
  let ?t = "HVectorDatatype 2 1 (-24) (IndexedBlockDatatype 3 1 [3, 0, -5] (PrimitiveDatatype FLOAT))"
  let ?u = "HIndexedDatatype 2 [2, 1] [0, 40] (ResizedDatatype (PrimitiveDatatype DOUBLE) 0 16)"
  have "toString False ?t = ''hvec(2 1 -24)[idxb(1:3 0 -5)[float]]''" "toString False ?u = ''hidx(0,2 40,1)[resized(0,16)[double]]''"
    by code_simp+
  moreover have "built ?t" "built ?u" by (simp_all add: built.intros)
  moreover have "readable ?t" "readable ?u" by code_simp+
  ultimately show ?thesis using text_roundtrip [of "[?t, ?u]"] by simp
qed

text \<open>
  The text of a struct has no rule in the grammar, and neither has the short text of an
  indexed block type, which leaves out the displacements: the player rejects both.
\<close>

theorem text_rejected:
  "read_datatypes (toString summary (Struct d count blocklens displs bs)) = None \<and>
   read_datatypes (toString True (IndexedBlock d count blocklen displs b arr)) = None"
proof -
  have "\<exists>s. toString summary (Struct d count blocklens displs bs) = ''struct'' @ s" by (simp add: Struct_toString_def Let_def)
  then obtain s where s: "toString summary (Struct d count blocklens displs bs) = ''struct'' @ s" by blast
  have "yylex (''struct'' @ s) = STRUCT_TOKEN # yylex s" by (simp add: yylex.simps(2) keyword_rules_def)
  moreover have "parse_datatype (STRUCT_TOKEN # us) = None" for us
    by (simp add: parse_datatype.simps primitive_of_def parse_head.simps split: Option.bind_splits)
  ultimately have "read_datatypes (toString summary (Struct d count blocklens displs bs)) = None"
    using s by (simp add: read_datatypes_def parse_input.simps)
  moreover have "\<exists>r. yylex (toString True (IndexedBlock d count blocklen displs b arr)) =
      [INDEXEDBLOCK_TOKEN, Punct (CHR ''(''), NUM count, Punct (CHR '','')] @ r"
    by (simp add: IndexedBlock_toString_def lex_words)
  then obtain r where "yylex (toString True (IndexedBlock d count blocklen displs b arr)) =
      [INDEXEDBLOCK_TOKEN, Punct (CHR ''(''), NUM count, Punct (CHR '','')] @ r" by blast
  then have "read_datatypes (toString True (IndexedBlock d count blocklen displs b arr)) = None"
    by (simp add: read_datatypes_def parse_input.simps parse_datatype.simps primitive_of_def parse_head.simps)
  ultimately show ?thesis by blast
qed

end
