(* ===== verification/Copy_Benchmark.thy ===== *)
theory Copy_Benchmark
  imports LLVM_IR
begin

text \<open>
  The copy routines that copy\_benchmark/copy\_benchmark.c compares: memcpy, assignments with and
  without prefetching, and two routines that move blocks of SSE registers.  A register is 16
  bytes; movaps, movdqa and movntdq fault at an address that is not a multiple of 16, movups does not.
  The prefetch instructions have no effect on memory and the measurement of time is left out.
  A signed int that overflows, a fault and an access outside the allocated bytes are None.
\<close>

unbundle bit_operations_syntax

section \<open>Words\<close>

lemma and_nibble: "(w :: i64) AND 0xf = take_bit 4 w" "(w :: i64) AND 0xff = take_bit 8 w"
  by (simp_all add: take_bit_eq_mask mask_eq_exp_minus_1)

lemma unat_take_bit: "unat (take_bit n (w :: i64)) = unat w mod 2 ^ n"
  by (simp only: unsigned_take_bit_eq take_bit_nat_def)

lemma unat_drop_bit: "unat (drop_bit n (w :: i64)) = unat w div 2 ^ n"
proof -
  have "take_bit LENGTH(64) (unat w) = unat w" by (rule take_bit_nat_eq_self) (rule unsigned_less)
  then show ?thesis by (simp only: unsigned_drop_bit_eq drop_bit_eq_div [where 'a = nat])
qed

lemma unat_clear_bits:
  assumes "n < 64" shows "unat ((w :: i64) AND NOT (mask n)) = unat w div 2 ^ n * 2 ^ n"
proof -
  have "w AND NOT (mask n) = push_bit n (drop_bit n w)"
    by (rule bit_word_eqI) (auto simp: bit_simps)
  moreover have "unat w < 2 ^ 64" using unsigned_less [of w] by simp
  then have "unat w div 2 ^ n * 2 ^ n < 2 ^ 64" by (rule le_less_trans [OF div_times_less_eq_dividend])
  ultimately show ?thesis
    by (simp only: unsigned_push_bit_eq unsigned_drop_bit_eq push_bit_eq_mult [where 'a = nat] drop_bit_eq_div [where 'a = nat])
      (use \<open>unat w < 2 ^ 64\<close> in \<open>simp add: take_bit_nat_eq_self\<close>)
qed

lemma unat_portions: "unat ((w :: i64) AND NOT 0xff) = unat w div 256 * 256" "unat ((w :: i64) AND NOT 0x7f) = unat w div 128 * 128"
  using unat_clear_bits [of 8 w] unat_clear_bits [of 7 w] by (simp_all add: mask_eq_exp_minus_1)

lemma unat_portions' [simp]: "unat ((w :: i64) AND - 256) = unat w div 256 * 256" "unat ((w :: i64) AND - 128) = unat w div 128 * 128"
  using unat_portions [of w] by simp_all

lemma unat_offset: "unat (a :: i64) + k < 2 ^ 64 \<Longrightarrow> unat (a + of_nat k) = unat a + k"
  using unat_word_ariths(1) [of a "of_nat k"] unat64 [of k] by simp

text \<open>Two runs one of which ends before the other one begins.\<close>

lemma copyable_apart:
  assumes "unat d + n \<le> unat s \<or> unat s + n \<le> unat d" "unat d + n \<le> 2 ^ 64" "unat s + n \<le> 2 ^ 64"
    "\<And>k. k < n \<Longrightarrow> d + of_nat k \<in> dom m \<and> s + of_nat k \<in> dom m"
  shows "copyable (seg d s n) m"
proof -
  have "d + of_nat j \<noteq> s + of_nat k" if "j < n" "k < n" for j k
  proof
    assume "d + of_nat j = s + of_nat k"
    then have "unat (d + of_nat j) = unat (s + of_nat k)" by simp
    then have "unat d + j = unat s + k" using that assms(2,3) by (simp add: unat_offset)
    then show False using that assms(1) by auto
  qed
  then show ?thesis using assms(4) by (auto simp: copyable_def allocated_def noalias_def seg_def)
qed

section \<open>Moving registers\<close>

definition load16 :: "bool \<Rightarrow> mem \<Rightarrow> i64 \<Rightarrow> byte list option" where
  "load16 aligned m a = (if aligned \<and> a AND 0xf \<noteq> 0 then None else load_bytes m a 16)"

definition store16 :: "bool \<Rightarrow> mem \<Rightarrow> i64 \<Rightarrow> byte list \<Rightarrow> mem option" where
  "store16 aligned m a x = (if aligned \<and> a AND 0xf \<noteq> 0 then None else store_bytes m a x)"

fun store_registers :: "bool \<Rightarrow> i64 \<Rightarrow> byte list list \<Rightarrow> mem \<Rightarrow> mem option" where
  "store_registers aligned to [] m = Some m"
| "store_registers aligned to (x # xs) m =
     Option.bind (store16 aligned m to x) (store_registers aligned (to + 16) xs)"

text \<open>The first \<open>k\<close> registers are loaded, then all are stored.\<close>

definition move_block :: "bool \<Rightarrow> nat \<Rightarrow> i64 \<Rightarrow> i64 \<Rightarrow> mem \<Rightarrow> mem option" where
  "move_block aligned k from to m =
     Option.bind (those (map (\<lambda>i. load16 aligned m (from + of_nat (16 * i))) [0..<k]))
       (\<lambda>registers. store_registers aligned to registers m)"

lemma store_bytes_append: "store_bytes m a (bs @ cs) = Option.bind (store_bytes m a bs) (\<lambda>m. store_bytes m (a + of_nat (length bs)) cs)"
  by (induction bs arbitrary: m a) (auto simp: algebra_simps split: option.splits)

lemma nibble_add: "unat (take_bit 4 (a + b :: i64)) = (unat a + unat b) mod 16"
proof -
  have "16 dvd (2 :: nat) ^ 64" by simp
  then have "(unat a + unat b) mod 2 ^ 64 mod 16 = (unat a + unat b) mod 16" by (rule mod_mod_cancel)
  then show ?thesis using unat_word_ariths(1) [of a b] by (simp add: unat_take_bit)
qed

lemma aligned_iff: "take_bit 4 (a :: i64) = 0 \<longleftrightarrow> unat a mod 16 = 0"
proof -
  have "take_bit 4 a = 0 \<longleftrightarrow> unat (take_bit 4 a) = 0" by (simp only: unsigned_eq_0_iff)
  then show ?thesis by (simp only: unat_take_bit) simp
qed

lemma aligned_add: "take_bit 4 (a :: i64) = 0 \<Longrightarrow> take_bit 4 (b :: i64) = 0 \<Longrightarrow> take_bit 4 (a + b) = 0"
proof -
  assume "take_bit 4 a = 0" "take_bit 4 b = 0"
  then have "(unat a + unat b) mod 16 = 0" by (simp only: aligned_iff) (simp add: mod_0_imp_dvd)
  then have "unat (take_bit 4 (a + b)) = 0" by (simp only: nibble_add)
  then show ?thesis by (simp only: unsigned_eq_0_iff)
qed

lemma aligned_mult: "take_bit 4 (of_nat (16 * i) :: i64) = 0"
proof -
  have "take_bit 4 (of_nat (16 * i) :: i64) = take_bit 4 (push_bit 4 (of_nat i))" by (simp add: push_bit_eq_mult mult.commute)
  then show ?thesis by (simp only: take_bit_push_bit) simp
qed

lemma aligned_next: "take_bit 4 (a :: i64) = 0 \<Longrightarrow> take_bit 4 (a + 16) = 0"
  using aligned_add [of a 16] aligned_mult [of 1] by simp

lemma store_registers_bytes:
  "\<forall>x \<in> set xs. length x = 16 \<Longrightarrow> (aligned \<Longrightarrow> take_bit 4 to = 0) \<Longrightarrow>
     store_registers aligned to xs m = store_bytes m to (concat xs)"
proof (induction xs arbitrary: to m)
  case (Cons x xs)
  then show ?case using aligned_next [of to]
    by (cases "store_bytes m to x") (auto simp: store16_def and_nibble store_bytes_append)
qed simp

lemma concat_sixteens: "concat (map (\<lambda>i. map (\<lambda>j. f (16 * i + j)) [0..<16]) [0..<k]) = map f [0..<16 * k]" for f :: "nat \<Rightarrow> 'a"
proof (induction k)
  case (Suc k)
  have "map (\<lambda>j. 16 * k + j) [0..<16] = [16 * k..<16 * k + 16]"
    using map_add_upt [of "16 * k" 16] by (simp only: add.commute)
  then have "[0..<16 * Suc k] = [0..<16 * k] @ map (\<lambda>j. 16 * k + j) [0..<16]"
    using upt_add_eq_append [of 0 "16 * k" 16] by (simp only: mult_Suc_right add.commute [of 16] le0)
  moreover have "[0..<Suc k] = [0..<k] @ [k]" by simp
  ultimately show ?case using Suc by (simp only: map_append concat_append list.map concat.simps map_map comp_def append_Nil2)
qed simp

lemma move_block_seg:
  assumes c: "copyable (seg to from (16 * k)) m" and a: "aligned \<Longrightarrow> take_bit 4 from = 0 \<and> take_bit 4 to = 0"
  shows "move_block aligned k from to m = Some (cps (seg to from (16 * k)) m)"
proof -
  let ?b = "\<lambda>j. the (m (from + of_nat j))" let ?rs = "map (\<lambda>i. map (\<lambda>j. ?b (16 * i + j)) [0..<16]) [0..<k]"
  have al: "\<forall>j < 16 * k. from + of_nat j \<in> dom m"
    using c by (auto simp: copyable_def allocated_def seg_def)
  have "load16 aligned m (from + of_nat (16 * i)) = Some (map (\<lambda>j. ?b (16 * i + j)) [0..<16])" if "i < k" for i
  proof -
    have "\<forall>j < 16. from + of_nat (16 * i) + of_nat j \<in> dom m"
    proof (intro allI impI)
      fix j :: nat assume "j < 16"
      then have "16 * i + j < 16 * k" using that by simp
      then show "from + of_nat (16 * i) + of_nat j \<in> dom m" using al by (metis add.assoc of_nat_add)
    qed
    from load_bytes_Some [OF this] show ?thesis
      using a aligned_add [of "from", OF _ aligned_mult [of i]] by (auto simp: load16_def and_nibble algebra_simps)
  qed
  then have "those (map (\<lambda>i. load16 aligned m (from + of_nat (16 * i))) [0..<k]) = Some ?rs"
    by (subst those_Some) auto
  moreover have "store_registers aligned to ?rs m = store_bytes m to (map ?b [0..<16 * k])"
    using a concat_sixteens [of ?b k] by (subst store_registers_bytes) auto
  moreover have "store_bytes m to (map ?b [0..<16 * k]) = Some (cps (seg to from (16 * k)) m)"
    using c al by (intro store_loaded) (auto simp: copyable_def)
  ultimately show ?thesis by (simp add: move_block_def)
qed

section \<open>sse\_memcpy\<close>

text \<open>
  Portions of 256 bytes.  The int \<open>i\<close> is compared with a size\_t, which makes it unsigned.
\<close>

function copy_portions :: "bool \<Rightarrow> i64 \<Rightarrow> int \<Rightarrow> i64 \<Rightarrow> i64 \<Rightarrow> mem \<Rightarrow> (i64 \<times> i64 \<times> mem) option" where
  "copy_portions aligned len i from to m =
     (if word_of_int i < len AND NOT 0xff
      then Option.bind (move_block aligned 16 from to m) (\<lambda>m.
        if 2 ^ 31 \<le> i + 256 then None else copy_portions aligned len (i + 256) (from + 256) (to + 256) m)
      else Some (from, to, m))"
  by pat_completeness auto

termination
  by (relation "measure (\<lambda>(aligned, len, i, _). nat (2 ^ 31 - i))") auto

declare copy_portions.simps [simp del]

text \<open>When both addresses are equally aligned, a first chunk makes them multiples of 16.\<close>

definition align_chunk :: "i64 \<Rightarrow> i64 \<Rightarrow> i64 \<Rightarrow> mem \<Rightarrow> (i64 \<times> i64 \<times> i64 \<times> mem) option" where
  "align_chunk to from len m =
     (if from AND 0xf \<noteq> 0
      then let chunk = (ucast (0x10 - (from AND 0xf)) :: byte)
           in map_option (\<lambda>m. (to + ucast chunk, from + ucast chunk, len - ucast chunk, m)) (mem_copy m to from (unat chunk))
      else Some (to, from, len, m))"

definition trailer :: "i64 \<Rightarrow> i64 \<Rightarrow> i64 \<times> i64 \<times> mem \<Rightarrow> (i64 \<times> mem) option" where
  "trailer p len r = (case r of (from, to, m) \<Rightarrow> map_option (Pair p) (mem_copy m to from (unat (len AND 0xff))))"

definition sse_memcpy :: "i64 \<Rightarrow> i64 \<Rightarrow> i64 \<Rightarrow> mem \<Rightarrow> (i64 \<times> mem) option" where
  "sse_memcpy to from len m =
     (if (from XOR to) AND 0xf \<noteq> 0
      then Option.bind (copy_portions False len 0 from to m) (trailer to len)
      else Option.bind (align_chunk to from len m) (\<lambda>(to', from', len, m).
        Option.bind (copy_portions True len 0 from' to' m) (trailer to len)))"

lemma copy_portions_seg:
  assumes "copyable (seg to from (k * 256)) m" "unat len div 256 = n" "n < 2 ^ 23" "k \<le> n"
    "aligned \<Longrightarrow> take_bit 4 from = 0 \<and> take_bit 4 to = 0"
  shows "copy_portions aligned len (int (n - k) * 256) from to m =
    Some (from + of_nat (k * 256), to + of_nat (k * 256), cps (seg to from (k * 256)) m)"
  using assms
proof (induction k arbitrary: "from" to m)
  case 0
  have "unat (word_of_int (int n * 256) :: i64) = n * 256"
    using unat64 [of "n * 256"] 0(3) by simp
  then have "\<not> (word_of_int (int n * 256) :: i64) < len AND NOT 0xff"
    using 0(2) by (simp add: word_less_nat_alt)
  then show ?case by (subst copy_portions.simps) simp
next
  case (Suc k)
  let ?i = "int (n - Suc k) * 256"
  have "unat (word_of_int ?i :: i64) = (n - Suc k) * 256"
    using unat64 [of "(n - Suc k) * 256"] Suc.prems(3) by simp
  then have l: "(word_of_int ?i :: i64) < len AND NOT 0xff"
    using Suc.prems(2,4) by (simp add: word_less_nat_alt)
  have i: "?i + 256 = int (n - k) * 256" "?i + 256 < 2 ^ 31" using Suc.prems(3,4) by auto
  have c: "copyable (seg to from 256) m" "copyable (seg (to + 256) (from + 256) (k * 256)) (cps (seg to from 256) m)"
    using copyable_seg_add [of to "from" 256 "k * 256" m] Suc.prems(1) by (simp_all add: add.commute)
  have mv: "move_block aligned 16 from to m = Some (cps (seg to from 256) m)"
    using move_block_seg [of to "from" 16 m aligned] c(1) Suc.prems(5) by simp
  have "copy_portions aligned len (?i + 256) (from + 256) (to + 256) (cps (seg to from 256) m) =
      Some (from + 256 + of_nat (k * 256), to + 256 + of_nat (k * 256),
        cps (seg (to + 256) (from + 256) (k * 256)) (cps (seg to from 256) m))"
    unfolding i(1) using Suc.prems(2-5) aligned_add [OF _ aligned_mult [of 16]] by (intro Suc.IH c(2)) auto
  then show ?case using l mv i(2) cps_seg_add [of to 256 "from" "k * 256" m]
    by (subst copy_portions.simps) (simp add: algebra_simps)
qed

lemma portions_trailer:
  assumes "copyable (seg to from (unat len)) m" "unat len < 2 ^ 31" "aligned \<Longrightarrow> take_bit 4 from = 0 \<and> take_bit 4 to = 0"
  shows "Option.bind (copy_portions aligned len 0 from to m) (trailer p len) = Some (p, cps (seg to from (unat len)) m)"
proof -
  let ?n = "unat len div 256" let ?k = "?n * 256"
  have s: "unat len = ?k + unat len mod 256" and n: "?n < 2 ^ 23" using assms(2) by auto
  have c: "copyable (seg to from ?k) m" "copyable (seg (to + of_nat ?k) (from + of_nat ?k) (unat len mod 256)) (cps (seg to from ?k) m)"
    using copyable_seg_add [of to "from" ?k "unat len mod 256" m] assms(1) s by simp_all
  have r: "unat (len AND 0xff) = unat len mod 256" unfolding and_nibble(2) unat_take_bit by simp
  have "copy_portions aligned len 0 from to m = Some (from + of_nat ?k, to + of_nat ?k, cps (seg to from ?k) m)"
    using copy_portions_seg [OF c(1) refl n order.refl assms(3)] by simp
  moreover have "mem_copy (cps (seg to from ?k) m) (to + of_nat ?k) (from + of_nat ?k) (unat len mod 256) =
      Some (cps (seg to from (unat len)) m)"
    using mem_copy_seg [OF c(2)] cps_seg_add [of to ?k "from" "unat len mod 256" m] s by simp
  ultimately show ?thesis by (simp only: bind.simps trailer_def prod.case r) simp
qed

lemma equally_aligned: "(a XOR b) AND 0xf = 0 \<longleftrightarrow> take_bit 4 a = take_bit 4 (b :: i64)"
proof -
  have "x XOR y = 0 \<longleftrightarrow> x = y" for x y :: i64 by (metis xor.assoc xor.right_neutral xor_self_eq xor.commute)
  then show ?thesis unfolding and_nibble(1) take_bit_xor by auto
qed

lemma unat_ucast_byte: "unat (ucast (b :: byte) :: i64) = unat b"
  by (simp add: unsigned_ucast_eq take_bit_nat_eq_self unsigned_less [THEN less_le_trans])

lemma chunk_length:
  assumes "(from :: i64) AND 0xf \<noteq> 0"
  shows "unat (ucast (0x10 - (from AND 0xf)) :: byte) = 16 - unat (from AND 0xf)" "unat (from AND 0xf) \<in> {1..15}"
proof -
  let ?x = "from AND 0xf"
  have "unat ?x < 16" unfolding and_nibble(1) unat_take_bit by simp
  moreover have "unat ?x \<noteq> 0" using assms by (simp only: unsigned_eq_0_iff not_False_eq_True)
  ultimately show x: "unat ?x \<in> {1..15}" by simp
  then have "?x \<le> 0x10" by (simp add: word_le_nat_alt)
  then have "unat (0x10 - ?x) = 16 - unat ?x" by (simp add: unat_sub)
  then show "unat (ucast (0x10 - ?x) :: byte) = 16 - unat ?x"
    using x by (simp add: unsigned_ucast_eq take_bit_nat_eq_self)
qed

lemma chunk_aligns:
  assumes "(from :: i64) AND 0xf \<noteq> 0" "take_bit 4 to = take_bit 4 from"
  shows "take_bit 4 (to + of_nat (16 - unat (from AND 0xf))) = 0"
proof -
  let ?x = "unat (from AND 0xf)"
  have x: "?x \<in> {1..15}" by (rule chunk_length(2) [OF assms(1)])
  have "unat to mod 16 = ?x" using arg_cong [OF assms(2), of unat] unfolding and_nibble(1) unat_take_bit by simp
  moreover have "unat (of_nat (16 - ?x) :: i64) = 16 - ?x" using x by (intro unat64) auto
  ultimately have "unat (take_bit 4 (to + of_nat (16 - ?x))) = (?x + (16 - ?x)) mod 16"
    unfolding nibble_add by (metis mod_add_left_eq)
  then have "unat (take_bit 4 (to + of_nat (16 - ?x))) = 0" using x by simp
  then show ?thesis by (simp only: unsigned_eq_0_iff)
qed

lemma align_chunk_seg:
  assumes "from AND 0xf \<noteq> 0" "16 - unat (from AND 0xf) \<le> unat len" "copyable (seg to from (unat len)) m"
  defines "c \<equiv> 16 - unat (from AND 0xf)"
  obtains l where "align_chunk to from len m = Some (to + of_nat c, from + of_nat c, l, cps (seg to from c) m)"
    "unat len = c + unat l"
proof -
  let ?c = "ucast (ucast (0x10 - (from AND 0xf)) :: byte) :: i64"
  have u: "unat ?c = c" unfolding c_def chunk_length(1) [OF assms(1), symmetric] by (rule unat_ucast_byte)
  have "of_nat (unat x) = x" for x :: i64 by simp
  from this [of ?c] have w: "?c = of_nat c" unfolding u by (rule sym)
  have "?c \<le> len" using u assms(2) by (simp add: word_le_nat_alt c_def)
  then have l: "unat len = c + unat (len - ?c)" using u by (simp add: unat_sub c_def assms(2))
  have "copyable (seg to from c) m" using copyable_seg_add [of to "from" c "unat (len - ?c)" m] assms(3) l by simp
  then have "align_chunk to from len m = Some (to + of_nat c, from + of_nat c, len - ?c, cps (seg to from c) m)"
    using assms(1) chunk_length(1) [OF assms(1)] mem_copy_seg [of to "from" c m]
    by (simp add: align_chunk_def Let_def w [symmetric] c_def [symmetric])
  then show ?thesis using that l by blast
qed

text \<open>
  C21: sse\_memcpy returns its first argument and does what memcpy does, for less than 2 GB
  between two buffers that share no byte, as long as the chunk up to the next multiple of 16
  is not longer than the buffers.
\<close>

theorem sse_memcpy_is_memcpy:
  assumes "copyable (seg to from (unat len)) m" "unat len < 2 ^ 31"
    and "(from XOR to) AND 0xf \<noteq> 0 \<or> from AND 0xf = 0 \<or> 16 - unat (from AND 0xf) \<le> unat len"
  shows "sse_memcpy to from len m = map_option (Pair to) (mem_copy m to from (unat len)) \<and>
    mem_copy m to from (unat len) \<noteq> None"
proof -
  have x: "(from XOR to) AND 0xf = 0 \<longleftrightarrow> take_bit 4 to = take_bit 4 from"
    using equally_aligned [of "from" to] by auto
  have "sse_memcpy to from len m = Some (to, cps (seg to from (unat len)) m)"
  proof (cases "(from XOR to) AND 0xf = 0 \<and> from AND 0xf \<noteq> 0")
    case True
    let ?c = "16 - unat (from AND 0xf)"
    obtain l where l: "align_chunk to from len m = Some (to + of_nat ?c, from + of_nat ?c, l, cps (seg to from ?c) m)"
      "unat len = ?c + unat l" using True assms(3) by (auto intro: align_chunk_seg [OF _ _ assms(1)])
    have "copyable (seg (to + of_nat ?c) (from + of_nat ?c) (unat l)) (cps (seg to from ?c) m)"
      using copyable_seg_add [of to "from" ?c "unat l" m] assms(1) l(2) by simp
    moreover have "take_bit 4 (from + of_nat ?c) = 0" "take_bit 4 (to + of_nat ?c) = 0"
      using True x by (auto intro: chunk_aligns)
    ultimately show ?thesis using True l assms(2) cps_seg_add [of to ?c "from" "unat l" m]
      by (simp add: sse_memcpy_def portions_trailer)
  next
    case False
    then show ?thesis using assms(1,2) x portions_trailer [OF assms(1,2)]
      by (auto simp: sse_memcpy_def align_chunk_def and_nibble)
  qed
  then show ?thesis using mem_copy_seg [OF assms(1)] by simp
qed

definition ex_line :: mem where
  "ex_line a = (if a < 600 then Some (ucast a) else None)"

theorem sse_memcpy_is_memcpy_witness:
  "\<exists>m. sse_memcpy 69 5 40 ex_line = Some (69, m) \<and> mem_copy ex_line 69 5 40 = Some m"
proof -
  have "copyable (seg 69 5 (unat (40 :: i64))) ex_line" by code_simp
  then show ?thesis using sse_memcpy_is_memcpy [of 69 5 40 ex_line] by auto
qed

lemma copy_portions_long:
  "2 ^ 31 \<le> unat (len AND - 256) \<Longrightarrow> 0 \<le> i \<Longrightarrow> i < 2 ^ 31 \<Longrightarrow> copy_portions aligned len i from to m = None"
proof (induction aligned len i "from" to m rule: copy_portions.induct)
  case (1 aligned len i "from" to m)
  have "unat (word_of_int i :: i64) = nat i" using 1(3,4) unat64 [of "nat i"] by simp
  then have l: "word_of_int i < len AND NOT 0xff" using 1(2,4) unfolding word_less_nat_alt by (simp add: nat_less_iff)
  show ?case
  proof (cases "move_block aligned 16 from to m")
    case (Some m')
    then have "\<not> 2 ^ 31 \<le> i + 256 \<Longrightarrow> copy_portions aligned len (i + 256) (from + 256) (to + 256) m' = None"
      using 1(2,3) by (intro 1(1) [OF l, of m']) auto
    then show ?thesis using Some l by (subst copy_portions.simps) simp
  qed (subst copy_portions.simps, use l in simp)
qed

text \<open>
  C33: With equally aligned buffers that are shorter than the chunk up to the next multiple of
  16, sse\_memcpy has no result, in whatever memory: the chunk is copied in full, the rest of the
  length wraps around, and the loop overflows its int if no access faults before.
\<close>

theorem sse_memcpy_short_fails:
  assumes "(from XOR to) AND 0xf = 0" "from AND 0xf \<noteq> 0" "unat len < 16 - unat (from AND 0xf)"
  shows "sse_memcpy to from len m = None"
proof -
  let ?b = "ucast (0x10 - (from AND 0xf)) :: byte"
  have b: "unat ?b \<le> 15" "unat len < unat ?b" using chunk_length [OF assms(2)] assms(3) by auto
  have "unat (len - ucast ?b) = 2 ^ 64 + unat len - unat ?b"
    using b unat_ucast_byte [of ?b] by (subst unat_sub_if') (simp only:, simp)
  then have "2 ^ 31 \<le> unat ((len - ucast ?b) AND - 256)" using b by simp
  then have "copy_portions True (len - ucast ?b) 0 from' to' m' = None" for from' to' m'
    by (rule copy_portions_long) auto
  then show ?thesis using assms(1,2)
    by (cases "mem_copy m to from (unat ?b)") (auto simp: sse_memcpy_def align_chunk_def Let_def)
qed

theorem sse_memcpy_short_fails_witness: "sse_memcpy 69 5 4 ex_line = None \<and> mem_copy ex_line 69 5 4 \<noteq> None"
proof -
  have "copyable (seg 69 5 4) ex_line" by code_simp
  then have "mem_copy ex_line 69 5 4 \<noteq> None" by (simp only: mem_copy_seg) simp
  then show ?thesis using sse_memcpy_short_fails [of 5 69 4 ex_line] by simp
qed

section \<open>memcpy2\<close>

text \<open>
  The loop in assembly over blocks of 128 bytes, with its counter in rbx and the addresses in
  rsi and rdi.  The statements are taken to keep the registers they hand to each other.
\<close>

function loop_copy :: "i64 \<Rightarrow> i64 \<Rightarrow> i64 \<Rightarrow> mem \<Rightarrow> mem option" where
  "loop_copy rbx rsi rdi m =
     Option.bind (move_block True 8 rsi rdi m) (\<lambda>m.
       if rbx - 1 = 0 then Some m else loop_copy (rbx - 1) (rsi + 128) (rdi + 128) m)"
  by pat_completeness auto

termination
proof (relation "measure (\<lambda>(rbx, _). if rbx = 0 then 2 ^ 64 else unat rbx)")
  fix rbx rsi rdi :: i64 and m m' :: mem
  assume "rbx - 1 \<noteq> 0"
  then show "((rbx - 1, rsi + 128, rdi + 128, m'), rbx, rsi, rdi, m) \<in> measure (\<lambda>(rbx, _). if rbx = 0 then 2 ^ 64 else unat rbx)"
    using unsigned_less [of "rbx - 1"] by (auto simp: unat_minus_one unat_gt_0 intro!: diff_less)
qed simp

declare loop_copy.simps [simp del]

definition memcpy2 :: "i64 \<Rightarrow> i64 \<Rightarrow> i64 \<Rightarrow> mem \<Rightarrow> mem option" where
  "memcpy2 dest src n m =
     (let size1 = (0x10 - (dest AND 0xf)) AND 0xf;
          size2 = (if (dest XOR src) AND 0xf = 0 then (n - size1) AND NOT 0x7F else 0)
      in if size2 \<noteq> 0
         then Option.bind (if size1 \<noteq> 0 then mem_copy m dest src (unat size1) else Some m) (\<lambda>m.
           Option.bind (loop_copy (drop_bit 7 size2) (src + size1) (dest + size1) m) (\<lambda>m.
             let size3 = n - size2 - size1
             in if size3 \<noteq> 0 then mem_copy m (dest + (size1 + size2)) (src + (size1 + size2)) (unat size3) else Some m))
         else mem_copy m dest src (unat n))"

lemma loop_copy_seg:
  assumes "copyable (seg rdi rsi (Suc k * 128)) m" "Suc k < 2 ^ 57" "take_bit 4 rsi = 0" "take_bit 4 rdi = 0"
  shows "loop_copy (of_nat (Suc k)) rsi rdi m = Some (cps (seg rdi rsi (Suc k * 128)) m)"
  using assms
proof (induction k arbitrary: rsi rdi m)
  case 0
  then show ?case using move_block_seg [of rdi rsi 8 m True] by (subst loop_copy.simps) simp
next
  case (Suc k)
  have c: "copyable (seg rdi rsi 128) m" "copyable (seg (rdi + 128) (rsi + 128) (Suc k * 128)) (cps (seg rdi rsi 128) m)"
    using copyable_seg_add [of rdi rsi 128 "Suc k * 128" m] Suc.prems(1) by (simp_all add: add.commute)
  have mv: "move_block True 8 rsi rdi m = Some (cps (seg rdi rsi 128) m)"
    using move_block_seg [of rdi rsi 8 m True] c(1) Suc.prems(3,4) by simp
  have n: "of_nat (Suc (Suc k)) - 1 = (of_nat (Suc k) :: i64)" by simp
  have "(of_nat (Suc k) :: i64) \<noteq> 0" using Suc.prems(2) of_nat_eq_64 [of "Suc k" 0] by (simp del: of_nat_Suc)
  moreover have "loop_copy (of_nat (Suc k)) (rsi + 128) (rdi + 128) (cps (seg rdi rsi 128) m) =
      Some (cps (seg (rdi + 128) (rsi + 128) (Suc k * 128)) (cps (seg rdi rsi 128) m))"
    using Suc.prems(2-4) aligned_add [OF _ aligned_mult [of 8]] by (intro Suc.IH c(2)) auto
  ultimately show ?case using mv cps_seg_add [of rdi 128 rsi "Suc k * 128" m]
    by (subst loop_copy.simps) (simp add: n add.commute del: of_nat_Suc)
qed

lemma pad_aligns:
  assumes "take_bit 4 a = take_bit 4 (dest :: i64)"
  shows "take_bit 4 (a + ((0x10 - (dest AND 0xf)) AND 0xf)) = 0"
proof -
  have m: "unat (dest AND 0xf) = unat dest mod 16" "unat a mod 16 = unat dest mod 16"
    using arg_cong [OF assms, of unat] unfolding and_nibble(1) unat_take_bit by simp_all
  then have "unat (0x10 - (dest AND 0xf)) = 16 - unat dest mod 16" by (subst unat_sub) (simp_all add: word_le_nat_alt)
  then have "unat ((0x10 - (dest AND 0xf)) AND 0xf) = (16 - unat dest mod 16) mod 16"
    by (subst and_nibble(1)) (simp only: unat_take_bit, simp)
  then have "unat (take_bit 4 (a + ((0x10 - (dest AND 0xf)) AND 0xf))) = (unat a mod 16 + (16 - unat dest mod 16) mod 16) mod 16"
    unfolding nibble_add by (simp only: mod_add_left_eq)
  also have "\<dots> = (unat dest mod 16 + (16 - unat dest mod 16)) mod 16" unfolding m(2) by (rule mod_add_right_eq)
  also have "\<dots> = 0" by simp
  finally show ?thesis by (simp only: unsigned_eq_0_iff)
qed

lemma mem_copy_part:
  assumes "copyable (seg d s (unat w)) m"
  shows "(if w \<noteq> 0 then mem_copy m d s (unat w) else Some m) = Some (cps (seg d s (unat w)) m)"
  using assms by (simp add: mem_copy_seg)

text \<open>
  C26: memcpy2 does what memcpy does between two buffers that share no byte, as long as the
  bytes up to the next multiple of 16 are not more than the buffers have.
\<close>

theorem memcpy2_is_memcpy:
  assumes c: "copyable (seg dest src (unat n)) m"
    and "(dest XOR src) AND 0xf \<noteq> 0 \<or> unat ((0x10 - (dest AND 0xf)) AND 0xf) \<le> unat n"
  shows "memcpy2 dest src n m = mem_copy m dest src (unat n) \<and> mem_copy m dest src (unat n) \<noteq> None"
proof -
  define size1 where "size1 = (0x10 - (dest AND 0xf)) AND 0xf"
  define size2 where "size2 = (n - size1) AND NOT 0x7f"
  let ?k = "(unat n - unat size1) div 128"
  have "memcpy2 dest src n m = Some (cps (seg dest src (unat n)) m)"
  proof (cases "(dest XOR src) AND 0xf = 0 \<and> size2 \<noteq> 0")
    case True
    then have le: "unat size1 \<le> unat n" and al: "take_bit 4 dest = take_bit 4 src"
      using assms(2) by (auto simp: size1_def equally_aligned)
    then have "unat (n - size1) = unat n - unat size1" by (simp add: unat_sub word_le_nat_alt)
    then have s2: "unat size2 = ?k * 128" unfolding size2_def unat_portions(2) by simp
    have "unat size2 \<noteq> 0" using True by (simp only: unsigned_eq_0_iff not_False_eq_True)
    then have k0: "?k \<noteq> 0" unfolding s2 by simp
    have "unat size2 < 2 ^ 64" using unsigned_less [of size2] by simp
    then have "?k < 2 ^ 57" unfolding s2 by simp
    with k0 have k: "?k = Suc (?k - 1)" "Suc (?k - 1) < 2 ^ 57" by simp_all
    have w: "of_nat (unat x) = x" for x :: i64 by simp
    have "unat (drop_bit 7 size2) = ?k" unfolding unat_drop_bit s2 by simp
    then have d: "drop_bit 7 size2 = of_nat (Suc (?k - 1))" using w [of "drop_bit 7 size2"] k(1) by metis
    define size3 where "size3 = n - size2 - size1"
    have b: "unat size2 \<le> unat n - unat size1" unfolding s2 by simp
    then have s: "unat n = unat size1 + (unat size2 + unat size3)"
      unfolding size3_def using le by (simp add: unat_sub word_le_nat_alt)
    let ?m1 = "cps (seg dest src (unat size1)) m" let ?m2 = "cps (seg (dest + size1) (src + size1) (unat size2)) ?m1"
    have c1: "copyable (seg dest src (unat size1)) m" "copyable (seg (dest + size1) (src + size1) (unat size2 + unat size3)) ?m1"
      using copyable_seg_add [of dest src "unat size1" "unat size2 + unat size3" m] c unfolding s by simp_all
    have c2: "copyable (seg (dest + size1) (src + size1) (unat size2)) ?m1"
      "copyable (seg (dest + (size1 + size2)) (src + (size1 + size2)) (unat size3)) ?m2"
      using copyable_seg_add [of "dest + size1" "src + size1" "unat size2" "unat size3"] c1(2) by (simp_all add: add.assoc)
    have "loop_copy (drop_bit 7 size2) (src + size1) (dest + size1) ?m1 = Some ?m2"
      using c2(1) k al unfolding d s2 size1_def
      by (metis loop_copy_seg pad_aligns)
    moreover have "memcpy2 dest src n m = Option.bind (if size1 \<noteq> 0 then mem_copy m dest src (unat size1) else Some m) (\<lambda>m.
        Option.bind (loop_copy (drop_bit 7 size2) (src + size1) (dest + size1) m) (\<lambda>m.
          if size3 \<noteq> 0 then mem_copy m (dest + (size1 + size2)) (src + (size1 + size2)) (unat size3) else Some m))"
      using True unfolding memcpy2_def size3_def size2_def size1_def Let_def by simp
    ultimately have "memcpy2 dest src n m = Some (cps (seg (dest + (size1 + size2)) (src + (size1 + size2)) (unat size3)) ?m2)"
      by (simp only: bind.simps mem_copy_part [OF c1(1)] mem_copy_part [OF c2(2)])
    then show ?thesis
      using cps_seg_add [of dest "unat size1" src "unat size2 + unat size3" m]
        cps_seg_add [of "dest + size1" "unat size2" "src + size1" "unat size3" ?m1]
      by (simp add: s add.assoc)
  next
    case False
    then have "memcpy2 dest src n m = mem_copy m dest src (unat n)"
      unfolding memcpy2_def size2_def size1_def Let_def by (cases "(dest XOR src) AND 0xf = 0") simp_all
    then show ?thesis by (simp only: mem_copy_seg [OF c])
  qed
  then show ?thesis by (simp add: mem_copy_seg [OF c])
qed

theorem memcpy2_is_memcpy_witness:
  "\<exists>m. memcpy2 168 8 140 ex_line = Some m \<and> mem_copy ex_line 168 8 140 = Some m"
proof -
  have "copyable (seg 168 8 (unat (140 :: i64))) ex_line"
    by (rule copyable_apart) (simp_all add: ex_line_def domIff word_less_nat_alt unat_offset)
  then show ?thesis using memcpy2_is_memcpy [of 168 8 140 ex_line] by auto
qed

end
