(* ===== verification/Copy_Runs.thy ===== *)
theory Copy_Runs
  imports Copy_Benchmark
begin

text \<open>
  What copy\_benchmark.c does for one size: prep\_benchmarks makes the two buffers, every copy
  routine runs 25 times on them, fin\_benchmarks frees them.  memalign and rand of the C library
  are parameters: \<open>A\<close> gives the address and the contents of a new block, \<open>R\<close> the
  values of the calls of rand in a row.
\<close>

section \<open>The operations\<close>

record heap =
  blocks :: "i64 \<rightharpoonup> nat"
  heap_mem :: mem

text \<open>
  The loops over an int \<open>i\<close> that is compared with a size\_t.  \<open>ahead\<close> is the distance of the
  prefetch instructions, whose addresses are computed with \<open>i + ahead\<close>.
\<close>

function assign_bytes :: "int \<Rightarrow> i64 \<Rightarrow> int \<Rightarrow> i64 \<Rightarrow> i64 \<Rightarrow> mem \<Rightarrow> mem option" where
  "assign_bytes ahead sz i src dst m =
     (if word_of_int i < sz then
        (case (m (src + word_of_int i), m (dst + word_of_int i)) of
           (Some b, Some _) \<Rightarrow>
             if 2 ^ 31 \<le> i + 1 \<or> 2 ^ 31 \<le> i + ahead then None
             else assign_bytes ahead sz (i + 1) src dst (m(dst + word_of_int i \<mapsto> b))
         | _ \<Rightarrow> None)
      else Some m)"
  by pat_completeness auto

termination
  by (relation "measure (\<lambda>(ahead, sz, i, _). nat (2 ^ 31 - i))") auto

function fill_bytes :: "(int \<Rightarrow> byte) \<Rightarrow> i64 \<Rightarrow> int \<Rightarrow> i64 \<Rightarrow> mem \<Rightarrow> mem option" where
  "fill_bytes value sz i a m =
     (if word_of_int i < sz then
        (case m (a + word_of_int i) of
           Some _ \<Rightarrow> if 2 ^ 31 \<le> i + 1 then None else fill_bytes value sz (i + 1) a (m(a + word_of_int i \<mapsto> value i))
         | None \<Rightarrow> None)
      else Some m)"
  by pat_completeness auto

termination
  by (relation "measure (\<lambda>(value, sz, i, _). nat (2 ^ 31 - i))") auto

declare assign_bytes.simps [simp del] fill_bytes.simps [simp del]

definition assignment_benchmark :: "i64 \<Rightarrow> i64 \<Rightarrow> i64 \<Rightarrow> mem \<Rightarrow> mem option" where
  "assignment_benchmark sz src dst m = assign_bytes 0 sz 0 src dst m"

definition memcpy_benchmark :: "i64 \<Rightarrow> i64 \<Rightarrow> i64 \<Rightarrow> mem \<Rightarrow> mem option" where
  "memcpy_benchmark sz src dst m = mem_copy m dst src (unat sz)"

definition prefetch_benchmark :: "i64 \<Rightarrow> i64 \<Rightarrow> i64 \<Rightarrow> mem \<Rightarrow> mem option" where
  "prefetch_benchmark sz src dst m = assign_bytes 32 sz 0 src dst m"

definition sse_benchmark :: "i64 \<Rightarrow> i64 \<Rightarrow> i64 \<Rightarrow> mem \<Rightarrow> mem option" where
  "sse_benchmark sz src dst m = map_option snd (sse_memcpy dst src sz m)"

definition c_memalign :: "(i64 \<Rightarrow> i64 \<Rightarrow> mem \<Rightarrow> i64 \<times> byte list) \<Rightarrow> i64 \<Rightarrow> i64 \<Rightarrow> heap \<Rightarrow> i64 \<times> heap" where
  "c_memalign A alignment sz h = (let (a, bs) = A alignment sz (heap_mem h)
     in (a, \<lparr>blocks = (blocks h)(a \<mapsto> length bs),
             heap_mem = (\<lambda>x. if unat (x - a) < length bs then Some (bs ! unat (x - a)) else heap_mem h x)\<rparr>))"

definition heap_free :: "i64 \<Rightarrow> heap \<Rightarrow> heap option" where
  "heap_free a h = (if a = 0 then Some h else case blocks h a of None \<Rightarrow> None | Some n \<Rightarrow>
     Some \<lparr>blocks = (blocks h)(a := None), heap_mem = (\<lambda>x. if unat (x - a) < n then None else heap_mem h x)\<rparr>)"

text \<open>The asserts test the addresses of the parameters, which are never NULL.\<close>

definition prep_benchmarks :: "(i64 \<Rightarrow> i64 \<Rightarrow> mem \<Rightarrow> i64 \<times> byte list) \<Rightarrow> (int \<Rightarrow> int) \<Rightarrow> i64 \<Rightarrow> heap \<Rightarrow> (i64 \<times> i64 \<times> heap) option" where
  "prep_benchmarks A R sz h =
     (let (src, h) = c_memalign A 128 sz h; (dst, h) = c_memalign A 128 sz h
      in Option.bind (fill_bytes (\<lambda>i. word_of_int (R i mod 42)) sz 0 src (heap_mem h)) (\<lambda>m.
         Option.bind (fill_bytes (\<lambda>_. 1) sz 0 dst m) (\<lambda>m. Some (src, dst, h\<lparr>heap_mem := m\<rparr>))))"

fun sum_bytes :: "mem \<Rightarrow> i64 \<Rightarrow> nat list \<Rightarrow> i64 \<Rightarrow> i64 option" where
  "sum_bytes m a [] res = Some res"
| "sum_bytes m a (i # is) res = (case m (a + of_nat i) of None \<Rightarrow> None | Some b \<Rightarrow> sum_bytes m a is (res + scast b))"

definition fin_benchmarks :: "int \<Rightarrow> i64 \<Rightarrow> i64 \<Rightarrow> heap \<Rightarrow> heap option" where
  "fin_benchmarks sz src dst h =
     Option.bind (heap_free src h) (\<lambda>h. Option.bind (heap_free dst h) (\<lambda>h.
       map_option (\<lambda>res. h) (sum_bytes (heap_mem h) dst [0..<nat sz] 0)))"

fun runs :: "nat \<Rightarrow> (mem \<Rightarrow> mem option) \<Rightarrow> mem \<Rightarrow> mem option" where
  "runs 0 copy m = Some m"
| "runs (Suc k) copy m = Option.bind (copy m) (runs k copy)"

definition run_benchmarks :: "i64 \<Rightarrow> i64 \<Rightarrow> i64 \<Rightarrow> mem \<Rightarrow> mem option" where
  "run_benchmarks sz src dst m =
     Option.bind (runs 25 (assignment_benchmark sz src dst) m) (\<lambda>m.
     Option.bind (runs 25 (memcpy_benchmark sz src dst) m) (\<lambda>m.
     Option.bind (runs 25 (prefetch_benchmark sz src dst) m) (runs 25 (sse_benchmark sz src dst))))"

section \<open>The loops are copies\<close>

lemma counted: "unat sz \<le> 2 ^ 31 \<Longrightarrow> k \<le> unat sz \<Longrightarrow> (word_of_int (int k) :: i64) < sz \<longleftrightarrow> k < unat sz"
  using unat64 [of k] by (simp add: word_less_nat_alt)

lemma assign_bytes_seg:
  assumes "copyable (seg (dst + of_nat k) (src + of_nat k) j) m" "k + j = unat sz" "unat sz \<le> 2 ^ 31 - 32" "0 \<le> ahead" "ahead \<le> 32"
  shows "assign_bytes ahead sz (int k) src dst m = Some (cps (seg (dst + of_nat k) (src + of_nat k) j) m)"
  using assms
proof (induction j arbitrary: k m)
  case 0
  then show ?case using counted [of sz k] by (subst assign_bytes.simps) simp
next
  case (Suc j)
  let ?d = "dst + of_nat k" and ?s = "src + of_nat k"
  have sp: "seg ?d ?s (Suc j) = (?d, ?s) # seg (dst + of_nat (Suc k)) (src + of_nat (Suc k)) j"
    using seg_add [of ?d ?s 1 j] by (simp add: seg_def algebra_simps)
  obtain b c where b: "m ?s = Some b" "m ?d = Some c"
    using Suc.prems(1) by (auto simp: sp copyable_def allocated_def)
  have "copyable (seg (dst + of_nat (Suc k)) (src + of_nat (Suc k)) j) (m(?d \<mapsto> b))"
    using copyable_append2 [of "[(?d, ?s)]" _ m] Suc.prems(1) b(1) by (simp add: sp)
  then have "assign_bytes ahead sz (int (Suc k)) src dst (m(?d \<mapsto> b)) =
      Some (cps (seg (dst + of_nat (Suc k)) (src + of_nat (Suc k)) j) (m(?d \<mapsto> b)))"
    by (rule Suc.IH) (use Suc.prems(2-5) in simp_all)
  moreover have "assign_bytes ahead sz (int k) src dst m = assign_bytes ahead sz (int (Suc k)) src dst (m(?d \<mapsto> b))"
    using b Suc.prems(2-5) counted [of sz k] by (subst assign_bytes.simps) (simp add: add.commute)
  ultimately show ?case by (simp only: sp cps.simps b(1))
qed

lemma fill_bytes_values:
  assumes "\<forall>i < unat sz. m (a + of_nat i) \<noteq> None" "k \<le> unat sz" "unat sz < 2 ^ 31"
  shows "fill_bytes value sz (int k) a m =
    Some (\<lambda>x. if k \<le> unat (x - a) \<and> unat (x - a) < unat sz then Some (value (int (unat (x - a)))) else m x)"
  using assms
proof (induction "unat sz - k" arbitrary: k m)
  case 0
  then show ?case using counted [of sz k] by (subst fill_bytes.simps) (auto simp: fun_eq_iff)
next
  case (Suc j)
  let ?m = "m(a + of_nat k \<mapsto> value (int k))"
  have k: "k < unat sz" using Suc.hyps(2) by simp
  obtain c where c: "m (a + of_nat k) = Some c" using Suc.prems(1) k by blast
  have "fill_bytes value sz (int (Suc k)) a ?m =
      Some (\<lambda>x. if Suc k \<le> unat (x - a) \<and> unat (x - a) < unat sz then Some (value (int (unat (x - a)))) else ?m x)"
    using Suc.hyps Suc.prems k by (intro Suc.hyps(1)) auto
  moreover have "fill_bytes value sz (int k) a m = fill_bytes value sz (int (Suc k)) a ?m"
    using c k Suc.prems(3) counted [of sz k] by (subst fill_bytes.simps) (simp add: add.commute)
  moreover have "x - a = of_nat k \<longleftrightarrow> unat (x - a) = k" for x
    unfolding word_unat_eq_iff using unat64 [of k] k Suc.prems(3) by simp
  then have "x = a + of_nat k \<longleftrightarrow> unat (x - a) = k" for x by (metis add_diff_cancel_left' add_diff_cancel_right' diff_add_cancel add.commute)
  ultimately show ?case using k by (auto simp: fun_eq_iff)
qed

section \<open>One size\<close>

text \<open>A new block: it has the size asked for, the alignment, and bytes that were not allocated.\<close>

definition serves :: "(i64 \<Rightarrow> i64 \<Rightarrow> mem \<Rightarrow> i64 \<times> byte list) \<Rightarrow> i64 \<Rightarrow> i64 \<Rightarrow> mem \<Rightarrow> bool" where
  "serves A alignment sz m = (case A alignment sz m of (a, bs) \<Rightarrow>
     length bs = unat sz \<and> unat a mod unat alignment = 0 \<and> list_all (\<lambda>k. m (a + of_nat k) = None) [0..<unat sz])"

lemma offset_back: "k < 2 ^ 64 \<Longrightarrow> unat (a + of_nat k - a :: i64) = k"
  using unat64 [of k] by simp

lemma cps_twice: "noalias L \<Longrightarrow> cps L (cps L m) = cps L m"
proof
  fix d assume na: "noalias L"
  show "cps L (cps L m) d = cps L m d"
  proof (cases "map_of (rev L) d")
    case (Some s)
    then have "(d, s) \<in> set L" by (auto dest: map_of_SomeD)
    then have "s \<in> snd ` set L" by force
    then have "s \<notin> fst ` set L" using na by (auto simp: noalias_def)
    then show ?thesis using Some by (simp add: cps_read [OF na, of _ d] cps_outside)
  qed (simp add: cps_read [OF na, of _ d])
qed

lemma copyable_again: "copyable L m \<Longrightarrow> copyable L (cps L m)"
  by (simp add: copyable_def dom_cps_allocated allocated_cong_dom [of "cps L m" m])

lemma runs_same:
  assumes "\<And>m. copyable L m \<Longrightarrow> copy m = Some (cps L m)" "copyable L m" "0 < k"
  shows "runs k copy m = Some (cps L m)"
  using assms(2,3)
proof (induction k arbitrary: m)
  case (Suc k)
  then show ?case using assms(1) [OF Suc.prems(1)] Suc.IH [OF copyable_again [OF Suc.prems(1)]]
    by (cases k) (auto simp: cps_twice copyable_def)
qed simp

lemma benchmarks_copy:
  assumes "copyable (seg dst src (unat sz)) m" "unat sz \<le> 2 ^ 31 - 32" "take_bit 4 src = 0" "take_bit 4 dst = 0"
  shows "assignment_benchmark sz src dst m = Some (cps (seg dst src (unat sz)) m)"
    "memcpy_benchmark sz src dst m = Some (cps (seg dst src (unat sz)) m)"
    "prefetch_benchmark sz src dst m = Some (cps (seg dst src (unat sz)) m)"
    "sse_benchmark sz src dst m = Some (cps (seg dst src (unat sz)) m)"
proof -
  have "assign_bytes ahead sz 0 src dst m = Some (cps (seg dst src (unat sz)) m)" if "0 \<le> ahead" "ahead \<le> 32" for ahead
    using assign_bytes_seg [of dst 0 src "unat sz" m sz ahead] assms(1,2) that by simp
  then show "assignment_benchmark sz src dst m = Some (cps (seg dst src (unat sz)) m)"
    "prefetch_benchmark sz src dst m = Some (cps (seg dst src (unat sz)) m)"
    by (simp_all add: assignment_benchmark_def prefetch_benchmark_def)
  show "memcpy_benchmark sz src dst m = Some (cps (seg dst src (unat sz)) m)"
    by (simp add: memcpy_benchmark_def mem_copy_seg [OF assms(1)])
  have "Option.bind (copy_portions True sz 0 src dst m) (trailer dst sz) = Some (dst, cps (seg dst src (unat sz)) m)"
    using assms by (intro portions_trailer) auto
  then show "sse_benchmark sz src dst m = Some (cps (seg dst src (unat sz)) m)"
    using assms(3,4) by (simp add: sse_benchmark_def sse_memcpy_def align_chunk_def equally_aligned and_nibble(1))
qed

lemma run_benchmarks_copy:
  assumes "copyable (seg dst src (unat sz)) m" "unat sz \<le> 2 ^ 31 - 32" "take_bit 4 src = 0" "take_bit 4 dst = 0"
  shows "run_benchmarks sz src dst m = Some (cps (seg dst src (unat sz)) m)"
proof -
  let ?L = "seg dst src (unat sz)"
  note same = runs_same [where L = ?L and k = 25, OF benchmarks_copy(1)] runs_same [where L = ?L and k = 25, OF benchmarks_copy(2)]
    runs_same [where L = ?L and k = 25, OF benchmarks_copy(3)] runs_same [where L = ?L and k = 25, OF benchmarks_copy(4)]
  have na: "noalias ?L" using assms(1) by (simp add: copyable_def)
  show ?thesis unfolding run_benchmarks_def
    using same assms copyable_again [OF assms(1)] by (simp add: cps_twice [OF na])
qed

lemma cps_seg_at:
  assumes "copyable (seg d s n) m" "k < n" "n < 2 ^ 64"
  shows "cps (seg d s n) m (d + of_nat k) = m (s + of_nat k)" "cps (seg d s n) m (s + of_nat k) = m (s + of_nat k)"
proof -
  have na: "noalias (seg d s n)" using assms(1) by (simp add: copyable_def)
  have "d + of_nat k \<in> fst ` set (seg d s n)" using assms(2) by (force simp: seg_def)
  then have "map_of (rev (seg d s n)) (d + of_nat k) \<noteq> None" by (simp add: map_of_eq_None_iff)
  then obtain t where t: "map_of (rev (seg d s n)) (d + of_nat k) = Some t" by blast
  then have "(d + of_nat k, t) \<in> set (seg d s n)" by (auto dest: map_of_SomeD)
  then obtain j where j: "j < n" "of_nat k = (of_nat j :: i64)" "t = s + of_nat j" by (auto simp: seg_def)
  then have "t = s + of_nat k" by simp
  then show "cps (seg d s n) m (d + of_nat k) = m (s + of_nat k)" by (simp add: cps_read [OF na] t)
  have "s + of_nat k \<in> snd ` set (seg d s n)" using assms(2) by (force simp: seg_def)
  then show "cps (seg d s n) m (s + of_nat k) = m (s + of_nat k)"
    using na by (intro cps_outside) (auto simp: noalias_def)
qed

text \<open>The memory that prep\_benchmarks makes.\<close>

lemma prep_memory:
  assumes "serves A 128 sz (heap_mem h)" "serves A 128 sz (heap_mem (snd (c_memalign A 128 sz h)))" "unat sz < 2 ^ 31"
  obtains src dst h' where "prep_benchmarks A R sz h = Some (src, dst, h')" "take_bit 4 src = 0" "take_bit 4 dst = 0"
    "copyable (seg dst src (unat sz)) (heap_mem h')" "blocks h' dst = Some (unat sz)"
    "\<And>k. k < unat sz \<Longrightarrow> heap_mem h' (src + of_nat k) = Some (word_of_int (R (int k) mod 42))"
proof -
  let ?n = "unat sz" let ?v = "\<lambda>k. word_of_int (R (int k) mod 42) :: byte"
  obtain src bs where s: "A 128 sz (heap_mem h) = (src, bs)" by force
  define m1 where "m1 = (\<lambda>x. if unat (x - src) < ?n then Some (bs ! unat (x - src)) else heap_mem h x)"
  have a: "length bs = ?n" "unat src mod 128 = 0" using assms(1) by (auto simp: serves_def s)
  have h1: "c_memalign A 128 sz h = (src, \<lparr>blocks = (blocks h)(src \<mapsto> ?n), heap_mem = m1\<rparr>)"
    using a by (simp add: c_memalign_def s m1_def)
  obtain dst cs where d: "A 128 sz m1 = (dst, cs)" by force
  define m2 where "m2 = (\<lambda>x. if unat (x - dst) < ?n then Some (cs ! unat (x - dst)) else m1 x)"
  have b: "length cs = ?n" "unat dst mod 128 = 0" "\<And>k. k < ?n \<Longrightarrow> m1 (dst + of_nat k) = None"
    using assms(2) by (auto simp: serves_def h1 d list_all_iff)
  have h2: "c_memalign A 128 sz \<lparr>blocks = (blocks h)(src \<mapsto> ?n), heap_mem = m1\<rparr> =
      (dst, \<lparr>blocks = (blocks h)(src \<mapsto> ?n, dst \<mapsto> ?n), heap_mem = m2\<rparr>)"
    using b(1) by (simp add: c_memalign_def d m2_def fun_eq_iff)
  have off: "k < ?n \<Longrightarrow> unat (a + of_nat k - a) = k" for a :: i64 and k using assms(3) by (intro offset_back) simp
  have apart: "\<not> unat (dst + of_nat k - src) < ?n" if "k < ?n" for k using b(3) [OF that] by (auto simp: m1_def split: if_splits)
  have ne: "dst + of_nat j \<noteq> src + of_nat k" if "j < ?n" "k < ?n" for j k using apart [OF that(1)] off [OF that(2), of src] that by metis
  have apart': "\<not> unat (src + of_nat k - dst) < ?n" if "k < ?n" for k
  proof
    assume j: "unat (src + of_nat k - dst) < ?n"
    have "dst + of_nat (unat (src + of_nat k - dst)) = src + of_nat k" by simp
    then show False using ne [OF j that] by blast
  qed
  define m3 where "m3 = (\<lambda>x. if unat (x - src) < ?n then Some (?v (unat (x - src))) else m2 x)"
  define m4 where "m4 = (\<lambda>x. if unat (x - dst) < ?n then Some 1 else m3 x)"
  have "fill_bytes (\<lambda>i. word_of_int (R i mod 42)) sz 0 src m2 = Some m3"
    using fill_bytes_values [of sz m2 src 0] assms(3) off apart' by (simp add: m2_def m1_def m3_def)
  moreover have "fill_bytes (\<lambda>_. 1) sz 0 dst m3 = Some m4"
    using fill_bytes_values [of sz m3 dst 0] assms(3) off apart by (simp add: m2_def m3_def m4_def)
  ultimately have "prep_benchmarks A R sz h =
      Some (src, dst, \<lparr>blocks = (blocks h)(src \<mapsto> ?n, dst \<mapsto> ?n), heap_mem = m4\<rparr>)"
    by (simp add: prep_benchmarks_def h1 h2)
  moreover have "take_bit 4 src = 0" "take_bit 4 dst = 0"
    using a(2) b(2) mod_mod_cancel [of 16 128 "unat src"] mod_mod_cancel [of 16 128 "unat dst"]
    unfolding aligned_iff by simp_all
  moreover have "copyable (seg dst src ?n) m4"
    using off apart apart' ne
    by (auto simp: copyable_def allocated_def noalias_def seg_def m4_def m3_def)
  moreover have "m4 (src + of_nat k) = Some (?v k)" if "k < ?n" for k
    using off [OF that] apart' [OF that] that by (simp add: m4_def m3_def)
  ultimately show ?thesis
    by (intro that [of src dst "\<lparr>blocks = (blocks h)(src \<mapsto> ?n, dst \<mapsto> ?n), heap_mem = m4\<rparr>"]) simp_all
qed

text \<open>
  C20: For every size that main uses, with buffers from a memalign that serves them, all copy
  routines and their runs in a row have the same effect: the second buffer gets the bytes
  that rand put into the first one, which keeps them.
\<close>

theorem copies_agree:
  assumes "serves A 128 sz (heap_mem h)" "serves A 128 sz (heap_mem (snd (c_memalign A 128 sz h)))" "unat sz \<le> 2 ^ 31 - 32"
  shows "\<exists>src dst h' m'. prep_benchmarks A R sz h = Some (src, dst, h') \<and> run_benchmarks sz src dst (heap_mem h') = Some m' \<and>
    assignment_benchmark sz src dst (heap_mem h') = Some m' \<and> memcpy_benchmark sz src dst (heap_mem h') = Some m' \<and>
    prefetch_benchmark sz src dst (heap_mem h') = Some m' \<and> sse_benchmark sz src dst (heap_mem h') = Some m' \<and>
    (\<forall>k < unat sz. m' (dst + of_nat k) = Some (word_of_int (R (int k) mod 42)) \<and> m' (src + of_nat k) = m' (dst + of_nat k))"
proof -
  have "unat sz < 2 ^ 31" using assms(3) by simp
  then obtain src dst h' where p: "prep_benchmarks A R sz h = Some (src, dst, h')"
    "take_bit 4 src = 0" "take_bit 4 dst = 0" "copyable (seg dst src (unat sz)) (heap_mem h')"
    "\<And>k. k < unat sz \<Longrightarrow> heap_mem h' (src + of_nat k) = Some (word_of_int (R (int k) mod 42))"
    by (rule prep_memory [OF assms(1,2), of R]) blast
  let ?m = "cps (seg dst src (unat sz)) (heap_mem h')"
  have "unat sz < 2 ^ 64" using assms(3) by simp
  then have "\<forall>k < unat sz. ?m (dst + of_nat k) = Some (word_of_int (R (int k) mod 42)) \<and> ?m (src + of_nat k) = ?m (dst + of_nat k)"
    using cps_seg_at [OF p(4)] p(5) by simp
  then show ?thesis
    using p(1) benchmarks_copy [OF p(4) assms(3) p(2,3)] run_benchmarks_copy [OF p(4) assms(3) p(2,3)] by blast
qed

definition ex_memalign :: "i64 \<Rightarrow> i64 \<Rightarrow> mem \<Rightarrow> i64 \<times> byte list" where
  "ex_memalign alignment sz m = (if m 128 = None then 128 else 256, replicate (unat sz) 0)"

theorem copies_agree_witness:
  "\<exists>src dst h' m'. prep_benchmarks ex_memalign (\<lambda>i. 50 + i) 8 \<lparr>blocks = Map.empty, heap_mem = Map.empty\<rparr> = Some (src, dst, h') \<and>
    run_benchmarks 8 src dst (heap_mem h') = Some m' \<and> m' (dst + 5) = Some 13"
proof -
  let ?h = "\<lparr>blocks = Map.empty, heap_mem = Map.empty\<rparr> :: heap"
  have "serves ex_memalign 128 8 (heap_mem ?h)" "serves ex_memalign 128 8 (heap_mem (snd (c_memalign ex_memalign 128 8 ?h)))"
    by code_simp+
  from copies_agree [OF this, of "\<lambda>i. 50 + i"] obtain src dst h' m' where
    "prep_benchmarks ex_memalign (\<lambda>i. 50 + i) 8 ?h = Some (src, dst, h')" "run_benchmarks 8 src dst (heap_mem h') = Some m'"
    "\<forall>k < unat (8 :: i64). m' (dst + of_nat k) = Some (word_of_int ((50 + int k) mod 42))" by auto
  moreover from this(3) have "5 < unat (8 :: i64) \<longrightarrow> m' (dst + of_nat 5) = Some (word_of_int ((50 + int 5) mod 42))" by blast
  ultimately show ?thesis by auto
qed

text \<open>
  C34: fin\_benchmarks has no defined result: it reads the second buffer after it has freed it.
\<close>

theorem fin_reads_freed:
  assumes "0 < sz" "blocks h dst = Some n" "0 < n" "dst \<noteq> 0"
  shows "fin_benchmarks sz src dst h = None"
proof -
  have "heap_mem h2 dst = None" if h: "heap_free src h = Some h1" "heap_free dst h1 = Some h2" for h1 h2
  proof -
    obtain k where "blocks h1 dst = Some k" "0 < k"
      using h assms(2-4) by (auto simp: heap_free_def split: if_splits option.splits)
    then show ?thesis using h(2) assms(4) by (auto simp: heap_free_def)
  qed
  moreover have "[0..<nat sz] = 0 # [1..<nat sz]" using assms(1) by (simp add: upt_conv_Cons)
  ultimately show ?thesis by (auto simp: fin_benchmarks_def split: Option.bind_splits)
qed

theorem fin_reads_freed_witness:
  "fin_benchmarks 4 128 256 \<lparr>blocks = [128 \<mapsto> 4, 256 \<mapsto> 4], heap_mem = ex_line\<rparr> = None"
  by (rule fin_reads_freed [where n = 4]) simp_all

end
