(* ===== verification/Player_Report.thy ===== *)
theory Player_Report
  imports Limits Copy_Runs Objects
begin

text \<open>
  The comparison of this library with the MPI library in ddtplayer.cpp: for every datatype that the
  player has read, its size and extent are compared, both libraries pack and unpack the same patterns,
  15 times with and 15 times without the caches filled, and the buffers are compared byte for byte.
  The MPI library, malloc, posix\_memalign, rand and the clock are parameters.  A report has the
  messages and the medians in ticks; the layout of the table is left out.  The objects of the
  datatypes are freed at the end by \<open>free_datatypes\<close>.
\<close>

section \<open>Buffers\<close>

definition ALIGNMENT :: int where "ALIGNMENT = 1"
definition WARMUP :: nat where "WARMUP = 5"
definition NUMRUNS :: nat where "NUMRUNS = 10"
definition CACHE_SIZE :: i64 where "CACHE_SIZE = 16000000"

type_synonym allocator = "i64 \<Rightarrow> i64 \<Rightarrow> mem \<Rightarrow> i64 \<times> byte list"

text \<open>The assert tests the address of the parameter.  \<open>A 1\<close> is malloc.\<close>

definition alloc_buffer :: "allocator \<Rightarrow> i64 \<Rightarrow> int \<Rightarrow> heap \<Rightarrow> i64 \<times> heap" where
  "alloc_buffer A sz alignment h =
     (if alignment = 1 then c_memalign A 1 sz h else c_memalign A 16 sz h)"

fun store_each :: "(nat \<Rightarrow> byte) \<Rightarrow> nat list \<Rightarrow> i64 \<Rightarrow> mem \<Rightarrow> mem option" where
  "store_each value [] a m = Some m"
| "store_each value (i # is) a m =
     (case m (a + of_nat i) of None \<Rightarrow> None | Some _ \<Rightarrow> store_each value is a (m(a + of_nat i \<mapsto> value i)))"

definition init_buffer :: "i64 \<Rightarrow> i64 \<Rightarrow> bool \<Rightarrow> mem \<Rightarrow> mem option" where
  "init_buffer sz buf pattern m =
     (if pattern then store_each (\<lambda>i. of_nat i + 1) [0..<unat sz] buf m
      else store_each (\<lambda>_. 0) [0..<unat sz] buf m)"

fun compare_each :: "nat list \<Rightarrow> i64 \<Rightarrow> i64 \<Rightarrow> mem \<Rightarrow> int \<Rightarrow> int option" where
  "compare_each [] ref buf m ret = Some ret"
| "compare_each (i # is) ref buf m ret =
     (case (m (buf + of_nat i), m (ref + of_nat i)) of
        (Some x, Some y) \<Rightarrow> compare_each is ref buf m (if x \<noteq> y then -1 else ret)
      | _ \<Rightarrow> None)"

definition compare_buffers :: "i64 \<Rightarrow> i64 \<Rightarrow> i64 \<Rightarrow> mem \<Rightarrow> int option" where
  "compare_buffers sz ref buf m = compare_each [0..<unat sz] ref buf m 0"

section \<open>Times\<close>

text \<open>The time stamp counter in two halves, and the ticks between two readings.\<close>

record timestamp =
  ts_l :: i32
  ts_h :: i32

definition HRT_GET_ELAPSED_TICKS :: "timestamp \<Rightarrow> timestamp \<Rightarrow> i64" where
  "HRT_GET_ELAPSED_TICKS t1 t2 = (push_bit 32 (ucast (ts_h t2)) OR ucast (ts_l t2)) -
     (push_bit 32 (ucast (ts_h t1)) OR ucast (ts_l t1))"

text \<open>\<open>clock k\<close> is the \<open>k\<close>-th reading of a measurement.  Compilation runs without memory of the program.\<close>

definition median_ticks :: "(nat \<Rightarrow> timestamp) \<Rightarrow> i64" where
  "median_ticks clock =
     sort (map (\<lambda>i. HRT_GET_ELAPSED_TICKS (clock (2 * i)) (clock (2 * i + 1))) [0..<NUMRUNS]) ! (NUMRUNS div 2)"

definition TIME_HOT :: "(mem \<Rightarrow> mem option) \<Rightarrow> (nat \<Rightarrow> timestamp) \<Rightarrow> mem \<Rightarrow> (i64 \<times> mem) option" where
  "TIME_HOT code clock m = Option.bind (runs WARMUP code m) (\<lambda>m.
     map_option (\<lambda>m. (median_ticks clock, m)) (runs NUMRUNS code m))"

text \<open>
  The random numbers \<open>R\<close> go into a block of their own, which is freed: every filling of the
  caches is given the same ones, whose values have no effect.
\<close>

fun churn :: "(nat \<Rightarrow> int) \<Rightarrow> nat list \<Rightarrow> i64 \<Rightarrow> mem \<Rightarrow> mem option" where
  "churn R [] a m = Some m"
| "churn R (i # is) a m =
     (case m (a + of_nat i) of None \<Rightarrow> None | Some _ \<Rightarrow>
       (let m = m(a + of_nat i \<mapsto> word_of_int (R i mod 23))
        in case (m (a + of_nat i), m (a + of_nat (i div 2))) of
             (Some x, Some y) \<Rightarrow> churn R is a (m(a + of_nat i \<mapsto> x + y))
           | _ \<Rightarrow> None))"

definition CLEAR_CACHE :: "allocator \<Rightarrow> (nat \<Rightarrow> int) \<Rightarrow> mem \<Rightarrow> mem option" where
  "CLEAR_CACHE A R m =
     (let (a, h) = c_memalign A 1 CACHE_SIZE \<lparr>blocks = Map.empty, heap_mem = m\<rparr>
      in Option.bind (churn R [0..<unat CACHE_SIZE] a (heap_mem h)) (\<lambda>m.
         map_option heap_mem (heap_free a (h\<lparr>heap_mem := m\<rparr>))))"

definition TIME_COLD ::
  "(mem \<Rightarrow> mem option) \<Rightarrow> (mem \<Rightarrow> mem option) \<Rightarrow> (nat \<Rightarrow> timestamp) \<Rightarrow> mem \<Rightarrow> (i64 \<times> mem) option" where
  "TIME_COLD clear code clock m = Option.bind (runs WARMUP (\<lambda>m. Option.bind (clear m) code) m) (\<lambda>m.
     map_option (\<lambda>m. (median_ticks clock, m)) (runs NUMRUNS (\<lambda>m. Option.bind (clear m) code) m))"

section \<open>The report\<close>

record 'd mpi_library =
  Type_size :: "'d \<Rightarrow> int"
  Type_extent :: "'d \<Rightarrow> int"
  Pack :: "i64 \<Rightarrow> 'd \<Rightarrow> i64 \<Rightarrow> mem \<Rightarrow> mem option"
  Unpack :: "i64 \<Rightarrow> i64 \<Rightarrow> 'd \<Rightarrow> mem \<Rightarrow> mem option"

record 'd pair =
  farc_type :: ddt
  mpi_type :: 'd

text \<open>The machine the player runs on: malloc, rand and the clock in every measurement.\<close>

record machine =
  allocate :: allocator
  rands :: "nat \<Rightarrow> int"
  clocks :: "nat \<Rightarrow> nat \<Rightarrow> timestamp"

datatype message = SizeMismatch int int | ExtentMismatch int int | PackInput | PackOutput | UnpackInput | UnpackOutput

datatype report = Exits message | Row "message list" "i64 list"

text \<open>DDT\_Commit in TIME\_HOT: every run compiles the datatype again, into the same module.\<close>

fun commits :: "nat \<Rightarrow> ddt \<Rightarrow> globals \<Rightarrow> compiled option" where
  "commits 0 t llmod = DDT_Commit t llmod"
| "commits (Suc k) t llmod = Option.bind (DDT_Commit t llmod) (\<lambda>c. commits k t (module_globals c))"

text \<open>Two buffers are filled, and the code is timed.\<close>

definition measured ::
  "machine \<Rightarrow> nat \<Rightarrow> (mem \<Rightarrow> mem option) \<Rightarrow> (i64 \<times> i64 \<times> bool) \<Rightarrow> (i64 \<times> i64 \<times> bool) \<Rightarrow> mem \<Rightarrow> (i64 list \<times> mem) option" where
  "measured S k code first second m =
     (case (first, second) of ((n1, b1, p1), (n2, b2, p2)) \<Rightarrow>
       Option.bind (init_buffer n1 b1 p1 m) (\<lambda>m.
       Option.bind (init_buffer n2 b2 p2 m) (\<lambda>m.
       Option.bind (TIME_HOT code (clocks S k) m) (\<lambda>(hot, m).
       Option.bind (TIME_COLD (CLEAR_CACHE (allocate S) (rands S)) code (clocks S (Suc k)) m) (\<lambda>(cold, m).
       Some ([hot, cold], m))))))"

definition verify :: "i64 \<Rightarrow> i64 \<Rightarrow> i64 \<Rightarrow> message \<Rightarrow> mem \<Rightarrow> message list option" where
  "verify sz ref buf msg m =
     map_option (\<lambda>r. if r \<noteq> 0 then [msg] else []) (compare_buffers sz ref buf m)"

definition compare_libraries ::
  "machine \<Rightarrow> 'd mpi_library \<Rightarrow> nat \<Rightarrow> 'd pair \<Rightarrow> compiled \<Rightarrow> i64 \<Rightarrow> int \<Rightarrow>
    (i64 \<times> i64 \<times> i64 \<times> i64) \<Rightarrow> mem \<Rightarrow> (message list \<times> i64 list \<times> mem) option" where
  "compare_libraries S L j d c sz extent bufs m =
     (case bufs of (mpi_smallbuf, mpi_bigbuf, farc_smallbuf, farc_bigbuf) \<Rightarrow>
       let e = word_of_int extent; mpi_centered = mpi_bigbuf + word_of_int (extent div 2);
         farc_centered = farc_bigbuf + word_of_int (extent div 2) in
       Option.bind (measured S 2 (Pack L mpi_centered (mpi_type d) mpi_smallbuf)
         (e, mpi_bigbuf, True) (sz, mpi_smallbuf, False) m) (\<lambda>(t1, m).
       Option.bind (measured S 4 (DDT_Pack j farc_centered farc_smallbuf c 1)
         (e, farc_bigbuf, True) (sz, farc_smallbuf, False) m) (\<lambda>(t2, m).
       Option.bind (verify e mpi_bigbuf farc_bigbuf PackInput m) (\<lambda>e1.
       Option.bind (verify sz mpi_smallbuf farc_smallbuf PackOutput m) (\<lambda>e2.
       Option.bind (measured S 6 (Unpack L mpi_smallbuf mpi_centered (mpi_type d))
         (sz, mpi_smallbuf, True) (e, mpi_bigbuf, False) m) (\<lambda>(t3, m).
       Option.bind (measured S 8 (DDT_Unpack j farc_smallbuf farc_centered c 1)
         (sz, farc_smallbuf, True) (e, farc_bigbuf, False) m) (\<lambda>(t4, m).
       Option.bind (verify sz mpi_smallbuf farc_smallbuf UnpackInput m) (\<lambda>e3.
       Option.bind (verify e mpi_bigbuf farc_bigbuf UnpackOutput m) (\<lambda>e4.
       Some (e1 @ e2 @ e3 @ e4, t1 @ t2 @ t3 @ t4, m))))))))))"

definition alloc_buffers :: "allocator \<Rightarrow> i64 \<Rightarrow> i64 \<Rightarrow> heap \<Rightarrow> (i64 \<times> i64 \<times> i64 \<times> i64) \<times> heap" where
  "alloc_buffers A sz extent h =
     (let (mpi_smallbuf, h) = alloc_buffer A sz ALIGNMENT h;
        (mpi_bigbuf, h) = alloc_buffer A extent ALIGNMENT h;
        (farc_smallbuf, h) = alloc_buffer A sz ALIGNMENT h;
        (farc_bigbuf, h) = alloc_buffer A extent ALIGNMENT h
      in ((mpi_smallbuf, mpi_bigbuf, farc_smallbuf, farc_bigbuf), h))"

text \<open>One datatype: the sizes, the buffers, which hold four extents, the runs, and free.\<close>

definition report_datatype ::
  "machine \<Rightarrow> 'd mpi_library \<Rightarrow> nat \<Rightarrow> 'd pair \<Rightarrow> globals \<Rightarrow> heap \<Rightarrow> (report \<times> globals \<times> heap) option" where
  "report_datatype S L j d llmod h =
     (let sz = getSize (farc_type d); extent = getExtent (farc_type d) in
      if sz \<noteq> Type_size L (mpi_type d) then Some (Exits (SizeMismatch (Type_size L (mpi_type d)) sz), llmod, h)
      else if extent \<noteq> Type_extent L (mpi_type d) then Some (Exits (ExtentMismatch (Type_extent L (mpi_type d)) extent), llmod, h)
      else let n = word_of_int sz; e = word_of_int (extent * 4);
        ((mpi_smallbuf, mpi_bigbuf, farc_smallbuf, farc_bigbuf), h) = alloc_buffers (allocate S) n e h in
        Option.bind (commits (WARMUP + NUMRUNS - 1) (farc_type d) llmod) (\<lambda>c.
        Option.bind (compare_libraries S L j d c n (extent * 4) (mpi_smallbuf, mpi_bigbuf, farc_smallbuf, farc_bigbuf) (heap_mem h))
          (\<lambda>(msgs, times, m).
        Option.bind (heap_free mpi_bigbuf (h\<lparr>heap_mem := m\<rparr>)) (\<lambda>h.
        Option.bind (heap_free mpi_smallbuf h) (\<lambda>h.
        Option.bind (heap_free farc_bigbuf h) (\<lambda>h.
        Option.bind (heap_free farc_smallbuf h) (\<lambda>h.
        Some (Row msgs ([median_ticks (clocks S 0), median_ticks (clocks S 1)] @ times), module_globals c, h))))))))"

text \<open>All datatypes of the input; exit ends the program.  A datatype takes ten measurements.\<close>

fun produce_report ::
  "machine \<Rightarrow> 'd mpi_library \<Rightarrow> nat \<Rightarrow> 'd pair list \<Rightarrow> globals \<Rightarrow> heap \<Rightarrow> (report list \<times> globals \<times> heap) option" where
  "produce_report S L j [] llmod h = Some ([], llmod, h)"
| "produce_report S L j (d # ds) llmod h =
     Option.bind (report_datatype S L j d llmod h) (\<lambda>(r, llmod, h). case r of
       Exits msg \<Rightarrow> Some ([r], llmod, h)
     | Row msgs ticks \<Rightarrow> map_option (\<lambda>(rs, llmod, h). (r # rs, llmod, h))
         (produce_report (S\<lparr>clocks := \<lambda>i. clocks S (i + 10)\<rparr>) L j ds llmod h))"

text \<open>
  At the end the object of each datatype that was read is freed; the loop also calls
  MPI\_Type\_free, which is the library's.  The objects of the basetypes are not freed.
\<close>

fun free_datatypes :: "ptr list \<Rightarrow> 'a store_scheme \<Rightarrow> 'a store_scheme option" where
  "free_datatypes [] st = Some st"
| "free_datatypes (farc # datatypes) st = Option.bind (DDT_Free farc st) (free_datatypes datatypes)"

lemma free_datatypes_objects:
  assumes "distinct as" "\<forall>a \<in> set as. \<exists>ob. objs st a = Some ob \<and> \<not> ostatic ob"
  shows "\<exists>st'. free_datatypes (map Some as) st = Some st' \<and> objs st' = objs st |` (- set as)"
  using assms
proof (induction as arbitrary: st)
  case (Cons a as)
  let ?st = "st\<lparr>objs := (objs st)(a := None)\<rparr>"
  have "\<forall>b \<in> set as. \<exists>ob. objs ?st b = Some ob \<and> \<not> ostatic ob" using Cons.prems by auto
  then obtain st' where "free_datatypes (map Some as) ?st = Some st'" "objs st' = objs ?st |` (- set as)"
    using Cons.IH [of ?st] Cons.prems(1) unfolding distinct.simps by blast
  moreover have "objs ?st |` (- set as) = objs st |` (- set (a # as))" by (auto simp: restrict_map_def fun_eq_iff)
  moreover have "DDT_Free (Some a) st = Some ?st" using Cons.prems(2) by (auto simp: DDT_Free_def)
  ultimately show ?case by simp
qed (simp add: restrict_map_def)

text \<open>The columns of the table, after the text of the datatype, in its first line and in a row.\<close>

record arguments =
  time_create_given :: bool
  time_hot_given :: bool
  time_cold_given :: bool

definition header_columns :: "arguments \<Rightarrow> string list" where
  "header_columns args_info = [''size''] @
     (if time_create_given args_info then [''mpi_commit'', ''farc_commit''] else []) @
     (if time_hot_given args_info then [''mpi_pack_time_hot'', ''farc_pack_time_hot'', ''mpi_unpack_time_hot'',
        ''farc_unpack_time_hot'', ''pack_time_spdup_hot'', ''unpack_time_spdup_hot''] else []) @
     (if time_cold_given args_info then [''mpi_pack_time_cold'', ''farc_pack_time_cold'', ''mpi_unpack_time_cold'',
        ''farc_unpack_time_cold'', ''pack_time_spdup_cold'', ''unpack_time_spdup_cold''] else [])"

definition row_columns :: "arguments \<Rightarrow> string list" where
  "row_columns args_info = [''size''] @
     (if time_create_given args_info then [''mpi_commit'', ''farc_commit''] else []) @
     (if time_hot_given args_info then [''mpi_pack_time_hot'', ''farc_pack_time_hot'', ''mpi_unpack_time_hot'',
        ''farc_unpack_time_hot'', ''pack_time_spdup_hot'', ''unpack_time_spdup_hot''] else []) @
     (if time_hot_given args_info then [''mpi_pack_time_cold'', ''farc_pack_time_cold'', ''mpi_unpack_time_cold'',
        ''farc_unpack_time_cold'', ''pack_time_spdup_cold'', ''unpack_time_spdup_cold''] else [])"

text \<open>The rows have the columns of the first line only when both times or neither is asked for.\<close>

lemma columns_match: "row_columns args_info = header_columns args_info \<longleftrightarrow> (time_hot_given args_info \<longleftrightarrow> time_cold_given args_info)"
  by (auto simp: row_columns_def header_columns_def)

section \<open>Blocks of memory\<close>

text \<open>malloc returns a new block, which is not NULL.\<close>

definition mallocs :: "allocator \<Rightarrow> i64 \<Rightarrow> mem \<Rightarrow> bool" where
  "mallocs A sz m \<longleftrightarrow> serves A 1 sz m \<and> fst (A 1 sz m) \<noteq> 0"

lemma unat_below: "unat (n :: i64) < 2 ^ 64"
  using unsigned_less [of n, where ?'a = nat] by simp

lemma in_run: "x \<in> set (run_at a (unat (n :: i64))) \<longleftrightarrow> unat (x - a) < unat n"
proof
  assume "x \<in> set (run_at a (unat n))"
  then obtain i where i: "i < unat n" "x = a + of_nat i" by (auto simp: run_at_def)
  then have "i < 2 ^ 64" using unat_below [of n] by simp
  then show "unat (x - a) < unat n" using i unat64 [of i] by simp
next
  assume "unat (x - a) < unat n"
  then have "x = a + of_nat (unat (x - a))" "unat (x - a) \<in> {0..<unat n}" by simp_all
  then show "x \<in> set (run_at a (unat n))" unfolding run_at_def set_map set_upt by (rule image_eqI)
qed

lemma run_le: "i < n \<Longrightarrow> a + of_nat i \<in> set (run_at a n)"
  by (auto simp: run_at_def)

lemma malloc_block:
  assumes "mallocs A sz (heap_mem h)" "c_memalign A 1 sz h = (a, h')"
  shows "a \<noteq> 0" "blocks h' = (blocks h)(a \<mapsto> unat sz)" "set (run_at a (unat sz)) \<inter> dom (heap_mem h) = {}"
    "dom (heap_mem h') = dom (heap_mem h) \<union> set (run_at a (unat sz))"
    "\<And>x. x \<notin> set (run_at a (unat sz)) \<Longrightarrow> heap_mem h' x = heap_mem h x"
proof -
  obtain bs where A: "A 1 sz (heap_mem h) = (a, bs)"
    using assms(2) by (cases "A 1 sz (heap_mem h)") (auto simp: c_memalign_def)
  have bs: "length bs = unat sz" using assms(1) by (simp add: mallocs_def serves_def A)
  have h': "h' = \<lparr>blocks = (blocks h)(a \<mapsto> unat sz),
      heap_mem = (\<lambda>x. if unat (x - a) < unat sz then Some (bs ! unat (x - a)) else heap_mem h x)\<rparr>"
    using assms(2) bs by (simp add: c_memalign_def A)
  show "a \<noteq> 0" using assms(1) by (simp add: mallocs_def A)
  show "blocks h' = (blocks h)(a \<mapsto> unat sz)" by (simp add: h')
  show "set (run_at a (unat sz)) \<inter> dom (heap_mem h) = {}"
    using assms(1) by (auto simp: mallocs_def serves_def A run_at_def list_all_iff)
  show "dom (heap_mem h') = dom (heap_mem h) \<union> set (run_at a (unat sz))"
    by (auto simp: h' in_run split: if_splits)
  show "heap_mem h' x = heap_mem h x" if "x \<notin> set (run_at a (unat sz))" for x
    using that by (simp add: h' in_run)
qed

lemma free_block:
  assumes "a \<noteq> 0" "blocks h a = Some (unat (sz :: i64))"
  shows "heap_free a h = Some \<lparr>blocks = (blocks h)(a := None),
    heap_mem = (\<lambda>x. if x \<in> set (run_at a (unat sz)) then None else heap_mem h x)\<rparr>"
  using assms by (simp add: heap_free_def in_run)

section \<open>The caches\<close>

lemma churn_inside:
  assumes "\<forall>i \<in> set is. a + of_nat i \<in> X \<and> a + of_nat (i div 2) \<in> X" "X \<subseteq> dom m"
  shows "\<exists>m'. churn R is a m = Some m' \<and> (\<forall>x. x \<notin> X \<longrightarrow> m' x = m x)"
  using assms
proof (induction "is" arbitrary: m)
  case (Cons i "is")
  let ?m1 = "m(a + of_nat i \<mapsto> word_of_int (R i mod 23))"
  have i: "a + of_nat i \<in> X" "a + of_nat (i div 2) \<in> X" using Cons.prems(1) by simp_all
  obtain b where b: "m (a + of_nat i) = Some b" using i(1) Cons.prems(2) by auto
  have "X \<subseteq> dom ?m1" using Cons.prems(2) by auto
  then obtain y where y: "?m1 (a + of_nat (i div 2)) = Some y" using i(2) by blast
  let ?m2 = "?m1(a + of_nat i \<mapsto> word_of_int (R i mod 23) + y)"
  have "X \<subseteq> dom ?m2" using Cons.prems(2) by auto
  then obtain m' where m': "churn R is a ?m2 = Some m'" "\<forall>x. x \<notin> X \<longrightarrow> m' x = ?m2 x"
    using Cons.IH [of ?m2] Cons.prems(1) by (auto simp del: fun_upd_apply)
  have "churn R (i # is) a m = churn R is a ?m2"
    using b y by (simp add: Let_def)
  moreover have "?m2 x = m x" if "x \<notin> X" for x using that i(1) by auto
  ultimately show ?case using m' by auto
qed simp

lemma CLEAR_CACHE_same:
  assumes "mallocs A CACHE_SIZE m"
  shows "CLEAR_CACHE A R m = Some m"
proof -
  let ?h = "\<lparr>blocks = Map.empty, heap_mem = m\<rparr> :: heap"
  obtain a h where h: "c_memalign A 1 CACHE_SIZE ?h = (a, h)" by force
  let ?X = "set (run_at a (unat CACHE_SIZE))"
  have "mallocs A CACHE_SIZE (heap_mem ?h)" using assms by simp
  note b = malloc_block [OF this h]
  have "\<forall>i \<in> set [0..<unat CACHE_SIZE]. a + of_nat i \<in> ?X \<and> a + of_nat (i div 2) \<in> ?X"
    by (auto intro: run_le)
  moreover have "?X \<subseteq> dom (heap_mem h)" using b(4) by blast
  ultimately obtain m' where m': "churn R [0..<unat CACHE_SIZE] a (heap_mem h) = Some m'"
    "\<forall>x. x \<notin> ?X \<longrightarrow> m' x = heap_mem h x" by (metis churn_inside)
  have "x \<in> ?X \<Longrightarrow> m x = None" for x using b(3) by auto
  then have "(\<lambda>x. if x \<in> ?X then None else m' x) = m"
    using m'(2) b(5) by (auto simp: fun_eq_iff)
  moreover have "heap_free a (h\<lparr>heap_mem := m'\<rparr>) = Some \<lparr>blocks = (blocks h)(a := None),
      heap_mem = (\<lambda>x. if x \<in> ?X then None else m' x)\<rparr>"
    using free_block [OF b(1), of "h\<lparr>heap_mem := m'\<rparr>" CACHE_SIZE] b(2) by (simp cong: if_cong)
  ultimately show ?thesis by (simp add: CLEAR_CACHE_def h m'(1))
qed

section \<open>Filling and comparing buffers\<close>

definition pattern_byte :: "bool \<Rightarrow> nat \<Rightarrow> byte" where
  "pattern_byte pattern i = (if pattern then of_nat i + 1 else 0)"

lemma store_each_values:
  assumes "set (run_at a n) \<subseteq> dom m" "n \<le> 2 ^ 64" "k \<le> n"
  shows "store_each f [k..<n] a m = Some (\<lambda>x. if k \<le> unat (x - a) \<and> unat (x - a) < n then Some (f (unat (x - a))) else m x)"
  using assms
proof (induction "n - k" arbitrary: k m)
  case (Suc j)
  let ?m = "m(a + of_nat k \<mapsto> f k)"
  have k: "k < n" "[k..<n] = k # [Suc k..<n]" using Suc.hyps(2) by (simp_all add: upt_conv_Cons)
  obtain c where c: "m (a + of_nat k) = Some c" using Suc.prems(1) run_le [OF k(1), of a] by auto
  have "store_each f [Suc k..<n] a ?m =
      Some (\<lambda>x. if Suc k \<le> unat (x - a) \<and> unat (x - a) < n then Some (f (unat (x - a))) else ?m x)"
    using Suc.hyps Suc.prems k by (intro Suc.hyps(1)) auto
  moreover have "x - a = of_nat k \<longleftrightarrow> unat (x - a) = k" for x
    unfolding word_unat_eq_iff using unat64 [of k] k(1) Suc.prems(2) by simp
  then have "x = a + of_nat k \<longleftrightarrow> unat (x - a) = k" for x
    by (metis add_diff_cancel_left' diff_add_cancel add.commute)
  ultimately show ?case using c k by (auto simp: fun_eq_iff)
qed (auto simp: fun_eq_iff)

lemma init_buffer_values:
  assumes "set (run_at a (unat n)) \<subseteq> dom m"
  shows "init_buffer n a pattern m =
    Some (\<lambda>x. if unat (x - a) < unat n then Some (pattern_byte pattern (unat (x - a))) else m x)"
proof -
  have n: "unat n \<le> 2 ^ 64" using unat_below [of n] by simp
  show ?thesis using store_each_values [OF assms n, of 0]
    by (simp add: init_buffer_def pattern_byte_def cong: if_cong)
qed

lemma compare_each_iff:
  assumes "\<forall>i \<in> set is. m (ref + of_nat i) \<noteq> None \<and> m (buf + of_nat i) \<noteq> None" "r = 0 \<or> r = -1"
  shows "compare_each is ref buf m r =
    Some (if r = 0 \<and> (\<forall>i \<in> set is. m (ref + of_nat i) = m (buf + of_nat i)) then 0 else -1)"
  using assms by (induction "is" arbitrary: r) (auto split: option.split)

lemma compare_buffers_iff:
  assumes "set (run_at ref (unat n)) \<subseteq> dom m" "set (run_at buf (unat n)) \<subseteq> dom m"
  shows "compare_buffers n ref buf m = Some (if bytes_of m (run_at ref (unat n)) = bytes_of m (run_at buf (unat n)) then 0 else -1)"
proof -
  have "\<forall>i \<in> set [0..<unat n]. m (ref + of_nat i) \<noteq> None \<and> m (buf + of_nat i) \<noteq> None"
    using assms by (auto simp: run_at_def subset_iff)
  from compare_each_iff [OF this, of 0] show ?thesis
    by (simp add: compare_buffers_def bytes_of_def run_at_def)
qed

section \<open>Code that copies bytes\<close>

text \<open>Code that, with enough fuel, copies the bytes at \<open>bs\<close> to \<open>as\<close>.\<close>

definition moves_bytes :: "(nat \<Rightarrow> mem \<Rightarrow> mem option) \<Rightarrow> i64 list \<Rightarrow> i64 list \<Rightarrow> bool" where
  "moves_bytes code as bs \<longleftrightarrow> length as = length bs \<and> set as \<inter> set bs = {} \<and>
     (\<forall>m. set as \<union> set bs \<subseteq> dom m \<longrightarrow>
       (\<exists>m' k. (\<forall>j \<ge> k. code j m = Some m') \<and> written m as (bytes_of m bs) m'))"

lemma written_dom:
  assumes "written m as (bytes_of m bs) m'" "set as \<union> set bs \<subseteq> dom m"
  shows "dom m' = dom m"
proof -
  have "set (map m' as) = set (map m bs)" using assms(1) by (simp only: written_def bytes_of_def)
  then have im: "m' ` set as = m ` set bs" by simp
  have "m' a \<noteq> None" if "a \<in> set as" for a
  proof -
    have "m' a \<in> m ` set bs" using imageI [OF that, of m'] im by simp
    then show ?thesis using assms(2) by auto
  qed
  moreover have "m' a = m a" if "a \<notin> set as" for a using assms(1) that by (auto simp: written_def)
  ultimately have "m' a \<noteq> None \<longleftrightarrow> m a \<noteq> None" for a
    using assms(2) by (cases "a \<in> set as") auto
  then show ?thesis unfolding dom_def by simp
qed

lemma moves_twice:
  assumes "moves_bytes code as bs" "set as \<union> set bs \<subseteq> dom m"
  shows "\<exists>m' k. (\<forall>j \<ge> k. code j m = Some m' \<and> code j m' = Some m') \<and> written m as (bytes_of m bs) m' \<and> dom m' = dom m"
proof -
  have mv: "\<exists>m' k. (\<forall>j \<ge> k. code j m = Some m') \<and> written m as (bytes_of m bs) m'" if "set as \<union> set bs \<subseteq> dom m" for m
    using assms(1) that unfolding moves_bytes_def by blast
  obtain m1 k1 where 1: "\<forall>j \<ge> k1. code j m = Some m1" "written m as (bytes_of m bs) m1"
    using mv [OF assms(2)] by blast
  have len: "length as = length bs" "set as \<inter> set bs = {}" using assms(1) by (auto simp: moves_bytes_def)
  have d: "dom m1 = dom m" using written_dom [OF 1(2) assms(2)] .
  then have "set as \<union> set bs \<subseteq> dom m1" using assms(2) by simp
  then obtain m2 k2 where 2: "\<forall>j \<ge> k2. code j m1 = Some m2" "written m1 as (bytes_of m1 bs) m2"
    using mv by blast
  have "bytes_of m1 bs = bytes_of m bs"
    using 1(2) len(2) by (auto simp: written_def bytes_of_def)
  then have "map m2 as = map m1 as" using 1(2) 2(2) by (simp add: written_def bytes_of_def)
  then have "m2 = m1" using 2(2) by (auto simp: written_def fun_eq_iff map_eq_conv)
  then have "\<forall>j \<ge> max k1 k2. code j m = Some m1 \<and> code j m1 = Some m1" using 1(1) 2(1) by simp
  then show ?thesis using 1(2) d by blast
qed

lemma runs_fix: "copy m = Some m' \<Longrightarrow> copy m' = Some m' \<Longrightarrow> 0 < k \<Longrightarrow> runs k copy m = Some m'"
proof (induction k arbitrary: m)
  case (Suc k)
  then show ?case by (cases k) simp_all
qed simp

lemma TIME_HOT_fix:
  assumes "code m = Some m'" "code m' = Some m'"
  shows "TIME_HOT code clock m = Some (median_ticks clock, m')"
  using runs_fix [of code, OF assms] runs_fix [of code, OF assms(2) assms(2)] by (simp add: TIME_HOT_def WARMUP_def NUMRUNS_def)

lemma TIME_COLD_fix:
  assumes "code m = Some m" "clear m = Some m"
  shows "TIME_COLD clear code clock m = Some (median_ticks clock, m)"
  using runs_fix [of "\<lambda>m. Option.bind (clear m) code" m m] assms by (simp add: TIME_COLD_def WARMUP_def NUMRUNS_def)

section \<open>One measurement\<close>

text \<open>
  The bytes at the offsets \<open>B\<close> of the first buffer go to the offsets \<open>A\<close> of the second one:
  what the second one then has at an offset does not depend on the addresses.
\<close>

definition at :: "i64 \<Rightarrow> nat list \<Rightarrow> i64 list" where
  "at a ks = map (\<lambda>k. a + of_nat k) ks"

definition moved :: "nat list \<Rightarrow> nat list \<Rightarrow> bool \<Rightarrow> bool \<Rightarrow> nat \<Rightarrow> byte" where
  "moved A B p1 p2 i = (case map_of (zip A B) i of None \<Rightarrow> pattern_byte p2 i | Some k \<Rightarrow> pattern_byte p1 k)"

lemma at_run: "set ks \<subseteq> {..<n} \<Longrightarrow> set (at a ks) \<subseteq> set (run_at a n)"
  by (auto simp: at_def run_at_def)

lemma filled:
  assumes "set (run_at b1 (unat n1)) \<subseteq> dom m" "set (run_at b2 (unat n2)) \<subseteq> dom m"
    "set (run_at b1 (unat n1)) \<inter> set (run_at b2 (unat n2)) = {}"
  obtains m1 m2 where "init_buffer n1 b1 p1 m = Some m1" "init_buffer n2 b2 p2 m1 = Some m2" "dom m2 = dom m"
    "\<And>i. i < unat n1 \<Longrightarrow> m2 (b1 + of_nat i) = Some (pattern_byte p1 i)"
    "\<And>i. i < unat n2 \<Longrightarrow> m2 (b2 + of_nat i) = Some (pattern_byte p2 i)"
    "\<And>x. x \<notin> set (run_at b1 (unat n1)) \<union> set (run_at b2 (unat n2)) \<Longrightarrow> m2 x = m x"
proof -
  let ?f = "\<lambda>(n :: i64) b p m x. if unat (x - b) < unat n then Some (pattern_byte p (unat (x - b))) else m x"
  let ?m1 = "?f n1 b1 p1 m"
  let ?m2 = "?f n2 b2 p2 ?m1"
  have d: "dom (?f n b p m) = dom m" if "set (run_at b (unat n)) \<subseteq> dom m" for n b p m
    using that by (auto simp: subset_iff in_run split: if_splits)
  have 1: "init_buffer n1 b1 p1 m = Some ?m1" using assms(1) by (rule init_buffer_values)
  have dm: "dom ?m1 = dom m" using assms(1) by (rule d)
  have s2: "set (run_at b2 (unat n2)) \<subseteq> dom ?m1" using assms(2) unfolding dm .
  have 2: "init_buffer n2 b2 p2 ?m1 = Some ?m2" using s2 by (rule init_buffer_values)
  have dm2: "dom ?m2 = dom m" using d [OF s2] dm by simp
  have off: "unat (b + of_nat i - b) = i" if "i < unat n" for b n :: i64 and i
    using that unat_below [of n] by (intro offset_back) simp
  have b1: "?m2 (b1 + of_nat i) = Some (pattern_byte p1 i)" if "i < unat n1" for i
  proof -
    have "b1 + of_nat i \<notin> set (run_at b2 (unat n2))" using assms(3) run_le [OF that, of b1] by blast
    then show ?thesis using off [OF that, of b1] that by (simp add: in_run)
  qed
  have b2: "?m2 (b2 + of_nat i) = Some (pattern_byte p2 i)" if "i < unat n2" for i
    using off [OF that, of b2] that by simp
  have o: "?m2 x = m x" if "x \<notin> set (run_at b1 (unat n1)) \<union> set (run_at b2 (unat n2))" for x
    using that by (simp add: in_run)
  show ?thesis by (rule that [OF 1 2 dm2 b1 b2 o])
qed

lemma measured_moves:
  assumes r: "set (run_at b1 (unat n1)) \<subseteq> dom m" "set (run_at b2 (unat n2)) \<subseteq> dom m"
      "set (run_at b1 (unat n1)) \<inter> set (run_at b2 (unat n2)) = {}"
    and AB: "set A \<subseteq> {..<unat n2}" "set B \<subseteq> {..<unat n1}" "length A = length B" "distinct A"
    and code: "moves_bytes code (at b2 A) (at b1 B)"
    and cache: "\<forall>m'. dom m' = dom m \<longrightarrow> mallocs (allocate S) CACHE_SIZE m'"
  shows "\<exists>m' k. (\<forall>j \<ge> k. measured S c (code j) (n1, b1, p1) (n2, b2, p2) m =
      Some ([median_ticks (clocks S c), median_ticks (clocks S (Suc c))], m')) \<and> dom m' = dom m \<and>
    (\<forall>i < unat n1. m' (b1 + of_nat i) = Some (pattern_byte p1 i)) \<and>
    (\<forall>i < unat n2. m' (b2 + of_nat i) = Some (moved A B p1 p2 i)) \<and>
    (\<forall>x. x \<notin> set (run_at b1 (unat n1)) \<union> set (run_at b2 (unat n2)) \<longrightarrow> m' x = m x)"
proof -
  obtain m1 m2 where f: "init_buffer n1 b1 p1 m = Some m1" "init_buffer n2 b2 p2 m1 = Some m2" "dom m2 = dom m"
    "\<And>i. i < unat n1 \<Longrightarrow> m2 (b1 + of_nat i) = Some (pattern_byte p1 i)"
    "\<And>i. i < unat n2 \<Longrightarrow> m2 (b2 + of_nat i) = Some (pattern_byte p2 i)"
    "\<And>x. x \<notin> set (run_at b1 (unat n1)) \<union> set (run_at b2 (unat n2)) \<Longrightarrow> m2 x = m x"
    by (rule filled [OF r, of p1 p2]) blast
  have sub: "set (at b2 A) \<subseteq> set (run_at b2 (unat n2))" "set (at b1 B) \<subseteq> set (run_at b1 (unat n1))"
    using at_run [OF AB(1)] at_run [OF AB(2)] by blast+
  then have "set (at b2 A) \<union> set (at b1 B) \<subseteq> dom m2" using r(1,2) f(3) by blast
  from moves_twice [OF code this] obtain m3 k where k: "\<forall>j \<ge> k. code j m2 = Some m3 \<and> code j m3 = Some m3"
    "written m2 (at b2 A) (bytes_of m2 (at b1 B)) m3" "dom m3 = dom m2" by blast
  have clear: "CLEAR_CACHE (allocate S) (rands S) m3 = Some m3"
    using cache k(3) f(3) by (intro CLEAR_CACHE_same) simp
  have run: "measured S c (code j) (n1, b1, p1) (n2, b2, p2) m =
      Some ([median_ticks (clocks S c), median_ticks (clocks S (Suc c))], m3)" if "k \<le> j" for j
  proof -
    have j: "code j m2 = Some m3" "code j m3 = Some m3" using k(1) that by blast+
    show ?thesis using TIME_COLD_fix [where clear = "CLEAR_CACHE (allocate S) (rands S)", of "code j" m3] j clear TIME_HOT_fix [of "code j", OF j] by (simp add: measured_def f(1,2))
  qed
  have keep: "m3 x = m2 x" if "x \<notin> set (at b2 A)" for x using k(2) that by (auto simp: written_def)
  have first: "m3 (b1 + of_nat i) = Some (pattern_byte p1 i)" if "i < unat n1" for i
  proof -
    have "b1 + of_nat i \<notin> set (at b2 A)" using r(3) sub(1) run_le [OF that, of b1] by blast
    then show ?thesis using keep f(4) [OF that] by simp
  qed
  have second: "m3 (b2 + of_nat i) = Some (moved A B p1 p2 i)" if i: "i < unat n2" for i
  proof (cases "i \<in> set A")
    case True
    then obtain l where l: "l < length A" "A ! l = i" by (auto simp: in_set_conv_nth)
    have "map_of (zip A B) i = Some (B ! l)"
      using map_of_zip_nth [OF AB(3,4) l(1)[unfolded AB(3)]] l AB(3) by simp
    moreover have "bytes_of m3 (at b2 A) ! l = bytes_of m2 (at b1 B) ! l" using k(2) by (simp add: written_def)
    then have "m3 (b2 + of_nat i) = m2 (b1 + of_nat (B ! l))" using l AB(3) by (simp add: bytes_of_def at_def)
    moreover have "B ! l < unat n1" using AB(2,3) l(1) nth_mem [of l B] by (metis lessThan_iff subset_iff)
    ultimately show ?thesis using f(4) by (simp add: moved_def)
  next
    case False
    have n: "b2 + of_nat i \<notin> set (at b2 A)"
    proof
      assume "b2 + of_nat i \<in> set (at b2 A)"
      then obtain l where l: "l \<in> set A" "of_nat i = (of_nat l :: i64)" by (auto simp: at_def)
      have "l < 2 ^ 64" "i < 2 ^ 64" using l(1) AB(1) i unat_below [of n2] by auto
      then have "i = l" using l(2) by (metis unat64)
      then show False using False l(1) by simp
    qed
    have "map_of (zip A B) i = None" using False map_of_zip_is_None [OF AB(3)] by blast
    then show ?thesis using keep [OF n] f(5) [OF i] by (simp add: moved_def)
  qed
  have other: "m3 x = m x" if "x \<notin> set (run_at b1 (unat n1)) \<union> set (run_at b2 (unat n2))" for x
  proof -
    have "x \<notin> set (at b2 A)" using that sub(1) by blast
    then show ?thesis using keep f(6) [OF that] by simp
  qed
  show ?thesis using run first second other k(3) f(3) by (intro exI [of _ m3] exI [of _ k]) simp
qed

section \<open>Both libraries\<close>

abbreviation region :: "i64 \<Rightarrow> i64 \<Rightarrow> i64 set" where
  "region a n \<equiv> set (run_at a (unat n))"

text \<open>The same bytes are moved in the buffers \<open>b1\<close>, \<open>b2\<close> and in the buffers \<open>c1\<close>, \<open>c2\<close>.\<close>

lemma both_measured:
  assumes d: "region b1 n1 \<union> region b2 n2 \<subseteq> dom m" "region c1 n1 \<union> region c2 n2 \<subseteq> dom m"
    and r: "region b1 n1 \<inter> region b2 n2 = {}" "region c1 n1 \<inter> region c2 n2 = {}"
      "(region b1 n1 \<union> region b2 n2) \<inter> (region c1 n1 \<union> region c2 n2) = {}"
    and AB: "set A \<subseteq> {..<unat n2}" "set B \<subseteq> {..<unat n1}" "length A = length B" "distinct A"
    and code: "moves_bytes code (at b2 A) (at b1 B)" "moves_bytes code' (at c2 A) (at c1 B)"
    and cache: "\<forall>m'. dom m' = dom m \<longrightarrow> mallocs (allocate S) CACHE_SIZE m'"
  shows "\<exists>m1 m2 k. (\<forall>j \<ge> k. measured S i (code j) (n1, b1, p1) (n2, b2, p2) m =
        Some ([median_ticks (clocks S i), median_ticks (clocks S (Suc i))], m1) \<and>
      measured S i' (code' j) (n1, c1, p1) (n2, c2, p2) m1 =
        Some ([median_ticks (clocks S i'), median_ticks (clocks S (Suc i'))], m2)) \<and>
    verify n1 b1 c1 msg m2 = Some [] \<and> verify n2 b2 c2 msg' m2 = Some [] \<and> dom m2 = dom m \<and>
    (\<forall>x. x \<notin> region b1 n1 \<union> region b2 n2 \<union> (region c1 n1 \<union> region c2 n2) \<longrightarrow> m2 x = m x)"
proof -
  have d1: "region b1 n1 \<subseteq> dom m" "region b2 n2 \<subseteq> dom m" using d(1) by blast+
  from measured_moves [OF d1 r(1) AB code(1) cache, of i p1 p2] obtain m1 k1 where 1:
    "\<forall>j \<ge> k1. measured S i (code j) (n1, b1, p1) (n2, b2, p2) m = Some ([median_ticks (clocks S i), median_ticks (clocks S (Suc i))], m1)"
    "dom m1 = dom m" "\<And>x. x < unat n1 \<Longrightarrow> m1 (b1 + of_nat x) = Some (pattern_byte p1 x)"
    "\<And>x. x < unat n2 \<Longrightarrow> m1 (b2 + of_nat x) = Some (moved A B p1 p2 x)"
    "\<And>x. x \<notin> region b1 n1 \<union> region b2 n2 \<Longrightarrow> m1 x = m x" by blast
  have d2: "region c1 n1 \<subseteq> dom m1" "region c2 n2 \<subseteq> dom m1" using d(2) 1(2) by blast+
  have cache2: "\<forall>m'. dom m' = dom m1 \<longrightarrow> mallocs (allocate S) CACHE_SIZE m'" using cache 1(2) by simp
  from measured_moves [OF d2 r(2) AB code(2) cache2, of i' p1 p2] obtain m2 k2 where 2:
    "\<forall>j \<ge> k2. measured S i' (code' j) (n1, c1, p1) (n2, c2, p2) m1 = Some ([median_ticks (clocks S i'), median_ticks (clocks S (Suc i'))], m2)"
    "dom m2 = dom m1" "\<And>x. x < unat n1 \<Longrightarrow> m2 (c1 + of_nat x) = Some (pattern_byte p1 x)"
    "\<And>x. x < unat n2 \<Longrightarrow> m2 (c2 + of_nat x) = Some (moved A B p1 p2 x)"
    "\<And>x. x \<notin> region c1 n1 \<union> region c2 n2 \<Longrightarrow> m2 x = m1 x" by blast
  have keep: "m2 x = m1 x" if "x \<in> region b1 n1 \<union> region b2 n2" for x using 2(5) that r(3) by blast
  have "m2 (b1 + of_nat x) = m2 (c1 + of_nat x)" if "x < unat n1" for x
    using keep [of "b1 + of_nat x"] run_le [OF that, of b1] 1(3) 2(3) that by simp
  then have "bytes_of m2 (run_at b1 (unat n1)) = bytes_of m2 (run_at c1 (unat n1))" by (simp add: bytes_of_def run_at_def)
  then have v1: "verify n1 b1 c1 msg m2 = Some []"
    using compare_buffers_iff [of b1 n1 m2 c1] d1(1) d2(1) 1(2) 2(2) by (simp add: verify_def)
  have "m2 (b2 + of_nat x) = m2 (c2 + of_nat x)" if "x < unat n2" for x
    using keep [of "b2 + of_nat x"] run_le [OF that, of b2] 1(4) 2(4) that by simp
  then have "bytes_of m2 (run_at b2 (unat n2)) = bytes_of m2 (run_at c2 (unat n2))" by (simp add: bytes_of_def run_at_def)
  then have v2: "verify n2 b2 c2 msg' m2 = Some []"
    using compare_buffers_iff [of b2 n2 m2 c2] d1(2) d2(2) 1(2) 2(2) by (simp add: verify_def)
  have "m2 x = m x" if "x \<notin> region b1 n1 \<union> region b2 n2 \<union> (region c1 n1 \<union> region c2 n2)" for x
    using 2(5) [of x] 1(5) [of x] that by simp
  then show ?thesis using 1(1,2) 2(1,2) v1 v2 by (intro exI [of _ m1] exI [of _ m2] exI [of _ "max k1 k2"]) simp
qed

text \<open>
  An MPI library that implements the type map, and a datatype that fits its centred buffers:
  no byte is more than two extents away from the middle, and the player's int of four extents
  does not overflow.  The displacements of an indexed type or a struct are not bounded by its
  extent when its lower bound is not 0; the player then reads outside its buffer.
\<close>

definition conforms :: "'d mpi_library \<Rightarrow> 'd \<Rightarrow> ddt \<Rightarrow> bool" where
  "conforms L d t \<longleftrightarrow> Type_size L d = getSize t \<and> Type_extent L d = getExtent t \<and>
     (\<forall>m p q. separate m p (lay t 1) q \<longrightarrow> (\<exists>m'. Pack L p d q m = Some m' \<and>
       written m (run_at q (length (lay t 1))) (bytes_of m (data_at p (lay t 1))) m')) \<and>
     (\<forall>m p q. separate m p (lay t 1) q \<longrightarrow> distinct (data_at p (lay t 1)) \<longrightarrow> (\<exists>m'. Unpack L q p d m = Some m' \<and>
       written m (data_at p (lay t 1)) (bytes_of m (run_at q (length (lay t 1)))) m'))"

definition centred :: "ddt \<Rightarrow> bool" where
  "centred t \<longleftrightarrow> list_all (\<lambda>d. - 2 * getExtent t \<le> d \<and> d < 2 * getExtent t) (lay t 1) \<and>
     4 * getExtent t < 2 ^ 31 \<and> distinct (lay t 1)"

lemma not_centred:
  "t = HIndexedDatatype 1 [1] [1000] (PrimitiveDatatype INTEGER) \<Longrightarrow>
     built t \<and> regular t \<and> fits t \<and> handled True t \<and> handled False t \<and> \<not> centred t"
proof -
  have "\<not> centred (HIndexedDatatype 1 [1] [1000] (PrimitiveDatatype INTEGER))"
    "regular (HIndexedDatatype 1 [1] [1000] (PrimitiveDatatype INTEGER))" "fits (HIndexedDatatype 1 [1] [1000] (PrimitiveDatatype INTEGER))"
    "handled True (HIndexedDatatype 1 [1] [1000] (PrimitiveDatatype INTEGER))"
    "handled False (HIndexedDatatype 1 [1] [1000] (PrimitiveDatatype INTEGER))" by code_simp+
  then show "t = HIndexedDatatype 1 [1] [1000] (PrimitiveDatatype INTEGER) \<Longrightarrow> ?thesis" by (auto intro!: built.intros)
qed

definition offsets :: "ddt \<Rightarrow> nat list" where
  "offsets t = map (\<lambda>d. nat (2 * getExtent t + d)) (lay t 1)"

lemma separate_sets:
  "separate m p D q \<longleftrightarrow> set (data_at p D) \<union> set (run_at q (length D)) \<subseteq> dom m \<and> set (data_at p D) \<inter> set (run_at q (length D)) = {}"
  by (auto simp: separate_def list_all_iff)

lemma run_at_at: "run_at q n = at q [0..<n]"
  by (simp add: run_at_def at_def)

lemma uint64: "0 \<le> x \<Longrightarrow> x < 2 ^ 64 \<Longrightarrow> uint (word_of_int x :: i64) = x"
  by (simp add: unsigned_of_int take_bit_int_eq_self)

lemma centred_at:
  assumes "centred t"
  shows "data_at (a + word_of_int (2 * getExtent t)) (lay t 1) = at a (offsets t)"
    "set (offsets t) \<subseteq> {..<unat (word_of_int (4 * getExtent t) :: i64)}" "distinct (offsets t)"
proof -
  let ?e = "getExtent t"
  have d: "- 2 * ?e \<le> d \<and> d < 2 * ?e" if "d \<in> set (lay t 1)" for d
    using assms that by (simp add: centred_def list_all_iff)
  have e: "0 \<le> ?e" if "d \<in> set (lay t 1)" for d using d [OF that] by linarith
  have u: "uint (word_of_int (4 * ?e) :: i64) = 4 * ?e" if "d \<in> set (lay t 1)" for d
  proof (rule uint64)
    show "0 \<le> 4 * ?e" "4 * ?e < 2 ^ 64" using e [OF that] assms by (auto simp: centred_def)
  qed
  have middle: "word_of_int (2 * ?e) + word_of_int d = (of_nat (nat (2 * ?e + d)) :: i64)" if "d \<in> set (lay t 1)" for d
  proof -
    have "0 \<le> 2 * ?e + d" using d [OF that] by simp
    then show ?thesis by (simp only: of_nat_nat of_int_add)
  qed
  show "data_at (a + word_of_int (2 * ?e)) (lay t 1) = at a (offsets t)"
    unfolding data_at_def at_def offsets_def map_map comp_def add.assoc
    by (rule map_cong [OF refl], simp only: middle)
  show "set (offsets t) \<subseteq> {..<unat (word_of_int (4 * ?e) :: i64)}"
  proof
    fix k assume "k \<in> set (offsets t)"
    then obtain x where x: "x \<in> set (lay t 1)" "k = nat (2 * ?e + x)" unfolding offsets_def set_map by blast
    have "k < nat (4 * ?e)" using x(2) d [OF x(1)] by linarith
    then show "k \<in> {..<unat (word_of_int (4 * ?e) :: i64)}" by (simp only: unat_eq_nat_uint u [OF x(1)] lessThan_iff)
  qed
  show "distinct (offsets t)"
    unfolding offsets_def distinct_map
  proof
    show "distinct (lay t 1)" using assms unfolding centred_def by blast
    show "inj_on (\<lambda>d. nat (2 * ?e + d)) (set (lay t 1))"
    proof (rule inj_onI)
      fix x y assume "x \<in> set (lay t 1)" "y \<in> set (lay t 1)" "nat (2 * ?e + x) = nat (2 * ?e + y)"
      then show "x = y" using d [of x] d [of y] by linarith
    qed
  qed
qed

lemma moves_pack:
  assumes "\<forall>m. separate m p D q \<longrightarrow> (\<exists>m' k. (\<forall>j \<ge> k. code j m = Some m') \<and>
      written m (run_at q (length D)) (bytes_of m (data_at p D)) m')"
    and "set (data_at p D) \<inter> set (run_at q (length D)) = {}"
  shows "moves_bytes code (run_at q (length D)) (data_at p D)"
  using assms unfolding moves_bytes_def separate_sets by (auto simp: Int_commute Un_commute)

lemma moves_unpack:
  assumes "\<forall>m. separate m p D q \<longrightarrow> (\<exists>m' k. (\<forall>j \<ge> k. code j m = Some m') \<and>
      written m (data_at p D) (bytes_of m (run_at q (length D))) m')"
    and "set (data_at p D) \<inter> set (run_at q (length D)) = {}"
  shows "moves_bytes code (data_at p D) (run_at q (length D))"
  using assms unfolding moves_bytes_def separate_sets by auto

text \<open>The buffers of a report: malloc serves all four, and the memory that fills the caches.\<close>

definition room :: "allocator \<Rightarrow> i64 \<Rightarrow> i64 \<Rightarrow> heap \<Rightarrow> bool" where
  "room A n e h \<longleftrightarrow>
     (let h1 = snd (alloc_buffer A n ALIGNMENT h); h2 = snd (alloc_buffer A e ALIGNMENT h1);
        h3 = snd (alloc_buffer A n ALIGNMENT h2); h4 = snd (alloc_buffer A e ALIGNMENT h3)
      in mallocs A n (heap_mem h) \<and> mallocs A e (heap_mem h1) \<and> mallocs A n (heap_mem h2) \<and> mallocs A e (heap_mem h3) \<and>
        (\<forall>m. dom m = dom (heap_mem h4) \<longrightarrow> mallocs A CACHE_SIZE m))"

definition apart :: "i64 \<Rightarrow> i64 \<Rightarrow> i64 \<times> i64 \<times> i64 \<times> i64 \<Rightarrow> mem \<Rightarrow> bool" where
  "apart n e bufs m \<longleftrightarrow> (case bufs of (a, b, c, d) \<Rightarrow>
     region a n \<union> region b e \<subseteq> dom m \<and> region c n \<union> region d e \<subseteq> dom m \<and> region a n \<inter> region b e = {} \<and>
     region c n \<inter> region d e = {} \<and> (region a n \<union> region b e) \<inter> (region c n \<union> region d e) = {})"

lemma buffers_allocated:
  assumes "room A n e h" "alloc_buffers A n e h = ((a, b, c, d), h')"
  shows "apart n e (a, b, c, d) (heap_mem h')" "0 \<notin> {a, b, c, d}"
    "blocks h' = (blocks h)(a \<mapsto> unat n, b \<mapsto> unat e, c \<mapsto> unat n, d \<mapsto> unat e)"
    "\<And>x. x \<in> region a n \<union> region b e \<union> (region c n \<union> region d e) \<Longrightarrow> heap_mem h x = None"
    "\<And>x. x \<notin> region a n \<union> region b e \<union> (region c n \<union> region d e) \<Longrightarrow> heap_mem h' x = heap_mem h x"
    "\<forall>m. dom m = dom (heap_mem h') \<longrightarrow> mallocs A CACHE_SIZE m"
proof -
  obtain h1 where 1: "c_memalign A 1 n h = (a, h1)" using assms(2)
    by (cases "c_memalign A 1 n h") (auto simp: alloc_buffers_def alloc_buffer_def ALIGNMENT_def split: prod.splits)
  obtain h2 where 2: "c_memalign A 1 e h1 = (b, h2)" using assms(2) 1
    by (cases "c_memalign A 1 e h1") (auto simp: alloc_buffers_def alloc_buffer_def ALIGNMENT_def split: prod.splits)
  obtain h3 where 3: "c_memalign A 1 n h2 = (c, h3)" using assms(2) 1 2
    by (cases "c_memalign A 1 n h2") (auto simp: alloc_buffers_def alloc_buffer_def ALIGNMENT_def split: prod.splits)
  have 4: "c_memalign A 1 e h3 = (d, h')" using assms(2) 1 2 3
    by (cases "c_memalign A 1 e h3") (auto simp: alloc_buffers_def alloc_buffer_def ALIGNMENT_def split: prod.splits)
  have r: "mallocs A n (heap_mem h)" "mallocs A e (heap_mem h1)" "mallocs A n (heap_mem h2)" "mallocs A e (heap_mem h3)"
    and cache: "\<forall>m. dom m = dom (heap_mem h') \<longrightarrow> mallocs A CACHE_SIZE m"
    using assms(1) by (simp_all add: room_def alloc_buffer_def ALIGNMENT_def 1 2 3 4 Let_def)
  note b = malloc_block [OF r(1) 1] malloc_block [OF r(2) 2] malloc_block [OF r(3) 3] malloc_block [OF r(4) 4]
  show "apart n e (a, b, c, d) (heap_mem h')"
    unfolding apart_def using b(3,4,8,9,13,14,18,19) by auto
  show "0 \<notin> {a, b, c, d}" using b(1,6,11,16) by auto
  show "blocks h' = (blocks h)(a \<mapsto> unat n, b \<mapsto> unat e, c \<mapsto> unat n, d \<mapsto> unat e)" using b(2,7,12,17) by simp
  show "heap_mem h x = None" if "x \<in> region a n \<union> region b e \<union> (region c n \<union> region d e)" for x
    using that b(3,4,8,9,13,14,18) by (auto simp: domIff)
  show "heap_mem h' x = heap_mem h x" if "x \<notin> region a n \<union> region b e \<union> (region c n \<union> region d e)" for x
    using that b(5,10,15,20) by simp
  show "\<forall>m. dom m = dom (heap_mem h') \<longrightarrow> mallocs A CACHE_SIZE m" by (rule cache)
qed

lemma frees:
  assumes "apart n e (a, b, c, d) m0" "0 \<notin> {a, b, c, d}" "0 < unat n" "0 < unat e"
    "blocks h = B(a \<mapsto> unat n, b \<mapsto> unat e, c \<mapsto> unat n, d \<mapsto> unat e)"
  shows "\<exists>h'. Option.bind (heap_free b h) (\<lambda>h. Option.bind (heap_free a h) (\<lambda>h. Option.bind (heap_free d h) (heap_free c))) = Some h' \<and>
    heap_mem h' = (\<lambda>x. if x \<in> region a n \<union> region b e \<union> (region c n \<union> region d e) then None else heap_mem h x)"
proof -
  have self: "a \<in> region a n" "b \<in> region b e" "c \<in> region c n" "d \<in> region d e" by (simp_all add: in_run assms(3,4))
  have ne: "a \<noteq> b" "a \<noteq> c" "a \<noteq> d" "b \<noteq> c" "b \<noteq> d" "c \<noteq> d" using assms(1) self unfolding apart_def by auto
  note bl = free_block [of b h e] free_block [of a _ n] free_block [of d _ e] free_block [of c _ n]
  show ?thesis using assms(2,5) ne by (auto simp: bl fun_eq_iff simp del: heap.simps(3))
qed

section \<open>The comparison\<close>

lemma distinct_at:
  assumes "set A \<subseteq> {..<unat (e :: i64)}" "distinct A"
  shows "distinct (at x A)"
proof -
  have "inj_on (\<lambda>k. x + (of_nat k :: i64)) (set A)"
  proof (rule inj_onI)
    fix i j assume ij: "i \<in> set A" "j \<in> set A" "x + (of_nat i :: i64) = x + of_nat j"
    then have "i < 2 ^ 64" "j < 2 ^ 64" using assms(1) unat_below [of e] by auto
    then show "i = j" using ij(3) by (metis add_left_cancel unat64)
  qed
  then show ?thesis unfolding at_def distinct_map using assms(2) by blast
qed

text \<open>Packing and unpacking in the middle of a big buffer, by the offsets in both buffers.\<close>

lemma centred_moves:
  assumes t: "centred t" "unat n = length (lay t 1)" "e = word_of_int (4 * getExtent t)" and r: "region b e \<inter> region a n = {}"
  shows "(\<And>m. separate m (b + word_of_int (2 * getExtent t)) (lay t 1) a \<Longrightarrow> \<exists>m' k. (\<forall>j \<ge> k. code j m = Some m') \<and>
      written m (run_at a (length (lay t 1))) (bytes_of m (data_at (b + word_of_int (2 * getExtent t)) (lay t 1))) m') \<Longrightarrow>
      moves_bytes code (at a [0..<unat n]) (at b (offsets t))"
    "(\<And>m. separate m (b + word_of_int (2 * getExtent t)) (lay t 1) a \<Longrightarrow> distinct (data_at (b + word_of_int (2 * getExtent t)) (lay t 1)) \<Longrightarrow>
      \<exists>m' k. (\<forall>j \<ge> k. code j m = Some m') \<and>
      written m (data_at (b + word_of_int (2 * getExtent t)) (lay t 1)) (bytes_of m (run_at a (length (lay t 1)))) m') \<Longrightarrow>
      moves_bytes code (at b (offsets t)) (at a [0..<unat n])"
proof -
  note A = centred_at(1) [OF t(1), of b, folded t(3)] centred_at(2,3) [OF t(1), folded t(3)]
  have B: "run_at a (length (lay t 1)) = at a [0..<unat n]" by (simp only: run_at_at t(2))
  have "set (at b (offsets t)) \<subseteq> region b e" "set (at a [0..<unat n]) \<subseteq> region a n"
    using at_run [OF A(2)] by (blast, simp add: run_at_at)
  then have d: "set (data_at (b + word_of_int (2 * getExtent t)) (lay t 1)) \<inter> set (run_at a (length (lay t 1))) = {}"
    "distinct (data_at (b + word_of_int (2 * getExtent t)) (lay t 1))"
    unfolding A(1) B using r distinct_at [OF A(2,3)] by blast+
  show "moves_bytes code (at a [0..<unat n]) (at b (offsets t))"
    if "\<And>m. separate m (b + word_of_int (2 * getExtent t)) (lay t 1) a \<Longrightarrow> \<exists>m' k. (\<forall>j \<ge> k. code j m = Some m') \<and>
      written m (run_at a (length (lay t 1))) (bytes_of m (data_at (b + word_of_int (2 * getExtent t)) (lay t 1))) m'"
    using moves_pack [OF _ d(1)] that unfolding A(1) B by blast
  show "moves_bytes code (at b (offsets t)) (at a [0..<unat n])"
    if "\<And>m. separate m (b + word_of_int (2 * getExtent t)) (lay t 1) a \<Longrightarrow> distinct (data_at (b + word_of_int (2 * getExtent t)) (lay t 1)) \<Longrightarrow>
      \<exists>m' k. (\<forall>j \<ge> k. code j m = Some m') \<and>
      written m (data_at (b + word_of_int (2 * getExtent t)) (lay t 1)) (bytes_of m (run_at a (length (lay t 1)))) m'"
    using moves_unpack [OF _ d(1)] that [OF _ d(2)] unfolding A(1) B by blast
qed

lemma both_libraries_move:
  assumes L: "conforms L d t" "centred t" and c: "committed True (t, c)" "committed False (t, c)"
    and ne: "unat n = length (lay t 1)" "e = word_of_int (4 * getExtent t)" and r: "region b e \<inter> region a n = {}"
  shows "moves_bytes (\<lambda>j. Pack L (b + word_of_int (2 * getExtent t)) d a) (at a [0..<unat n]) (at b (offsets t))"
    "moves_bytes (\<lambda>j. Unpack L a (b + word_of_int (2 * getExtent t)) d) (at b (offsets t)) (at a [0..<unat n])"
    "moves_bytes (\<lambda>j. DDT_Pack j (b + word_of_int (2 * getExtent t)) a c 1) (at a [0..<unat n]) (at b (offsets t))"
    "moves_bytes (\<lambda>j. DDT_Unpack j a (b + word_of_int (2 * getExtent t)) c 1) (at b (offsets t)) (at a [0..<unat n])"
proof -
  have one: "lay t (unat (1 :: i32)) = lay t 1" "0 <s (1 :: i32)" by (simp, code_simp)
  note moves = centred_moves [OF L(2) ne r]
  note pack = ddt.pack_spec [OF c(1) one(2), unfolded fst_conv snd_conv one(1)]
  note unpack = ddt.unpack_spec [OF c(2) one(2), unfolded fst_conv snd_conv one(1)]
  show "moves_bytes (\<lambda>j. Pack L (b + word_of_int (2 * getExtent t)) d a) (at a [0..<unat n]) (at b (offsets t))"
    using L(1) unfolding conforms_def by (intro moves(1)) blast
  show "moves_bytes (\<lambda>j. Unpack L a (b + word_of_int (2 * getExtent t)) d) (at b (offsets t)) (at a [0..<unat n])"
    using L(1) unfolding conforms_def by (intro moves(2)) blast
  show "moves_bytes (\<lambda>j. DDT_Pack j (b + word_of_int (2 * getExtent t)) a c 1) (at a [0..<unat n]) (at b (offsets t))"
    using pack by (intro moves(1)) blast
  show "moves_bytes (\<lambda>j. DDT_Unpack j a (b + word_of_int (2 * getExtent t)) c 1) (at b (offsets t)) (at a [0..<unat n])"
    using unpack by (intro moves(2)) blast
qed

lemma compare_libraries_agree:
  assumes L: "conforms L d t" "centred t" and c: "committed True (t, c)" "committed False (t, c)"
    and ne: "unat n = length (lay t 1)" "e = word_of_int (4 * getExtent t)"
    and m: "apart n e (a, b, a', b') m" "\<forall>m'. dom m' = dom m \<longrightarrow> mallocs (allocate S) CACHE_SIZE m'"
  shows "\<exists>times m' k. (\<forall>j \<ge> k. compare_libraries S L j \<lparr>farc_type = t, mpi_type = d\<rparr> c n (getExtent t * 4) (a, b, a', b') m =
      Some ([], times, m')) \<and> length times = 8 \<and>
    (\<forall>x. x \<notin> region a n \<union> region b e \<union> (region a' n \<union> region b' e) \<longrightarrow> m' x = m x)"
proof -
  let ?A = "offsets t" and ?B = "[0..<unat n]"
  have A: "set ?A \<subseteq> {..<unat e}" "distinct ?A" using centred_at(2,3) [OF L(2)] unfolding ne(2) by simp_all
  have AB: "set ?B \<subseteq> {..<unat n}" "distinct ?B" "length ?A = length ?B" by (auto simp: offsets_def ne(1))
  have r: "region b e \<union> region a n \<subseteq> dom m" "region b' e \<union> region a' n \<subseteq> dom m" "region b e \<inter> region a n = {}"
    "region b' e \<inter> region a' n = {}" "(region b e \<union> region a n) \<inter> (region b' e \<union> region a' n) = {}"
    using m(1) unfolding apart_def by auto
  note move = both_libraries_move [OF L c ne r(3)] both_libraries_move [OF L c ne r(4)]
  let ?P = "Pack L (b + word_of_int (2 * getExtent t)) d a" and ?P' = "\<lambda>j. DDT_Pack j (b' + word_of_int (2 * getExtent t)) a' c 1"
  let ?U = "Unpack L a (b + word_of_int (2 * getExtent t)) d" and ?U' = "\<lambda>j. DDT_Unpack j a' (b' + word_of_int (2 * getExtent t)) c 1"
  let ?T = "\<lambda>i. [median_ticks (clocks S i), median_ticks (clocks S (Suc i))]"
  from both_measured [OF r AB(1) A(1) AB(3)[symmetric] AB(2) move(1,7) m(2), of 2 True False 4 PackInput PackOutput]
  obtain m1 m2 k1 where 1: "\<forall>j \<ge> k1. measured S 2 ?P (e, b, True) (n, a, False) m = Some (?T 2, m1) \<and>
      measured S 4 (?P' j) (e, b', True) (n, a', False) m1 = Some (?T 4, m2)"
    "verify e b b' PackInput m2 = Some []" "verify n a a' PackOutput m2 = Some []" "dom m2 = dom m"
    "\<forall>x. x \<notin> region b e \<union> region a n \<union> (region b' e \<union> region a' n) \<longrightarrow> m2 x = m x" by blast
  have r2: "region a n \<union> region b e \<subseteq> dom m2" "region a' n \<union> region b' e \<subseteq> dom m2" "region a n \<inter> region b e = {}"
    "region a' n \<inter> region b' e = {}" "(region a n \<union> region b e) \<inter> (region a' n \<union> region b' e) = {}"
    "\<forall>m'. dom m' = dom m2 \<longrightarrow> mallocs (allocate S) CACHE_SIZE m'" using r m(2) 1(4) by auto
  from both_measured [OF r2(1-5) A(1) AB(1,3) A(2) move(2,8) r2(6), of 6 True False 8 UnpackInput UnpackOutput]
  obtain m3 m4 k2 where 2: "\<forall>j \<ge> k2. measured S 6 ?U (n, a, True) (e, b, False) m2 = Some (?T 6, m3) \<and>
      measured S 8 (?U' j) (n, a', True) (e, b', False) m3 = Some (?T 8, m4)"
    "verify n a a' UnpackInput m4 = Some []" "verify e b b' UnpackOutput m4 = Some []" "dom m4 = dom m2"
    "\<forall>x. x \<notin> region a n \<union> region b e \<union> (region a' n \<union> region b' e) \<longrightarrow> m4 x = m2 x" by blast
  have "compare_libraries S L j \<lparr>farc_type = t, mpi_type = d\<rparr> c n (getExtent t * 4) (a, b, a', b') m = Some ([], ?T 2 @ ?T 4 @ ?T 6 @ ?T 8, m4)"
    if "max k1 k2 \<le> j" for j
  proof -
    have "k1 \<le> j" "k2 \<le> j" using that by simp_all
    note j = 1(1)[rule_format, OF this(1)] 2(1)[rule_format, OF this(2)]
    have half: "getExtent t * 4 div 2 = 2 * getExtent t" by simp
    have e: "word_of_int (getExtent t * 4) = e" by (simp add: ne(2))
    show ?thesis by (simp add: compare_libraries_def Let_def half e del: of_int_mult add: j [THEN conjunct1] j [THEN conjunct2] 1(2,3) 2(2,3))
  qed
  moreover have "m4 x = m x" if "x \<notin> region a n \<union> region b e \<union> (region a' n \<union> region b' e)" for x
    using 1(5) 2(5) that by auto
  ultimately show ?thesis by (intro exI [of _ "?T 2 @ ?T 4 @ ?T 6 @ ?T 8"] exI [of _ m4] exI [of _ "max k1 k2"]) simp
qed

lemma commits_last: "commits k t G = Some c \<Longrightarrow> \<exists>G'. DDT_Commit t G' = Some c"
  by (induction k arbitrary: G) (auto split: Option.bind_splits)

lemma commits_total:
  assumes "built t" "regular t" "fits t"
  shows "\<exists>c. commits k t G = Some c"
proof (induction k arbitrary: G)
  case 0
  then show ?case using commit_ready [OF assms, of G] by (metis commits.simps(1))
next
  case (Suc k)
  obtain c where "DDT_Commit t G = Some c" using commit_ready [OF assms, of G] by metis
  then show ?case using Suc by simp
qed

lemma report_datatype_agrees:
  assumes t: "built t" "regular t" "fits t" "handled True t" "handled False t" and L: "conforms L d t" "centred t"
    and h: "room (allocate S) (word_of_int (getSize t)) (word_of_int (getExtent t * 4)) h"
  shows "\<exists>times G h' k. (\<forall>j \<ge> k. report_datatype S L j \<lparr>farc_type = t, mpi_type = d\<rparr> llmod h = Some (Row [] times, G, h')) \<and>
    length times = 10 \<and> heap_mem h' = heap_mem h"
proof -
  let ?n = "word_of_int (getSize t) :: i64" and ?e = "word_of_int (getExtent t * 4) :: i64"
  have so: "sound t" using t(1,2) by (rule built_sound)
  have n: "unat ?n = length (lay t 1)" "0 < unat ?n"
    using length_lay [OF so, of 1] size_fits [OF so t(3)] size_pos [OF so] unfolding unat_eq_nat_uint by (simp_all add: uint64)
  have e: "?e = word_of_int (4 * getExtent t)" by (simp add: mult.commute)
  have "lay t 1 \<noteq> []" using n by auto
  then have "offsets t \<noteq> []" by (simp add: offsets_def)
  then have e0: "0 < unat ?e" using centred_at(2) [OF L(2)] unfolding e by (cases "offsets t") auto
  obtain c where c: "commits (WARMUP + NUMRUNS - 1) t llmod = Some c" using commits_total [OF t(1-3)] by blast
  then have cc: "committed True (t, c)" "committed False (t, c)" using commits_last t by (auto simp: committed_def)
  obtain a b a' b' h' where al: "alloc_buffers (allocate S) ?n ?e h = ((a, b, a', b'), h')"
    by (cases "alloc_buffers (allocate S) ?n ?e h") auto
  note bu = buffers_allocated [OF h al]
  from compare_libraries_agree [OF L cc n(1) e bu(1,6)] obtain times m' k where run:
    "\<forall>j \<ge> k. compare_libraries S L j \<lparr>farc_type = t, mpi_type = d\<rparr> c ?n (getExtent t * 4) (a, b, a', b') (heap_mem h') = Some ([], times, m')"
    "length times = 8" "\<forall>x. x \<notin> region a ?n \<union> region b ?e \<union> (region a' ?n \<union> region b' ?e) \<longrightarrow> m' x = heap_mem h' x" by blast
  have "blocks (h'\<lparr>heap_mem := m'\<rparr>) = (blocks h)(a \<mapsto> unat ?n, b \<mapsto> unat ?e, a' \<mapsto> unat ?n, b' \<mapsto> unat ?e)"
    using bu(3) by simp
  from frees [OF bu(1,2) n(2) e0 this] obtain h2 where f:
    "Option.bind (heap_free b (h'\<lparr>heap_mem := m'\<rparr>)) (\<lambda>h. Option.bind (heap_free a h) (\<lambda>h. Option.bind (heap_free b' h) (heap_free a'))) = Some h2"
    "heap_mem h2 = (\<lambda>x. if x \<in> region a ?n \<union> region b ?e \<union> (region a' ?n \<union> region b' ?e) then None else heap_mem (h'\<lparr>heap_mem := m'\<rparr>) x)" by blast
  have "heap_mem h2 = heap_mem h"
    using f(2) run(3) bu(4,5) by (auto simp: fun_eq_iff)
  moreover have "report_datatype S L j \<lparr>farc_type = t, mpi_type = d\<rparr> llmod h =
      Some (Row [] ([median_ticks (clocks S 0), median_ticks (clocks S 1)] @ times), module_globals c, h2)" if "k \<le> j" for j
    using L(1) al c run(1) that f(1) by (auto simp: report_datatype_def conforms_def Let_def split: Option.bind_splits)
  ultimately show ?thesis using run(2)
    by (intro exI [of _ "[median_ticks (clocks S 0), median_ticks (clocks S 1)] @ times"] exI [of _ "module_globals c"] exI [of _ h2] exI [of _ k]) simp
qed

lemma room_heap: "room A n e h \<Longrightarrow> heap_mem h' = heap_mem h \<Longrightarrow> room A n e h'"
proof -
  assume r: "room A n e h" and h: "heap_mem h' = heap_mem h"
  have "heap_mem (snd (alloc_buffer A k ALIGNMENT g)) = heap_mem (snd (alloc_buffer A k ALIGNMENT g'))"
    if "heap_mem g = heap_mem g'" for k g g'
    using that by (simp add: alloc_buffer_def ALIGNMENT_def c_memalign_def case_prod_beta cong: if_cong)
  then show "room A n e h'" using r h unfolding room_def Let_def by metis
qed

definition comparable :: "machine \<Rightarrow> 'd mpi_library \<Rightarrow> heap \<Rightarrow> 'd pair \<Rightarrow> bool" where
  "comparable S L h d \<longleftrightarrow> built (farc_type d) \<and> regular (farc_type d) \<and> fits (farc_type d) \<and>
     handled True (farc_type d) \<and> handled False (farc_type d) \<and> centred (farc_type d) \<and> conforms L (mpi_type d) (farc_type d) \<and>
     room (allocate S) (word_of_int (getSize (farc_type d))) (word_of_int (getExtent (farc_type d) * 4)) h"

text \<open>
  C22: The player finds no difference between this library and an MPI library that implements
  the type maps.  Every datatype of its input is regular, fitting and of handled code, malloc
  serves the buffers, and the datatype is \<open>centred\<close>: no byte of it is more than two extents
  away from the middle of the buffer of four extents the player works in, no two of its bytes
  overlap, and four extents are less than 2 GB (this excludes hidx(1000,1)[int], lemma
  \<open>not_centred\<close>).  Then the player returns a row without messages for each datatype and
  frees the four buffers of each: before the datatypes are freed the bytes in use are those
  of the start.
\<close>

theorem player_finds_no_difference:
  assumes "\<forall>d \<in> set ds. comparable S L h d"
  shows "\<exists>rows G h' k. (\<forall>j \<ge> k. produce_report S L j ds llmod h = Some (map (Row []) rows, G, h')) \<and>
    length rows = length ds \<and> heap_mem h' = heap_mem h"
  using assms
proof (induction ds arbitrary: S llmod h)
  case (Cons d ds)
  obtain t e where d: "d = \<lparr>farc_type = t, mpi_type = e\<rparr>" by (cases d)
  have c: "comparable S L h \<lparr>farc_type = t, mpi_type = e\<rparr>" using Cons.prems d by simp
  from report_datatype_agrees [of t L e S h llmod] c obtain times G h1 k1 where 1:
    "\<forall>j \<ge> k1. report_datatype S L j d llmod h = Some (Row [] times, G, h1)" "heap_mem h1 = heap_mem h"
    unfolding comparable_def d by auto
  let ?S = "S\<lparr>clocks := \<lambda>i. clocks S (i + 10)\<rparr>"
  have "\<forall>d \<in> set ds. comparable ?S L h1 d"
    using Cons.prems room_heap [OF _ 1(2)] by (simp add: comparable_def)
  from Cons.IH [OF this, of G] obtain rows G2 h2 k2 where 2:
    "\<forall>j \<ge> k2. produce_report ?S L j ds G h1 = Some (map (Row []) rows, G2, h2)" "length rows = length ds" "heap_mem h2 = heap_mem h1"
    by auto
  have "\<forall>j \<ge> max k1 k2. produce_report S L j (d # ds) llmod h = Some (map (Row []) (times # rows), G2, h2)"
    using 1(1) 2(1) by simp
  then show ?case using 1(2) 2(2,3) by (intro exI [of _ "times # rows"] exI [of _ G2] exI [of _ h2] exI [of _ "max k1 k2"]) simp
qed auto

text \<open>
  For an indexed block type with blocks of more than one element, whose stored size leaves out
  the block length, the player ends at the first comparison.
\<close>

corollary player_stops_at_indexed_block:
  assumes "built b" "regular b" "0 < count" "1 < blocklen" "nat count \<le> length displ" "t = IndexedBlockDatatype count blocklen displ b"
    and "Type_size L d = int (length (tm_bytes (mpi t)))"
  shows "report_datatype S L j \<lparr>farc_type = t, mpi_type = d\<rparr> llmod h = Some (Exits (SizeMismatch (Type_size L d) (getSize t)), llmod, h)"
proof -
  have pos: "0 < getSize b" using size_pos [OF built_sound [OF assms(1,2)]] .
  then have "count * getSize b < count * (blocklen * getSize b)"
    using assms(3,4) by (intro mult_strict_left_mono) simp_all
  then have "getSize t \<noteq> Type_size L d"
    using indexed_block_sizes [OF assms(1-3,5), of blocklen] assms(3,4,6,7) pos by simp
  then show ?thesis by (simp add: report_datatype_def Let_def cong: if_cong)
qed

text \<open>The ticks of a measurement are the difference of the two counters.\<close>

definition ticks :: "timestamp \<Rightarrow> nat" where
  "ticks t = unat (ts_h t) * 2 ^ 32 + unat (ts_l t)"

lemma joined_halves: "unat (push_bit 32 (ucast (h :: i32)) OR ucast (l :: i32) :: i64) = unat h * 2 ^ 32 + unat l"
proof -
  have "push_bit 32 (ucast h) AND (ucast l :: i64) = 0"
    by (rule bit_eqI) (auto simp: bit_simps dest: bit_imp_le_length)
  then have "push_bit 32 (ucast h) OR ucast l = (push_bit 32 (ucast h) + ucast l :: i64)"
    by (simp add: disjunctive_add_eq_or)
  moreover have b: "unat h < 2 ^ 32" "unat l < 2 ^ 32" using unsigned_less [of h, where ?'a = nat] unsigned_less [of l, where ?'a = nat] by simp_all
  moreover have "take_bit 64 (unat h) = unat h" "take_bit 64 (unat l) = unat l"
    using b by (simp_all add: take_bit_nat_eq_self)
  ultimately show ?thesis
    by (simp add: unat_word_ariths push_bit_eq_mult unsigned_ucast_eq)
qed

lemma elapsed_ticks:
  assumes "ticks t1 \<le> ticks t2"
  shows "unat (HRT_GET_ELAPSED_TICKS t1 t2) = ticks t2 - ticks t1"
  using assms unfolding HRT_GET_ELAPSED_TICKS_def ticks_def
  by (subst unat_sub) (simp_all add: word_le_nat_alt joined_halves)

section \<open>A report\<close>

definition ex_player :: ddt where
  "ex_player = VectorDatatype 2 1 2 (PrimitiveDatatype INTEGER)"

definition ex_library :: "ddt mpi_library" where
  "ex_library = \<lparr>Type_size = getSize, Type_extent = getExtent,
     Pack = (\<lambda>p d q m. Some (cps (xfer True p q (lay d 1)) m)), Unpack = (\<lambda>q p d m. Some (cps (xfer False q p (lay d 1)) m))\<rparr>"

definition ex_malloc :: allocator where
  "ex_malloc alignment sz m = (if sz = CACHE_SIZE then 2 ^ 32 else if m 4096 = None then 4096 else if m 8192 = None then 8192
     else if m 12288 = None then 12288 else 16384, replicate (unat sz) 0)"

definition ex_machine :: machine where
  "ex_machine = \<lparr>allocate = ex_malloc, rands = int, clocks = (\<lambda>i k. \<lparr>ts_l = of_nat (i + k), ts_h = 0\<rparr>)\<rparr>"

definition no_heap :: heap where
  "no_heap = \<lparr>blocks = Map.empty, heap_mem = Map.empty\<rparr>"

lemma ex_conforms: "conforms ex_library ex_player ex_player"
proof -
  have "length (lay ex_player 1) = 8" by code_simp
  then have l: "length (lay ex_player 1) < 2 ^ 64" by simp
  have "\<exists>m'. Pack ex_library p ex_player q m = Some m' \<and>
       written m (run_at q (length (lay ex_player 1))) (bytes_of m (data_at p (lay ex_player 1))) m'"
    if "separate m p (lay ex_player 1) q" for m p q
    using packed_bytes [OF that l] by (simp only: ex_library_def mpi_library.simps option.inject ex_simps simp_thms)
  moreover have "\<exists>m'. Unpack ex_library q p ex_player m = Some m' \<and>
       written m (data_at p (lay ex_player 1)) (bytes_of m (run_at q (length (lay ex_player 1)))) m'"
    if "separate m p (lay ex_player 1) q" "distinct (data_at p (lay ex_player 1))" for m p q
    using unpacked_bytes [OF that] by (simp only: ex_library_def mpi_library.simps option.inject ex_simps simp_thms)
  moreover have "Type_size ex_library ex_player = getSize ex_player" "Type_extent ex_library ex_player = getExtent ex_player"
    by (simp_all add: ex_library_def)
  ultimately show ?thesis unfolding conforms_def by blast
qed

lemma ex_serves:
  assumes "\<forall>x \<in> dom m. x < a" "a \<noteq> 0" "fst (ex_malloc 1 n m) = a" "unat a + unat n < 2 ^ 64"
  shows "mallocs ex_malloc n m"
proof -
  have "m (a + of_nat k) = None" if "k < unat n" for k
  proof (rule ccontr)
    assume "m (a + of_nat k) \<noteq> None"
    then have "a + of_nat k < a" using assms(1) by blast
    moreover have "unat (a + of_nat k) = unat a + k" using that assms(4) by (intro unat_offset) simp
    ultimately show False by (simp add: word_less_nat_alt)
  qed
  moreover have "ex_malloc 1 n m = (a, replicate (unat n) 0)" using assms(3) by (simp add: ex_malloc_def)
  ultimately show ?thesis using assms(2) by (simp add: mallocs_def serves_def list_all_iff)
qed

lemma ex_malloc_dom: "fst (ex_malloc alignment sz m) = (if sz = CACHE_SIZE then 2 ^ 32 else if 4096 \<notin> dom m then 4096
     else if 8192 \<notin> dom m then 8192 else if 12288 \<notin> dom m then 12288 else 16384)"
  by (simp add: ex_malloc_def domIff)

lemma ex_room: "room ex_malloc 8 48 no_heap"
proof -
  define h1 where "h1 = snd (c_memalign ex_malloc 1 8 no_heap)"
  define h2 where "h2 = snd (c_memalign ex_malloc 1 48 h1)"
  define h3 where "h3 = snd (c_memalign ex_malloc 1 8 h2)"
  define h4 where "h4 = snd (c_memalign ex_malloc 1 48 h3)"
  have at: "c_memalign ex_malloc 1 n h = (fst (ex_malloc 1 n (heap_mem h)), snd (c_memalign ex_malloc 1 n h))" for n h
    by (simp add: c_memalign_def case_prod_beta)
  have regions: "\<forall>x \<in> set (run_at 4096 8). 4096 \<le> x \<and> x < 8192" "\<forall>x \<in> set (run_at 8192 48). 8192 \<le> x \<and> x < 12288"
    "\<forall>x \<in> set (run_at 12288 8). 12288 \<le> x \<and> x < 16384" "\<forall>x \<in> set (run_at 16384 48). 16384 \<le> x \<and> x < 20480"
    "4096 \<in> set (run_at 4096 8)" "8192 \<in> set (run_at 8192 48)" "12288 \<in> set (run_at 12288 8)"
    unfolding list_all_iff [symmetric] by code_simp+
  have small: "8 \<noteq> CACHE_SIZE" "48 \<noteq> CACHE_SIZE" by code_simp+
  have d0: "dom (heap_mem no_heap) = {}" by (simp add: no_heap_def)
  have a1: "fst (ex_malloc 1 8 (heap_mem no_heap)) = 4096" by (simp add: ex_malloc_def small no_heap_def)
  have m1: "mallocs ex_malloc 8 (heap_mem no_heap)" by (rule ex_serves [OF _ _ a1]) (simp_all add: d0)
  have d1: "dom (heap_mem h1) = set (run_at 4096 8)"
    using malloc_block(4) [OF m1 at] by (simp add: d0 a1 flip: h1_def)
  have a2: "fst (ex_malloc 1 48 (heap_mem h1)) = 8192"
    using regions(1,5) by (auto simp: ex_malloc_dom small d1)
  have m2: "mallocs ex_malloc 48 (heap_mem h1)" by (rule ex_serves [OF _ _ a2]) (use regions(1) in \<open>simp_all add: d1\<close>)
  have d2: "dom (heap_mem h2) = set (run_at 4096 8) \<union> set (run_at 8192 48)"
    using malloc_block(4) [OF m2 at] by (simp add: d1 a2 flip: h2_def)
  have a3: "fst (ex_malloc 1 8 (heap_mem h2)) = 12288"
    using regions(1,2,5,6) by (auto simp: ex_malloc_dom small d2)
  have m3: "mallocs ex_malloc 8 (heap_mem h2)"
    by (rule ex_serves [OF _ _ a3]) (use regions(1,2) in \<open>auto simp: d2 intro: less_trans\<close>)
  have d3: "dom (heap_mem h3) = set (run_at 4096 8) \<union> set (run_at 8192 48) \<union> set (run_at 12288 8)"
    using malloc_block(4) [OF m3 at] by (simp add: d2 a3 flip: h3_def)
  have a4: "fst (ex_malloc 1 48 (heap_mem h3)) = 16384"
    using regions(5-7) by (simp add: ex_malloc_dom small d3)
  have m4: "mallocs ex_malloc 48 (heap_mem h3)"
    by (rule ex_serves [OF _ _ a4]) (use regions(1-3) in \<open>auto simp: d3 intro: less_trans\<close>)
  have d4: "dom (heap_mem h4) = set (run_at 4096 8) \<union> set (run_at 8192 48) \<union> set (run_at 12288 8) \<union> set (run_at 16384 48)"
    using malloc_block(4) [OF m4 at] by (simp add: d3 a4 flip: h4_def)
  have "\<forall>x \<in> dom (heap_mem h4). x < 2 ^ 32"
    using regions(1-4) unfolding d4 by (auto intro: less_trans)
  then have "mallocs ex_malloc CACHE_SIZE m" if "dom m = dom (heap_mem h4)" for m
    by (intro ex_serves [where a = "2 ^ 32"]) (use that in \<open>simp_all add: ex_malloc_def CACHE_SIZE_def\<close>)
  then show ?thesis using m1 m2 m3 m4 by (simp add: room_def alloc_buffer_def ALIGNMENT_def flip: h1_def h2_def h3_def h4_def)
qed

theorem player_finds_no_difference_witness:
  "\<exists>r1 r2 G h' k. produce_report ex_machine ex_library k (replicate 2 \<lparr>farc_type = ex_player, mpi_type = ex_player\<rparr>) [] no_heap =
    Some ([Row [] r1, Row [] r2], G, h') \<and> heap_mem h' = Map.empty"
proof -
  let ?ds = "replicate 2 \<lparr>farc_type = ex_player, mpi_type = ex_player\<rparr>"
  have t: "built ex_player" "regular ex_player" "fits ex_player" "handled True ex_player" "handled False ex_player" "centred ex_player"
    by (simp add: ex_player_def built.intros) code_simp+
  have "getSize ex_player = 8" "getExtent ex_player = 12" by code_simp+
  then have "room (allocate ex_machine) (word_of_int (getSize ex_player)) (word_of_int (getExtent ex_player * 4)) no_heap"
    using ex_room by (simp add: ex_machine_def)
  then have "\<forall>d \<in> set ?ds. comparable ex_machine ex_library no_heap d"
    using t ex_conforms by (simp add: comparable_def)
  from player_finds_no_difference [OF this, of "[]"] obtain rows G h' k where
    "produce_report ex_machine ex_library k ?ds [] no_heap = Some (map (Row []) rows, G, h')" "length rows = 2"
    "heap_mem h' = Map.empty" by (auto simp: no_heap_def)
  moreover from this(2) obtain r1 r2 where "rows = [r1, r2]" by (auto simp: numeral_2_eq_2 length_Suc_conv)
  ultimately show ?thesis by (intro exI [of _ r1] exI [of _ r2] exI [of _ G] exI [of _ h'] exI [of _ k]) (simp only: list.map)
qed

end
