(* ===== verification/IR_Verifier.thy ===== *)
theory IR_Verifier
  imports Emit_Logic "HOL-Library.Multiset"
begin

text \<open>
  Which functions the verifier of LLVM accepts, as far as the emitted instructions can
  break its rules: every block ends in a terminator and no branch goes to the entry block,
  every register is defined once, every use is dominated by its definition and has the type
  its instruction asks for, and a phi node has one entry for every edge into its block.
  The second half is a check in the order of emission that implies it.
\<close>

section \<open>Types of operands and instructions\<close>

datatype ty = I1 | I32 | I64 | Ptr | Vec | Table

text \<open>\<open>A\<close> are the registers that may be used, \<open>T\<close> the types of all registers, and there are \<open>g\<close> tables.\<close>

fun operand_typed :: "nat \<Rightarrow> ty list \<Rightarrow> (nat \<Rightarrow> bool) \<Rightarrow> operand \<Rightarrow> ty \<Rightarrow> bool" where
  "operand_typed g T A (CI32 _) t = (t = I32)"
| "operand_typed g T A (CI64 _) t = (t = I64)"
| "operand_typed g T A (Reg r) t = (A r \<and> T ! r = t)"
| "operand_typed g T A (GlobalRef k) t = (k < g \<and> t = Table)"

fun defs :: "instr \<Rightarrow> nat list" where
  "defs (PtrToInt r _) = [r]"
| "defs (IntToPtr r _) = [r]"
| "defs (BitCast r _) = [r]"
| "defs (Add r _ _) = [r]"
| "defs (Sub r _ _) = [r]"
| "defs (Mul r _ _) = [r]"
| "defs (ZExt r _) = [r]"
| "defs (ICmpEQ r _ _) = [r]"
| "defs (LoadVec r _ _) = [r]"
| "defs (StoreVec _ _) = []"
| "defs (MemCpy _ _ _) = []"
| "defs (GEP r _ _) = [r]"
| "defs (LoadI32 r _) = [r]"

fun instr_typed :: "nat \<Rightarrow> ty list \<Rightarrow> (nat \<Rightarrow> bool) \<Rightarrow> instr \<Rightarrow> bool" where
  "instr_typed g T A (PtrToInt r a) = (operand_typed g T A a Ptr \<and> T ! r = I64)"
| "instr_typed g T A (IntToPtr r a) = (operand_typed g T A a I64 \<and> T ! r = Ptr)"
| "instr_typed g T A (BitCast r a) = (operand_typed g T A a Ptr \<and> T ! r = Ptr)"
| "instr_typed g T A (Add r a b) =
     (T ! r \<in> {I32, I64} \<and> operand_typed g T A a (T ! r) \<and> operand_typed g T A b (T ! r))"
| "instr_typed g T A (Sub r a b) =
     (T ! r \<in> {I32, I64} \<and> operand_typed g T A a (T ! r) \<and> operand_typed g T A b (T ! r))"
| "instr_typed g T A (Mul r a b) =
     (T ! r \<in> {I32, I64} \<and> operand_typed g T A a (T ! r) \<and> operand_typed g T A b (T ! r))"
| "instr_typed g T A (ZExt r a) = (operand_typed g T A a I32 \<and> T ! r = I64)"
| "instr_typed g T A (ICmpEQ r a b) =
     ((\<exists>t \<in> {I32, I64}. operand_typed g T A a t \<and> operand_typed g T A b t) \<and> T ! r = I1)"
| "instr_typed g T A (LoadVec r a n) = (operand_typed g T A a Ptr \<and> T ! r = Vec)"
| "instr_typed g T A (StoreVec v a) = (operand_typed g T A v Vec \<and> operand_typed g T A a Ptr)"
| "instr_typed g T A (MemCpy d s n) =
     (operand_typed g T A d Ptr \<and> operand_typed g T A s Ptr \<and> operand_typed g T A n I64)"
| "instr_typed g T A (GEP r a i) = (operand_typed g T A a Table \<and> operand_typed g T A i I64 \<and> T ! r = Table)"
| "instr_typed g T A (LoadI32 r a) = (operand_typed g T A a Table \<and> T ! r = I32)"

section \<open>Verified functions\<close>

definition block_defs :: "block \<Rightarrow> nat list" where
  "block_defs b = map fst (phis b) @ concat (map defs (body b))"

fun targets :: "terminator option \<Rightarrow> nat list" where
  "targets (Some (Br t)) = [t]"
| "targets (Some (CondBr c t f)) = [t, f]"
| "targets _ = []"

text \<open>The blocks that branch to \<open>b\<close>, once for every edge.\<close>

definition preds :: "func \<Rightarrow> nat \<Rightarrow> nat list" where
  "preds F b = concat (map (\<lambda>p. map (\<lambda>_. p) (filter ((=) b) (targets (terminator (F ! p))))) [0..<length F])"

text \<open>The blocks on a path from the entry that does not go through \<open>a\<close>.\<close>

inductive avoids :: "func \<Rightarrow> nat \<Rightarrow> nat \<Rightarrow> bool" for F a where
  avoids_entry: "a \<noteq> 0 \<Longrightarrow> avoids F a 0"
| avoids_step: "avoids F a p \<Longrightarrow> p < length F \<Longrightarrow> t \<in> set (targets (terminator (F ! p))) \<Longrightarrow> t \<noteq> a \<Longrightarrow> avoids F a t"

definition dominates :: "func \<Rightarrow> nat \<Rightarrow> nat \<Rightarrow> bool" where
  "dominates F a b \<longleftrightarrow> \<not> avoids F a b"

text \<open>The registers whose value is known before instruction \<open>k\<close> of block \<open>b\<close>, the three arguments first.\<close>

definition available :: "func \<Rightarrow> nat \<Rightarrow> nat \<Rightarrow> nat \<Rightarrow> bool" where
  "available F b k r \<longleftrightarrow> r < 3 \<or> r \<in> set (map fst (phis (F ! b)) @ concat (map defs (take k (body (F ! b))))) \<or>
     (\<exists>a < length F. a \<noteq> b \<and> dominates F a b \<and> r \<in> set (block_defs (F ! a)))"

definition verified_block :: "nat \<Rightarrow> ty list \<Rightarrow> func \<Rightarrow> nat \<Rightarrow> bool" where
  "verified_block g T F b \<longleftrightarrow>
     terminator (F ! b) \<noteq> None \<and>
     (\<forall>t \<in> set (targets (terminator (F ! b))). 0 < t \<and> t < length F) \<and>
     (\<forall>k < length (body (F ! b)). instr_typed g T (available F b k) (body (F ! b) ! k)) \<and>
     (\<forall>c t f. terminator (F ! b) = Some (CondBr c t f) \<longrightarrow>
        operand_typed g T (available F b (length (body (F ! b)))) c I1) \<and>
     (\<forall>(r, inc) \<in> set (phis (F ! b)). mset (map snd inc) = mset (preds F b) \<and>
        (\<forall>(a, p) \<in> set inc. operand_typed g T (available F p (length (body (F ! p)))) a (T ! r)))"

definition verified :: "nat \<Rightarrow> func \<Rightarrow> bool" where
  "verified g F \<longleftrightarrow> F \<noteq> [] \<and> distinct ([0, 1, 2] @ concat (map block_defs F)) \<and>
     (\<exists>T. take 3 T = [Ptr, I32, Ptr] \<and> (\<forall>b < length F. verified_block g T F b))"

section \<open>The check of the builder\<close>

text \<open>
  The builder numbers the registers in the order of emission and inserts into the block it
  made last, and a block but the last one goes on to the next one or back into a loop.  So a
  use is dominated by its definition if the register has a smaller number than the ones defined
  from there on.
\<close>

primrec body_ok :: "nat \<Rightarrow> ty list \<Rightarrow> nat \<Rightarrow> instr list \<Rightarrow> bool" where
  "body_ok g T n [] = True"
| "body_ok g T n (i # is) = ((defs i = [] \<or> defs i = [n]) \<and> instr_typed g T (\<lambda>r. r < n) i \<and>
     body_ok g T (n + length (defs i)) is)"

definition ndefs :: "block \<Rightarrow> nat" where
  "ndefs b = length (block_defs b)"

fun exit_ok :: "nat \<Rightarrow> ty list \<Rightarrow> nat \<Rightarrow> terminator option \<Rightarrow> bool" where
  "exit_ok g T n (Some (CondBr c t f)) = operand_typed g T (\<lambda>r. r < n) c I1"
| "exit_ok g T n _ = True"

definition block_ok :: "nat \<Rightarrow> ty list \<Rightarrow> nat \<Rightarrow> block \<Rightarrow> bool" where
  "block_ok g T n b \<longleftrightarrow> map fst (phis b) = [n..<n + length (phis b)] \<and>
     body_ok g T (n + length (phis b)) (body b) \<and> exit_ok g T (n + ndefs b) (terminator b)"

primrec code_ok :: "nat \<Rightarrow> ty list \<Rightarrow> nat \<Rightarrow> func \<Rightarrow> bool" where
  "code_ok g T n [] = True"
| "code_ok g T n (b # bs) = (block_ok g T n b \<and> code_ok g T (n + ndefs b) bs)"

definition reg_count :: "func \<Rightarrow> nat" where
  "reg_count F = 3 + sum_list (map ndefs F)"

definition ladder :: "func \<Rightarrow> bool" where
  "ladder F \<longleftrightarrow> (\<forall>i. Suc i < length F \<longrightarrow> terminator (F ! i) = Some (Br (Suc i)) \<or>
     (\<exists>c l. terminator (F ! i) = Some (CondBr c (Suc i) l) \<and> 0 < l \<and> l \<le> i))"

definition phi_ok :: "nat \<Rightarrow> ty list \<Rightarrow> func \<Rightarrow> nat \<Rightarrow> nat \<times> (operand \<times> nat) list \<Rightarrow> bool" where
  "phi_ok g T F b q \<longleftrightarrow> mset (map snd (snd q)) = mset (preds F b) \<and>
     (\<forall>(a, p) \<in> set (snd q). p < length F \<and> operand_typed g T (\<lambda>r. r < reg_count (take (Suc p) F)) a (T ! fst q))"

definition phis_ok :: "nat \<Rightarrow> ty list \<Rightarrow> func \<Rightarrow> bool" where
  "phis_ok g T F \<longleftrightarrow> (\<forall>b < length F. \<forall>q \<in> set (phis (F ! b)). phi_ok g T F b q)"

definition checked :: "nat \<Rightarrow> ty list \<Rightarrow> func \<Rightarrow> bool" where
  "checked g T F \<longleftrightarrow> take 3 T = [Ptr, I32, Ptr] \<and> code_ok g T 3 F \<and> reg_count F = length T \<and> ladder F \<and> phis_ok g T F"

definition wfT :: "nat \<Rightarrow> builder \<Rightarrow> ty list \<Rightarrow> bool" where
  "wfT g B T \<longleftrightarrow> length T = nextreg B \<and> Suc (cur B) = length (blocks B) \<and>
     terminator (blocks B ! cur B) = None \<and> checked g T (blocks B)"

section \<open>Checked functions are verified\<close>

lemma operand_typed_mono: "operand_typed g T A a t \<Longrightarrow> (\<And>r. A r \<Longrightarrow> A' r) \<Longrightarrow> operand_typed g T A' a t"
  by (cases a) auto

lemma instr_typed_mono: "instr_typed g T A i \<Longrightarrow> (\<And>r. A r \<Longrightarrow> A' r) \<Longrightarrow> instr_typed g T A' i"
  by (cases i) (auto intro: operand_typed_mono)

lemma body_ok_defs: "body_ok g T n is \<Longrightarrow> concat (map defs is) = [n..<n + length (concat (map defs is))]"
proof (induction "is" arbitrary: n)
  case (Cons i "is")
  then have d: "defs i = [] \<or> defs i = [n]" and IH: "concat (map defs is) = [n + length (defs i)..<n + length (defs i) + length (concat (map defs is))]"
    by auto
  show ?case
  proof (cases "defs i = []")
    case False
    then have "defs i = [n]" using d by simp
    then show ?thesis using IH by (simp add: upt_conv_Cons del: upt_Suc)
  qed (use IH in simp)
qed simp

lemma body_ok_nth:
  assumes "body_ok g T n is" "k < length is"
  shows "instr_typed g T (\<lambda>r. r < n + length (concat (map defs (take k is)))) (is ! k)"
  using assms
proof (induction "is" arbitrary: n k)
  case (Cons i "is")
  show ?case
  proof (cases k)
    case (Suc j)
    then show ?thesis
      using Cons.IH [of "n + length (defs i)" j] Cons.prems by (simp add: add.assoc)
  qed (use Cons.prems in simp)
qed simp

lemma body_ok_append: "body_ok g T n (is @ js) \<longleftrightarrow> body_ok g T n is \<and> body_ok g T (n + length (concat (map defs is))) js"
  by (induction "is" arbitrary: n) (auto simp: add.assoc)

lemma block_ok_defs: "block_ok g T n b \<Longrightarrow> block_defs b = [n..<n + ndefs b]"
proof -
  assume b: "block_ok g T n b"
  let ?m = "n + length (phis b)" and ?k = "length (concat (map defs (body b)))"
  have "body_ok g T ?m (body b)" using b by (simp add: block_ok_def)
  then have "concat (map defs (body b)) = [?m..<?m + ?k]" by (rule body_ok_defs)
  moreover have "map fst (phis b) = [n..<?m]" using b by (simp add: block_ok_def)
  ultimately have "block_defs b = [n..<?m] @ [?m..<?m + ?k]" by (simp add: block_defs_def)
  moreover have "ndefs b = length (phis b) + ?k" by (simp add: ndefs_def block_defs_def)
  ultimately show ?thesis by (metis add.assoc le_add1 upt_add_eq_append)
qed

lemma code_ok_append: "code_ok g T n (F @ H) \<longleftrightarrow> code_ok g T n F \<and> code_ok g T (n + sum_list (map ndefs F)) H"
  by (induction F arbitrary: n) (auto simp: add.assoc)

lemma code_ok_nth:
  assumes "code_ok g T 3 F" "b < length F"
  shows "block_ok g T (reg_count (take b F)) (F ! b)"
proof -
  have "F = take b F @ F ! b # drop (Suc b) F" using assms(2) by (rule id_take_nth_drop)
  then have "code_ok g T 3 (take b F @ F ! b # drop (Suc b) F)" using assms(1) by simp
  then show ?thesis by (simp add: code_ok_append reg_count_def)
qed

lemma reg_count_take_Suc: "b < length F \<Longrightarrow> reg_count (take (Suc b) F) = reg_count (take b F) + ndefs (F ! b)"
  by (simp add: reg_count_def take_Suc_conv_app_nth)

lemma code_ok_defs: "code_ok g T n F \<Longrightarrow> concat (map block_defs F) = [n..<n + sum_list (map ndefs F)]"
proof (induction F arbitrary: n)
  case (Cons b F)
  then have "block_defs b = [n..<n + ndefs b]"
    "concat (map block_defs F) = [n + ndefs b..<n + ndefs b + sum_list (map ndefs F)]"
    by (auto intro: block_ok_defs)
  moreover have "[n..<n + ndefs b + k] = [n..<n + ndefs b] @ [n + ndefs b..<n + ndefs b + k]" for k
    by (rule upt_add_eq_append) simp
  ultimately show ?case by (simp add: add.assoc)
qed simp

lemma nth_last: "b < length F \<Longrightarrow> \<not> Suc b < length F \<Longrightarrow> F ! b = last F"
  by (metis Suc_lessI diff_Suc_1 last_conv_nth length_0_conv not_less_zero)

lemma ladder_target:
  assumes "ladder F" "Suc p < length F" "t \<in> set (targets (terminator (F ! p)))"
  shows "0 < t" "t \<le> Suc p"
  using assms unfolding ladder_def by force+

lemma ladder_dominates:
  assumes "ladder F" "targets (terminator (last F)) = []" "F \<noteq> []" "a \<le> b" shows "dominates F a b"
proof -
  have "p < a" if "avoids F a p" for p
    using that
  proof (induction rule: avoids.induct)
    case (avoids_step p t)
    have "Suc p < length F"
    proof (rule ccontr)
      assume "\<not> Suc p < length F"
      then have "F ! p = last F" using avoids_step.hyps(2) by (intro nth_last)
      then show False using avoids_step.hyps(3) assms(2) by simp
    qed
    then have "t \<le> Suc p" using ladder_target(2) [OF assms(1)] avoids_step.hyps(3) by blast
    then show ?case using avoids_step by simp
  qed simp
  from this [of b] assms(4) show ?thesis by (auto simp: dominates_def)
qed

lemma reg_split:
  assumes "r < reg_count (take b F)" "b \<le> length F" "code_ok g T 3 F"
  shows "r < 3 \<or> (\<exists>a < b. r \<in> set (block_defs (F ! a)))"
proof -
  have "code_ok g T 3 (take b F)" using assms(3) by (metis append_take_drop_id code_ok_append)
  then have "concat (map block_defs (take b F)) = [3..<reg_count (take b F)]"
    using code_ok_defs [of g T 3 "take b F"] by (simp add: reg_count_def)
  then have "3 \<le> r \<Longrightarrow> r \<in> set (concat (map block_defs (take b F)))" using assms(1) by simp
  then show ?thesis using assms(2) by (fastforce simp: in_set_conv_nth)
qed

lemma available_below:
  assumes F: "code_ok g T 3 F" "ladder F" "targets (terminator (last F)) = []" and b: "b < length F"
    and r: "r < reg_count (take b F) + length (phis (F ! b)) + length (concat (map defs (take k (body (F ! b)))))"
  shows "available F b k r"
proof -
  let ?n = "reg_count (take b F)" and ?b = "F ! b"
  have ok: "block_ok g T ?n ?b" using code_ok_nth [OF F(1) b] .
  have "body_ok g T (?n + length (phis ?b)) (take k (body ?b) @ drop k (body ?b))" using ok by (simp add: block_ok_def)
  then have "concat (map defs (take k (body ?b))) =
      [?n + length (phis ?b)..<?n + length (phis ?b) + length (concat (map defs (take k (body ?b))))]"
    unfolding body_ok_append by (blast intro: body_ok_defs)
  moreover have "map fst (phis ?b) = [?n..<?n + length (phis ?b)]" using ok by (simp add: block_ok_def)
  ultimately have l: "?n \<le> r \<Longrightarrow> r \<in> set (map fst (phis ?b) @ concat (map defs (take k (body ?b))))"
    using r unfolding set_append by (metis Un_iff atLeastLessThan_iff not_less set_upt)
  show ?thesis
  proof (cases "r < ?n")
    case True
    then consider "r < 3" | a where "a < b" "r \<in> set (block_defs (F ! a))"
      using reg_split [OF _ order.strict_implies_order [OF b] F(1)] by blast
    then show ?thesis
    proof cases
      case 2
      have "dominates F a b" using ladder_dominates [OF F(2,3)] b 2(1) by fastforce
      then show ?thesis using 2 b unfolding available_def by (metis less_trans nat_neq_iff)
    qed (simp add: available_def)
  next
    case False
    then show ?thesis using l unfolding available_def by simp
  qed
qed

lemma available_end:
  assumes "code_ok g T 3 F" "ladder F" "targets (terminator (last F)) = []" "p < length F" "r < reg_count (take (Suc p) F)"
  shows "available F p (length (body (F ! p))) r"
  using assms by (intro available_below) (simp_all add: reg_count_take_Suc ndefs_def block_defs_def)

theorem checked_verified:
  assumes c: "checked g T F" and F: "F \<noteq> []" "terminator (last F) = Some RetVoid"
  shows "verified g F"
proof -
  have ok: "code_ok g T 3 F" "ladder F" "targets (terminator (last F)) = []" and ph: "phis_ok g T F" and T: "take 3 T = [Ptr, I32, Ptr]"
    using c F by (auto simp: checked_def)
  have "verified_block g T F b" if b: "b < length F" for b
    unfolding verified_block_def
  proof (intro conjI ballI allI impI)
    have last: "Suc b < length F \<or> F ! b = last F" using nth_last [OF b] by blast
    show "terminator (F ! b) \<noteq> None" using last F(2) ok(2) by (auto simp: ladder_def)
    fix t assume t: "t \<in> set (targets (terminator (F ! b)))"
    then have "Suc b < length F" using last ok(3) by auto
    then show "0 < t" "t < length F" using ladder_target [OF ok(2) _ t] by auto
  next
    fix k assume k: "k < length (body (F ! b))"
    have "body_ok g T (reg_count (take b F) + length (phis (F ! b))) (body (F ! b))"
      using code_ok_nth [OF ok(1) b] by (simp add: block_ok_def)
    from body_ok_nth [OF this k] show "instr_typed g T (available F b k) (body (F ! b) ! k)"
      by (rule instr_typed_mono) (use available_below [OF ok b] in auto)
  next
    fix c t f assume t: "terminator (F ! b) = Some (CondBr c t f)"
    then have "operand_typed g T (\<lambda>r. r < reg_count (take (Suc b) F)) c I1"
      using code_ok_nth [OF ok(1) b] b by (simp add: block_ok_def reg_count_take_Suc)
    then show "operand_typed g T (available F b (length (body (F ! b)))) c I1"
      by (rule operand_typed_mono) (use available_end [OF ok b] in auto)
  next
    fix q assume q: "q \<in> set (phis (F ! b))"
    then have "phi_ok g T F b q" using ph b by (simp add: phis_ok_def)
    then show "case q of (r, inc) \<Rightarrow> mset (map snd inc) = mset (preds F b) \<and>
        (\<forall>(a, p) \<in> set inc. operand_typed g T (available F p (length (body (F ! p)))) a (T ! r))"
      using available_end [OF ok] by (force simp: phi_ok_def intro: operand_typed_mono)
  qed
  moreover have "concat (map block_defs F) = [3..<reg_count F]"
    using code_ok_defs [OF ok(1)] by (simp add: reg_count_def)
  then have "distinct ([0, 1, 2] @ concat (map block_defs F))" by simp
  ultimately show ?thesis using F(1) T by (auto simp: verified_def)
qed

end
