(* ===== verification/IR_Typing.thy ===== *)
theory IR_Typing
  imports IR_Verifier
begin

text \<open>
  The rules of the builder for the check of IR\_Verifier: one for each operation, in the
  order an emitter calls them, and one for loops.  \<open>gen_typed\<close> says that a generator
  started in a checked function leaves a checked function and which types its results have.
\<close>

section \<open>Extending a checked function\<close>

lemma operand_typed_append:
  assumes "operand_typed g T A a t" "\<And>r. A r \<Longrightarrow> r < length T" shows "operand_typed g (T @ U) A a t"
  using assms by (cases a) (auto simp: nth_append)

lemma instr_typed_append:
  assumes "instr_typed g T A i" "\<And>r. A r \<Longrightarrow> r < length T" "set (defs i) \<subseteq> {..<length T}"
  shows "instr_typed g (T @ U) A i"
  using assms by (cases i) (auto simp: nth_append intro: operand_typed_append)

lemma body_ok_append_types:
  "body_ok g T n is \<Longrightarrow> n + length (concat (map defs is)) \<le> length T \<Longrightarrow> body_ok g (T @ U) n is"
proof (induction "is" arbitrary: n)
  case (Cons i "is")
  have "instr_typed g (T @ U) (\<lambda>r. r < n) i"
    using Cons.prems by (intro instr_typed_append) auto
  then show ?case using Cons by simp
qed simp

lemma block_ok_append_types:
  assumes "block_ok g T n b" "n + ndefs b \<le> length T" shows "block_ok g (T @ U) n b"
proof -
  have "exit_ok g (T @ U) (n + ndefs b) (terminator b)"
    using assms unfolding block_ok_def
    by (cases "(g, T, n + ndefs b, terminator b)" rule: exit_ok.cases) (auto intro: operand_typed_append)
  then show ?thesis using assms body_ok_append_types [of g T "n + length (phis b)" "body b" U]
    by (simp add: block_ok_def ndefs_def block_defs_def add.assoc)
qed

lemma code_ok_append_types:
  "code_ok g T n F \<Longrightarrow> n + sum_list (map ndefs F) \<le> length T \<Longrightarrow> code_ok g (T @ U) n F"
proof (induction F arbitrary: n)
  case (Cons b F)
  then show ?case using block_ok_append_types [of g T n b U] Cons.IH [of "n + ndefs b"] by (simp add: add.assoc)
qed simp

lemma reg_count_take_le: "reg_count (take k F) \<le> reg_count F"
proof -
  have "sum_list (map ndefs (take k F)) + sum_list (map ndefs (drop k F)) = sum_list (map ndefs F)"
    by (metis append_take_drop_id map_append sum_list_append)
  then show ?thesis by (simp add: reg_count_def)
qed

text \<open>Blocks that are extended in place: the edges, the phi nodes and the registers before a block stay.\<close>

definition phis_kept :: "nat \<Rightarrow> func \<Rightarrow> func \<Rightarrow> bool" where
  "phis_kept n F H \<longleftrightarrow> n \<le> length F \<and> length F \<le> length H \<and>
     (\<forall>b < n. phis (H ! b) = phis (F ! b) \<and> preds H b = preds F b) \<and>
     (\<forall>p < length F. reg_count (take (Suc p) F) \<le> reg_count (take (Suc p) H))"

lemma phi_ok_kept:
  assumes "phi_ok g T F b q" "phis_kept n F H" "b < n" "reg_count F \<le> length T" "fst q < length T"
  shows "phi_ok g (T @ U) H b q"
  unfolding phi_ok_def
proof (intro conjI ballI)
  show "mset (map snd (snd q)) = mset (preds H b)" using assms by (simp add: phi_ok_def phis_kept_def)
  fix x assume x: "x \<in> set (snd q)"
  obtain a p where ap: "x = (a, p)" by (cases x)
  have p: "p < length F" "operand_typed g T (\<lambda>r. r < reg_count (take (Suc p) F)) a (T ! fst q)"
    using assms(1) x ap by (auto simp: phi_ok_def)
  have "operand_typed g (T @ U) (\<lambda>r. r < reg_count (take (Suc p) F)) a (T ! fst q)"
    using p(2) by (rule operand_typed_append) (use assms(4) reg_count_take_le [of "Suc p" F] in linarith)
  then have "operand_typed g (T @ U) (\<lambda>r. r < reg_count (take (Suc p) H)) a (T ! fst q)"
    by (rule operand_typed_mono) (use assms(2) p(1) in \<open>auto simp: phis_kept_def intro: less_le_trans\<close>)
  then show "case x of (a, p) \<Rightarrow> p < length H \<and> operand_typed g (T @ U) (\<lambda>r. r < reg_count (take (Suc p) H)) a ((T @ U) ! fst q)"
    using ap p(1) assms(2,5) by (auto simp: phis_kept_def nth_append)
qed

lemma phi_reg_range:
  assumes "code_ok g T 3 F" "b < length F" "q \<in> set (phis (F ! b))"
  shows "reg_count (take b F) \<le> fst q" "fst q < reg_count (take (Suc b) F)"
proof -
  let ?n = "reg_count (take b F)"
  have ok: "block_ok g T ?n (F ! b)" using assms(1,2) by (rule code_ok_nth)
  then have "map fst (phis (F ! b)) = [?n..<?n + length (phis (F ! b))]" by (simp add: block_ok_def)
  moreover have "fst q \<in> set (map fst (phis (F ! b)))" using assms(3) by simp
  ultimately have "?n \<le> fst q \<and> fst q < ?n + length (phis (F ! b))" by (metis atLeastLessThan_iff set_upt)
  then show "?n \<le> fst q" "fst q < reg_count (take (Suc b) F)"
    using assms(2) by (auto simp: reg_count_take_Suc ndefs_def block_defs_def)
qed

lemma phi_reg_below:
  assumes "code_ok g T 3 F" "b < length F" "q \<in> set (phis (F ! b))" shows "fst q < reg_count F"
  using phi_reg_range(2) [OF assms] reg_count_take_le by (rule less_le_trans)

lemma phis_ok_kept:
  assumes c: "checked g T F" and k: "phis_kept n F H" and b: "b < n" and q: "q \<in> set (phis (H ! b))"
  shows "phi_ok g (T @ U) H b q"
proof -
  have b': "b < length F" "q \<in> set (phis (F ! b))" using k b q by (auto simp: phis_kept_def)
  have "phi_ok g T F b q" using c b' by (auto simp: checked_def phis_ok_def)
  moreover have "fst q < length T" using c phi_reg_below [OF _ b'] by (auto simp: checked_def)
  ultimately show ?thesis using c k b by (intro phi_ok_kept [where n = n]) (auto simp: checked_def)
qed

section \<open>Rules of the builder operations\<close>

definition grown :: "builder \<Rightarrow> builder \<Rightarrow> bool" where
  "grown B B' \<longleftrightarrow> cur B \<le> cur B' \<and> grows (blocks B) (blocks B') \<and>
     phis_kept (length (blocks B)) (blocks B) (blocks B')"

definition gen_typed ::
  "nat \<Rightarrow> nat \<Rightarrow> ty list \<Rightarrow> 'a gen \<Rightarrow> ('a \<Rightarrow> nat \<Rightarrow> ty list \<Rightarrow> bool) \<Rightarrow> bool" where
  "gen_typed g c T m Q \<longleftrightarrow> (\<forall>B. wfT g B T \<and> cur B = c \<longrightarrow>
     (\<exists>U. wfT g (snd (run_state m B)) (T @ U) \<and> grown B (snd (run_state m B)) \<and>
        Q (fst (run_state m B)) (cur (snd (run_state m B))) (T @ U)))"

text \<open>An operand that may be used now.\<close>

definition typed :: "nat \<Rightarrow> ty list \<Rightarrow> operand \<Rightarrow> ty \<Rightarrow> bool" where
  "typed g T a t = operand_typed g T (\<lambda>r. r < length T) a t"

named_theorems typing \<open>the rules of the builder operations for the check\<close>

lemma typed_mono: "typed g T a t \<Longrightarrow> typed g (T @ U) a t"
  unfolding typed_def by (cases a) (auto simp: nth_append)

lemma typed_operand [typing]:
  "typed g (T @ [t]) (Reg (length T)) t" "typed g T (CI32 w) I32" "typed g T (CI64 x) I64"
  "typed g T (constNode v) I32" "typed g T (constNode_long v) I64" "k < g \<Longrightarrow> typed g T (GlobalRef k) Table"
  by (simp_all add: typed_def constNode_def constNode_long_def)

lemma grown_refl: "grown B B"
  by (simp add: grown_def phis_kept_def)

lemma grown_trans: "grown A B \<Longrightarrow> grown B C \<Longrightarrow> grown A C"
  unfolding grown_def phis_kept_def by (auto intro: order.trans grows_trans)

lemma gen_typed_return: "Q a c T \<Longrightarrow> gen_typed g c T (State_Monad.return a) Q"
  unfolding gen_typed_def by (auto simp: grown_refl intro: exI [of _ "[]"])

lemma gen_typed_bind:
  assumes "gen_typed g c T m Q" "\<And>a c' U. c \<le> c' \<Longrightarrow> Q a c' (T @ U) \<Longrightarrow> gen_typed g c' (T @ U) (h a) R"
  shows "gen_typed g c T (State_Monad.bind m h) R"
  unfolding gen_typed_def
proof (intro allI impI, elim conjE)
  fix B :: builder assume B: "wfT g B T" "cur B = c"
  obtain a B1 where r: "run_state m B = (a, B1)" by fastforce
  obtain U where U: "wfT g B1 (T @ U)" "grown B B1" "Q a (cur B1) (T @ U)"
    using assms(1) B r unfolding gen_typed_def by fastforce
  then have "gen_typed g (cur B1) (T @ U) (h a) R"
    using B(2) by (intro assms(2)) (auto simp: grown_def)
  then obtain V where "wfT g (snd (run_state (h a) B1)) ((T @ U) @ V)" "grown B1 (snd (run_state (h a) B1))"
      "R (fst (run_state (h a) B1)) (cur (snd (run_state (h a) B1))) ((T @ U) @ V)"
    using U(1) unfolding gen_typed_def by blast
  then show "\<exists>U. wfT g (snd (run_state (State_Monad.bind m h) B)) (T @ U) \<and>
      grown B (snd (run_state (State_Monad.bind m h) B)) \<and>
      R (fst (run_state (State_Monad.bind m h) B)) (cur (snd (run_state (State_Monad.bind m h) B))) (T @ U)"
    using r grown_trans [OF U(2)] by (intro exI [of _ "U @ V"]) simp
qed

lemma gen_typed_conseq:
  "gen_typed g c T m Q \<Longrightarrow> (\<And>a c' U. c \<le> c' \<Longrightarrow> Q a c' (T @ U) \<Longrightarrow> R a c' (T @ U)) \<Longrightarrow> gen_typed g c T m R"
  unfolding gen_typed_def grown_def by blast

lemma preds_cong:
  assumes "length F = length H" "\<And>i. i < length F \<Longrightarrow> targets (terminator (F ! i)) = targets (terminator (H ! i))"
  shows "preds F b = preds H b"
  using assms unfolding preds_def by (intro arg_cong [of _ _ concat] map_cong) auto

lemma ladder_cong:
  assumes "length F = length H" "\<And>i. Suc i < length F \<Longrightarrow> terminator (F ! i) = terminator (H ! i)"
  shows "ladder F = ladder H"
  using assms unfolding ladder_def by auto

lemma wfT_split:
  assumes "wfT g B T"
  obtains bs b where "blocks B = bs @ [b]" "cur B = length bs" "terminator b = None" "checked g T (bs @ [b])"
    "length T = nextreg B"
proof -
  have "blocks B \<noteq> []" using assms by (auto simp: wfT_def)
  then have "blocks B = butlast (blocks B) @ [last (blocks B)]" by simp
  moreover have "cur B = length (butlast (blocks B))" using assms by (auto simp: wfT_def)
  ultimately show ?thesis using assms that by (metis nth_append_length wfT_def)
qed

lemma last_kept:
  assumes "phis b' = phis b" "targets (terminator b') = targets (terminator b)" "ndefs b \<le> ndefs b'"
  shows "phis_kept (Suc (length bs)) (bs @ [b]) (bs @ [b'])"
proof -
  have "preds (bs @ [b']) = preds (bs @ [b])"
    using assms(2) by (intro ext preds_cong) (auto simp: nth_append less_Suc_eq)
  then show ?thesis using assms(1,3) by (auto simp: phis_kept_def reg_count_def nth_append less_Suc_eq)
qed

lemma wfT_wfB: "wfT g B T \<Longrightarrow> wfB B"
  using phi_reg_below [of g T "blocks B"]
  by (auto simp: wfT_def wfB_def checked_def phi_regs_below_def in_set_conv_nth [of _ "blocks B"] less_Suc_eq_le)

lemma take3_append: "take 3 T = [a, b, c] \<Longrightarrow> take 3 (T @ U) = [a, b, c]"
proof -
  assume T: "take 3 T = [a, b, c]"
  then have "length (take 3 T) = 3" by simp
  then have "3 \<le> length T" by simp
  then show ?thesis using T by simp
qed

lemma wfT_append_instr:
  assumes B: "wfT g B T" and d: "defs i = [] \<or> defs i = [length T]" "length ts = length (defs i)"
    and i: "instr_typed g (T @ ts) (\<lambda>r. r < length T) i"
  defines "B' \<equiv> (append_instr i B)\<lparr>nextreg := nextreg B + length ts\<rparr>"
  shows "wfT g B' (T @ ts)" "grown B B'" "cur B' = cur B"
proof -
  obtain bs b where B0: "blocks B = bs @ [b]" "cur B = length bs" "terminator b = None"
    and c: "checked g T (bs @ [b])" and n: "length T = nextreg B"
    using B by (rule wfT_split)
  let ?b = "b\<lparr>body := body b @ [i]\<rparr>"
  have bl: "blocks B' = bs @ [?b]" "cur B' = cur B" "nextreg B' = nextreg B + length ts"
    using B0 by (simp_all add: B'_def append_instr_def)
  have nd: "ndefs ?b = ndefs b + length (defs i)" by (simp add: ndefs_def block_defs_def)
  have kept: "phis_kept (Suc (length bs)) (bs @ [b]) (bs @ [?b])" by (rule last_kept) (simp_all add: nd)
  let ?m = "reg_count bs" and ?k = "length (phis b)"
  have rc: "reg_count (bs @ [b]) = length T" "?m + ndefs b = length T" using c by (auto simp: checked_def reg_count_def)
  have code: "code_ok g (T @ ts) 3 bs" "block_ok g (T @ ts) ?m b"
    using code_ok_append_types [of g T 3 "bs @ [b]" ts] c rc by (auto simp: checked_def code_ok_append reg_count_def)
  have "?m + ?k + length (concat (map defs (body b))) = length T"
    using rc(2) by (simp add: ndefs_def block_defs_def)
  then have "block_ok g (T @ ts) ?m ?b"
    using code(2) d(1) i B0(3) by (auto simp: block_ok_def body_ok_append)
  then have "code_ok g (T @ ts) 3 (bs @ [?b])" using code(1) by (simp add: code_ok_append reg_count_def)
  moreover have "ladder (bs @ [?b])"
    using c ladder_cong [of "bs @ [?b]" "bs @ [b]"] by (auto simp: checked_def nth_append)
  moreover have "phis_ok g (T @ ts) (bs @ [?b])"
    unfolding phis_ok_def using phis_ok_kept [OF c kept] by (auto simp: less_Suc_eq)
  moreover have "take 3 (T @ ts) = [Ptr, I32, Ptr]"
    using c by (intro take3_append) (simp add: checked_def)
  moreover have "reg_count (bs @ [?b]) = length (T @ ts)" using rc(2) d(2) nd by (simp add: reg_count_def)
  ultimately show "wfT g B' (T @ ts)" using B0 bl n by (simp add: wfT_def checked_def)
  have "extends B B'" unfolding B'_def using wfT_wfB [OF B] by (intro extends_append_instr) simp_all
  then show "grown B B'" using bl B0 kept by (simp add: grown_def extends_def)
qed (simp add: B'_def append_instr_def)

lemma gen_typed_emit_op:
  assumes "defs (f (length T)) = [length T]" "instr_typed g (T @ [t]) (\<lambda>r. r < length T) (f (length T))"
  shows "gen_typed g c T (emit f) (\<lambda>a c' T'. a = Reg (length T) \<and> c' = c \<and> T' = T @ [t])"
  unfolding gen_typed_def
proof (intro allI impI, elim conjE)
  fix B :: builder assume B: "wfT g B T" "cur B = c"
  have n: "nextreg B = length T" using B by (simp add: wfT_def)
  from wfT_append_instr [OF B(1), of "f (length T)" "[t]"] assms B(2)
  show "\<exists>U. wfT g (snd (run_state (emit f) B)) (T @ U) \<and> grown B (snd (run_state (emit f) B)) \<and>
      fst (run_state (emit f) B) = Reg (length T) \<and> cur (snd (run_state (emit f) B)) = c \<and> T @ U = T @ [t]"
    by (intro exI [of _ "[t]"]) (simp add: emit_def n)
qed

lemma gen_typed_emit:
  assumes "defs (f (length T)) = [length T]" "instr_typed g (T @ [t]) (\<lambda>r. r < length T) (f (length T))"
    "gen_typed g c (T @ [t]) (h (Reg (length T))) Q"
  shows "gen_typed g c T (State_Monad.bind (emit f) h) Q"
  by (rule gen_typed_bind [OF gen_typed_emit_op [where f = f, OF assms(1,2)]]) (use assms(3) in simp)

lemma gen_typed_emit_void:
  assumes "defs i = []" "instr_typed g T (\<lambda>r. r < length T) i" "gen_typed g c T (h ()) Q"
  shows "gen_typed g c T (State_Monad.bind (emit_void i) h) Q"
proof (rule gen_typed_bind [where Q = "\<lambda>a c' T'. c' = c \<and> T' = T"])
  show "gen_typed g c T (emit_void i) (\<lambda>a c' T'. c' = c \<and> T' = T)"
    unfolding gen_typed_def
  proof (intro allI impI, elim conjE)
    fix B :: builder assume B: "wfT g B T" "cur B = c"
    from wfT_append_instr [OF B(1), of i "[]"] assms(1,2) B(2)
    show "\<exists>U. wfT g (snd (run_state (emit_void i) B)) (T @ U) \<and> grown B (snd (run_state (emit_void i) B)) \<and>
        cur (snd (run_state (emit_void i) B)) = c \<and> T @ U = T"
      by (intro exI [of _ "[]"]) (simp add: emit_void_def append_instr_def)
  qed
qed (use assms(3) in simp)

section \<open>Loops\<close>

lemma preds_snoc: "preds (F @ [b]) t = preds F t @ map (\<lambda>_. length F) (filter ((=) t) (targets (terminator b)))"
proof -
  have "preds (F @ [b]) t = concat (map (\<lambda>p. map (\<lambda>_. p) (filter ((=) t) (targets (terminator ((F @ [b]) ! p))))) [0..<length F]) @
      map (\<lambda>_. length F) (filter ((=) t) (targets (terminator b)))"
    by (simp add: preds_def)
  also have "concat (map (\<lambda>p. map (\<lambda>_. p) (filter ((=) t) (targets (terminator ((F @ [b]) ! p))))) [0..<length F]) = preds F t"
    unfolding preds_def by (intro arg_cong [of _ _ concat] map_cong) (auto simp: nth_append)
  finally show ?thesis .
qed

lemma preds_outside:
  assumes "ladder F" "terminator (last F) = None" "length F \<le> t" shows "preds F t = []"
proof -
  have "t \<notin> set (targets (terminator (F ! p)))" if "p < length F" for p
  proof (cases "Suc p < length F")
    case True
    then show ?thesis using ladder_target(2) [OF assms(1) True, of t] assms(3) by auto
  next
    case False
    then show ?thesis using nth_last [OF that] assms(2) by simp
  qed
  then show ?thesis by (auto simp: preds_def filter_empty_conv)
qed

text \<open>The last block gets its terminator and a new block follows, whose phi nodes have the types \<open>ts\<close>.\<close>

lemma close_block:
  assumes c: "checked g T (bs @ [b])" and b: "terminator b = None"
    and tm: "tm = Br (Suc (length bs)) \<or> (\<exists>e l. tm = CondBr e (Suc (length bs)) l \<and> typed g T e I1 \<and> 0 < l \<and> l \<le> length bs)"
    and nb: "map fst (phis nb) = [length T..<length T + length ts]" "body nb = []" "terminator nb = None"
  defines "F \<equiv> bs @ [b\<lparr>terminator := Some tm\<rparr>] @ [nb]"
  shows "code_ok g (T @ ts) 3 F" "reg_count F = length (T @ ts)" "ladder F" "take 3 (T @ ts) = [Ptr, I32, Ptr]"
    "preds F t = preds (bs @ [b]) t @ map (\<lambda>_. length bs) (filter ((=) t) (targets (Some tm)))"
    "p \<le> length bs \<Longrightarrow> reg_count (take (Suc p) F) = reg_count (take (Suc p) (bs @ [b]))"
proof -
  let ?b = "b\<lparr>terminator := Some tm\<rparr>"
  have nd [simp]: "ndefs ?b = ndefs b" by (simp add: ndefs_def block_defs_def)
  have rc: "reg_count (bs @ [b]) = length T" "reg_count bs + ndefs b = length T" using c by (auto simp: checked_def reg_count_def)
  have "length (phis nb) = length ts" using arg_cong [OF nb(1), of length] by simp
  then have nbd: "ndefs nb = length ts" "block_ok g (T @ ts) (length T) nb"
    using nb by (auto simp: ndefs_def block_defs_def block_ok_def)
  have code: "code_ok g (T @ ts) 3 bs" "block_ok g (T @ ts) (reg_count bs) b"
    using code_ok_append_types [of g T 3 "bs @ [b]" ts] c rc by (auto simp: checked_def code_ok_append reg_count_def)
  have "exit_ok g (T @ ts) (reg_count bs + ndefs b) (Some tm)"
    using tm rc(2) typed_mono [of g T _ I1 ts] by (auto simp: typed_def intro: operand_typed_append)
  then have "block_ok g (T @ ts) (reg_count bs) ?b" using code(2) by (simp add: block_ok_def)
  then show "code_ok g (T @ ts) 3 F"
    using code(1) nbd(2) rc(2) by (simp add: F_def code_ok_append reg_count_def add.assoc)
  show "reg_count F = length (T @ ts)" using rc(2) nbd(1) by (simp add: F_def reg_count_def)
  have "ladder (bs @ [b])" using c by (simp add: checked_def)
  then show "ladder F" unfolding ladder_def
    using tm by (auto simp: F_def nth_append less_Suc_eq)
  show "take 3 (T @ ts) = [Ptr, I32, Ptr]" using c by (intro take3_append) (simp add: checked_def)
  show "preds F t = preds (bs @ [b]) t @ map (\<lambda>_. length bs) (filter ((=) t) (targets (Some tm)))"
    using preds_snoc [of "bs @ [?b]" nb t] preds_snoc [of bs ?b t] preds_snoc [of bs b t] b nb(3)
    by (simp add: F_def)
  show "p \<le> length bs \<Longrightarrow> reg_count (take (Suc p) F) = reg_count (take (Suc p) (bs @ [b]))"
    by (cases "p = length bs") (auto simp: F_def reg_count_def)
qed

lemma wfT_header:
  assumes B: "wfT g B T" and inits: "list_all2 (typed g T) inits ts"
  defines "H \<equiv> header_builder inits B"
  shows "wfT g H (T @ ts)" "grown B H" "cur H = Suc (cur B)" "preds (blocks H) (Suc (cur B)) = [cur B]"
    "map fst (phis (blocks H ! Suc (cur B))) = [length T..<length T + length ts]"
proof -
  obtain bs b where B0: "blocks B = bs @ [b]" "cur B = length bs" "terminator b = None"
    and c: "checked g T (bs @ [b])" and n: "length T = nextreg B"
    using B by (rule wfT_split)
  have len: "length inits = length ts" using inits by (rule list_all2_lengthD)
  let ?k = "length bs" and ?tm = "Br (Suc (length bs))"
  let ?nb = "\<lparr>phis = zip [length T..<length T + length ts] (map (\<lambda>a. [(a, ?k)]) inits), body = [], terminator = None\<rparr>"
  let ?F = "bs @ [b\<lparr>terminator := Some ?tm\<rparr>] @ [?nb]"
  have bl: "blocks H = ?F" "cur H = Suc ?k" "nextreg H = length T + length ts"
    using B0 len n by (simp_all add: H_def header_builder_def)
  have nb: "map fst (phis ?nb) = [length T..<length T + length ts]" "body ?nb = []" "terminator ?nb = None"
    using len by simp_all
  note cl = close_block [OF c B0(3) disjI1 [OF refl] nb]
  have out: "preds (bs @ [b]) (Suc ?k) = []" using c B0(3) by (intro preds_outside) (auto simp: checked_def)
  have kept: "phis_kept (Suc ?k) (bs @ [b]) ?F"
    unfolding phis_kept_def
  proof (intro conjI allI impI)
    fix p assume "p < length (bs @ [b])"
    then have "p \<le> ?k" by simp
    from cl(6) [OF this] show "reg_count (take (Suc p) (bs @ [b])) \<le> reg_count (take (Suc p) ?F)" by (rule eq_refl [OF sym])
  next
    fix t assume "t < Suc ?k"
    then show "preds ?F t = preds (bs @ [b]) t" unfolding cl(5) by simp
  qed (auto simp: nth_append less_Suc_eq)
  have "phi_ok g (T @ ts) ?F t q" if t: "t < length ?F" and q: "q \<in> set (phis (?F ! t))" for t q
  proof (cases "t < Suc ?k")
    case True
    then show ?thesis using phis_ok_kept [OF c kept _ q] by blast
  next
    case False
    then have t: "t = Suc ?k" using t by simp
    then obtain j where j: "j < length ts" "q = (length T + j, [(inits ! j, ?k)])"
      using q len by (auto simp: in_set_zip nth_append)
    have "operand_typed g T (\<lambda>r. r < length T) (inits ! j) (ts ! j)"
      using list_all2_nthD2 [OF inits j(1)] by (simp add: typed_def)
    then have "operand_typed g (T @ ts) (\<lambda>r. r < length T) (inits ! j) (ts ! j)" by (rule operand_typed_append)
    moreover have "reg_count (take (Suc ?k) ?F) = length T" using cl(6) [of ?k] c by (simp add: checked_def)
    ultimately show ?thesis using j t cl(5) [of "Suc ?k"] out by (simp add: phi_ok_def nth_append)
  qed
  then have "checked g (T @ ts) ?F" using cl(1-4) by (simp add: checked_def phis_ok_def)
  then show "wfT g H (T @ ts)" using bl by (simp add: wfT_def nth_append)
  have "grows (blocks B) (blocks H)" unfolding H_def by (rule code_le_header [OF wfT_wfB [OF B]])
  then show "grown B H" using bl B0 kept by (simp add: grown_def)
  show "cur H = Suc (cur B)" "preds (blocks H) (Suc (cur B)) = [cur B]"
    "map fst (phis (blocks H ! Suc (cur B))) = [length T..<length T + length ts]"
    using bl B0 out cl(5) [of "Suc ?k"] nb by (auto simp: nth_append)
qed

text \<open>What the entries of the back edge do to the phi nodes of a block.\<close>

lemma add_all_phi:
  assumes "length rs = length as" "distinct rs" "q \<in> set (phis (add_all p (map Reg rs) as b))"
  obtains "q \<in> set (phis b)" "fst q \<notin> set rs"
  | inc j where "(fst q, inc) \<in> set (phis b)" "j < length rs" "rs ! j = fst q" "snd q = inc @ [(as ! j, p)]"
proof -
  have d: "distinct (map Reg rs)" using assms(2) by (simp add: distinct_map inj_on_def)
  obtain r inc where q: "(r, inc) \<in> set (phis b)" "fst q = r"
    "snd q = inc @ (case map_of (zip (map Reg rs) as) (Reg r) of None \<Rightarrow> [] | Some a \<Rightarrow> [(a, p)])"
    using assms(3) unfolding add_all_phis [OF d] by auto
  show ?thesis
  proof (cases "map_of (zip (map Reg rs) as) (Reg r)")
    case None
    then have "r \<notin> set rs" using assms(1) by (auto simp: map_of_zip_is_None)
    then show ?thesis using that(1) q None by (cases q) simp
  next
    case (Some a)
    then obtain j where "j < length rs" "rs ! j = r" "as ! j = a" by (auto dest!: map_of_SomeD simp: in_set_zip)
    then show ?thesis using that(2) q Some by auto
  qed
qed

text \<open>Checks that look at the numbers of the phi nodes only.\<close>

definition same_shape :: "block \<Rightarrow> block \<Rightarrow> bool" where
  "same_shape b b' \<longleftrightarrow> map fst (phis b') = map fst (phis b) \<and> body b' = body b \<and> terminator b' = terminator b"

lemma same_shape_add_all: "distinct rs \<Longrightarrow> same_shape b (add_all p rs as b)"
  by (simp add: same_shape_def add_all_phis case_prod_beta comp_def)

lemma same_shape_defs: "same_shape b b' \<Longrightarrow> block_defs b' = block_defs b"
  by (simp add: same_shape_def block_defs_def)

lemma same_shape_block_ok: "same_shape b b' \<Longrightarrow> block_ok g T n b' = block_ok g T n b"
  unfolding block_ok_def ndefs_def same_shape_defs by (auto simp: same_shape_def dest: map_eq_imp_length_eq)

lemma map_same_shape:
  assumes "\<And>b. same_shape b (f b)"
  shows "code_ok g T n (map f F) = code_ok g T n F" "reg_count (map f F) = reg_count F"
    "ladder (map f F) = ladder F" "preds (map f F) t = preds F t"
proof -
  have nd: "ndefs (f b) = ndefs b" for b using same_shape_defs [OF assms] by (simp add: ndefs_def)
  show "code_ok g T n (map f F) = code_ok g T n F"
    by (induction F arbitrary: n) (auto simp: nd same_shape_block_ok [OF assms])
  show "reg_count (map f F) = reg_count F" by (simp add: reg_count_def comp_def nd)
  have tm: "terminator (f b) = terminator b" for b using assms [of b] by (simp add: same_shape_def)
  then show "ladder (map f F) = ladder F" by (intro ladder_cong) auto
  show "preds (map f F) t = preds F t" using tm by (intro preds_cong) auto
qed

lemma reg_count_take_mono: "i \<le> j \<Longrightarrow> reg_count (take i F) \<le> reg_count (take j F)"
  using reg_count_take_le [of i "take j F"] by (simp add: min_absorb1)

lemma wfT_footer:
  assumes B: "wfT g B T" and inits: "list_all2 (typed g T) inits ts"
    and B3: "wfT g B3 (T @ ts @ U)" "grown (header_builder inits B) B3"
    and nexts: "list_all2 (typed g (T @ ts @ U)) nexts ts" and e: "typed g (T @ ts @ U) e I1"
  defines "B5 \<equiv> footer_builder (length (blocks B)) (cur B3)
    (map Reg [nextreg B..<nextreg B + length inits]) nexts e B3"
  shows "wfT g B5 (T @ ts @ U)" "grown B B5"
proof -
  note hd = wfT_header [OF B inits]
  let ?H = "header_builder inits B" and ?c = "cur B" and ?T = "T @ ts @ U"
  have len: "length inits = length ts" "length nexts = length ts" using inits nexts by (auto dest: list_all2_lengthD)
  have n: "nextreg B = length T" "length (blocks B) = Suc ?c" using B by (auto simp: wfT_def)
  obtain bs b where B0: "blocks B3 = bs @ [b]" "cur B3 = length bs" "terminator b = None"
    and c3: "checked g ?T (bs @ [b])" and n3: "length ?T = nextreg B3"
    using B3(1) by (rule wfT_split)
  let ?k = "length bs"
  have ck: "Suc ?c \<le> ?k" using B3(2) hd(3) B0 by (simp add: grown_def)
  let ?tm = "CondBr e (Suc ?k) (Suc ?c)" and ?rs = "[length T..<length T + length ts]"
  let ?F = "bs @ [b\<lparr>terminator := Some ?tm\<rparr>] @ [empty_block]" and ?f = "add_all ?k (map Reg ?rs) nexts"
  have tm: "?tm = Br (Suc ?k) \<or> (\<exists>e' l. ?tm = CondBr e' (Suc ?k) l \<and> typed g ?T e' I1 \<and> 0 < l \<and> l \<le> ?k)"
    using e ck by simp
  have nb: "map fst (phis empty_block) = [length ?T..<length ?T + length ([] :: ty list)]" "body empty_block = []"
    "terminator empty_block = None" by (simp_all add: empty_block_def)
  note cl = close_block [OF c3 B0(3) tm nb, unfolded append_Nil2]
  have bl: "blocks B5 = map ?f ?F" "cur B5 = Suc ?k" "nextreg B5 = nextreg B3"
    using B0 n len by (simp_all add: B5_def footer_builder_def)
  have shape: "same_shape b (?f b)" for b by (intro same_shape_add_all) (simp add: distinct_map inj_on_def)
  note sh = map_same_shape [of ?f, OF shape]
  have rct: "reg_count (take p (map ?f F)) = reg_count (take p F)" for p F by (simp add: take_map sh)
  have hl: "length (blocks ?H) = Suc (Suc ?c)" using hd(1,3) by (simp add: wfT_def)
  have grB: "grown B B3" using hd(2) B3(2) by (rule grown_trans)
  have outside: "preds (bs @ [b]) t = []" if "Suc ?k \<le> t" for t
    using c3 B0(3) that by (intro preds_outside) (auto simp: checked_def)
  have pr: "preds ?F t = (if t = Suc ?k then [?k] else if t = Suc ?c then [?c, ?k] else preds (bs @ [b]) t)" for t
  proof -
    have "preds (blocks B3) (Suc ?c) = [?c]"
      using B3(2) hd(1,3,4) by (simp add: grown_def phis_kept_def wfT_def)
    then show ?thesis unfolding cl(5) using ck B0(1) outside [of t] by auto
  qed
  have ph3: "phis (?F ! t) = phis ((bs @ [b]) ! t)" if "t < Suc ?k" for t
    using that by (auto simp: nth_append less_Suc_eq)
  have rc: "reg_count (take (Suc p) ?F) = reg_count (take (Suc p) (bs @ [b]))" if "p < Suc ?k" for p
    using cl(6) that by (simp only: less_Suc_eq_le)
  have head: "map fst (phis (?F ! Suc ?c)) = ?rs"
    using ph3 [of "Suc ?c"] ck hd(1,3,5) B3(2) B0(1) by (simp add: grown_def phis_kept_def wfT_def)
  have entry: "phi_ok g ?T (bs @ [b]) t q" if "t < Suc ?k" "q \<in> set (phis (?F ! t))" for t q
    using c3 that ph3 [OF that(1)] by (simp add: checked_def phis_ok_def)
  have only: "t = Suc ?c" if t: "t < Suc ?k" and q: "q \<in> set (phis (?F ! t))" "fst q \<in> set ?rs" for t q
  proof (rule ccontr)
    assume ne: "t \<noteq> Suc ?c"
    have q': "q \<in> set (phis ((bs @ [b]) ! t))" using q(1) ph3 [OF t] by simp
    note range = phi_reg_range [of g ?T "bs @ [b]" t q, OF _ _ q']
    have code: "code_ok g ?T 3 (bs @ [b])" using c3 by (simp add: checked_def)
    show False
    proof (cases "t < Suc ?c")
      case True
      then have "q \<in> set (phis (blocks B ! t))" using grB q' B0(1) n by (simp add: grown_def phis_kept_def)
      then have "fst q < length T" using B phi_reg_below [of g T "blocks B" t q] True n by (simp add: wfT_def checked_def)
      then show False using q(2) by simp
    next
      case False
      then have "Suc (Suc ?c) \<le> t" using ne by simp
      then have "reg_count (take (Suc (Suc ?c)) (bs @ [b])) \<le> fst q"
        using reg_count_take_mono [of "Suc (Suc ?c)" t "bs @ [b]"] range(1) [OF code] t by simp
      moreover have "reg_count (take (Suc (Suc ?c)) (blocks ?H)) \<le> reg_count (take (Suc (Suc ?c)) (bs @ [b]))"
        using B3(2) hl unfolding grown_def phis_kept_def B0(1) by (metis lessI)
      moreover have "reg_count (take (Suc (Suc ?c)) (blocks ?H)) = length (T @ ts)"
        using hd(1,3) by (simp add: wfT_def checked_def)
      ultimately show False using q(2) by simp
    qed
  qed
  define F5 where "F5 = map ?f ?F"
  have F5: "length F5 = Suc (Suc ?k)" "\<And>t. preds F5 t = preds ?F t"
    "\<And>p. p < Suc ?k \<Longrightarrow> reg_count (take (Suc p) F5) = reg_count (take (Suc p) (bs @ [b]))"
    unfolding F5_def by (simp_all only: sh rct rc) simp
  have phi: "phi_ok g ?T F5 t q" if t: "t < length ?F" and q: "q \<in> set (phis (?f (?F ! t)))" for t q
  proof -
    have "phis (?F ! t) = []" if "t = Suc ?k" using that by (simp add: nth_append empty_block_def)
    moreover have "map fst (phis (?f (?F ! t))) = map fst (phis (?F ! t))" using shape by (simp only: same_shape_def)
    ultimately have ne: "t < Suc ?k" using t q by (cases "t = Suc ?k") auto
    have lens: "length ?rs = length nexts" "distinct ?rs" using len by simp_all
    from add_all_phi [OF lens q] show ?thesis
    proof cases
      case 1
      have "t \<noteq> Suc ?c" using head 1 by (metis in_set_zipE image_eqI image_set)
      then have pt: "preds F5 t = preds (bs @ [b]) t" unfolding F5(2) pr using ne by simp
      show ?thesis using entry [OF ne 1(1)] unfolding phi_ok_def pt F5(1)
        by (auto simp: F5(3) simp del: take_append)
    next
      case (2 inc j)
      have tc: "t = Suc ?c" using only [OF ne 2(1)] 2(2,3) by (metis fst_conv nth_mem)
      have old: "phi_ok g ?T (bs @ [b]) t (fst q, inc)" by (rule entry [OF ne 2(1)])
      have j: "j < length ts" "fst q = length T + j" using 2(2,3) by auto
      have "operand_typed g ?T (\<lambda>r. r < length ?T) (nexts ! j) (?T ! fst q)"
        using list_all2_nthD2 [OF nexts j(1)] j by (simp add: typed_def nth_append)
      moreover have "reg_count (take (Suc ?k) F5) = length ?T" using F5(3) [of ?k] c3 by (simp add: checked_def)
      moreover have "preds (bs @ [b]) t = [?c]" using B3(2) hd(1,3,4) tc B0(1) by (simp add: grown_def phis_kept_def wfT_def)
      moreover from this have "mset (preds F5 t) = mset (preds (bs @ [b]) t) + {#?k#}"
        unfolding F5(2) pr using tc ck by simp
      ultimately show ?thesis using old 2(4) unfolding phi_ok_def F5(1)
        by (auto simp: F5(3) simp del: take_append)
    qed
  qed
  have "phis_ok g ?T F5" unfolding phis_ok_def
  proof (intro allI impI ballI)
    fix t q assume tq: "t < length F5" "q \<in> set (phis (F5 ! t))"
    from this(1) have "t < length ?F" unfolding F5_def length_map .
    from phi [OF this] tq(2) show "phi_ok g ?T F5 t q" unfolding F5_def nth_map [OF \<open>t < length ?F\<close>] .
  qed
  moreover have "code_ok g ?T 3 F5" "reg_count F5 = length ?T" "ladder F5" "take 3 ?T = [Ptr, I32, Ptr]"
    unfolding F5_def sh by (fact cl(1-4))+
  ultimately have "checked g ?T (map ?f ?F)" unfolding F5_def [symmetric] checked_def by blast
  then show "wfT g B5 ?T" using bl n3 by (simp add: wfT_def nth_append empty_block_def add_all_simps)
  have kB: "phis_kept (Suc ?c) (blocks B) (bs @ [b])" using grB n(2) B0(1) by (simp add: grown_def)
  have "phis_kept (Suc ?c) (blocks B) (map ?f ?F)"
    unfolding phis_kept_def
  proof (intro conjI allI impI)
    show "Suc ?c \<le> length (blocks B)" "length (blocks B) \<le> length (map ?f ?F)" using n(2) ck by simp_all
    fix t assume t: "t < Suc ?c"
    then have tk: "t < Suc ?k" "t \<noteq> Suc ?c" using ck by simp_all
    have "\<forall>q \<in> set (phis (?F ! t)). Reg (fst q) \<notin> set (map Reg ?rs)"
      using only [OF tk(1)] tk(2) unfolding set_map image_iff operand.inject by blast
    then have "?f (?F ! t) = ?F ! t" by (rule add_all_fresh)
    moreover have "t < length ?F" using tk(1) by simp
    from nth_map [OF this, of ?f] have "map ?f ?F ! t = ?f (?F ! t)" .
    ultimately have "map ?f ?F ! t = ?F ! t" by (simp only:)
    then show "phis (map ?f ?F ! t) = phis (blocks B ! t)"
      using ph3 [OF tk(1)] kB t unfolding phis_kept_def by (simp only:)
    show "preds (map ?f ?F) t = preds (blocks B) t" unfolding sh pr using kB t tk by (simp add: phis_kept_def)
  next
    fix p assume p: "p < length (blocks B)"
    then have "p < Suc ?k" using n(2) ck by simp
    moreover have "reg_count (take (Suc p) (blocks B)) \<le> reg_count (take (Suc p) (bs @ [b]))"
      using kB p by (simp only: phis_kept_def)
    ultimately show "reg_count (take (Suc p) (blocks B)) \<le> reg_count (take (Suc p) (map ?f ?F))"
      by (simp only: rct rc)
  qed
  moreover have "extends B B5" unfolding B5_def
    using wfT_wfB [OF B] wfT_wfB [OF B3(1)] B3(2) n n3 by (intro grows_footer) (simp_all add: grown_def)
  ultimately show "grown B B5" using bl n(2) ck by (simp add: grown_def extends_def)
qed

lemma gen_typed_do_while:
  assumes inits: "list_all2 (typed g T) inits ts"
    and body: "\<And>rs. list_all2 (typed g (T @ ts)) rs ts \<Longrightarrow>
      gen_typed g (Suc c) (T @ ts) (loop_body (Suc c) rs) (\<lambda>(origin, nexts, e) c' T'.
        origin = c' \<and> list_all2 (typed g T') nexts ts \<and> typed g T' e I1)"
    and post: "\<And>nexts c' U. c < c' \<Longrightarrow> list_all2 (typed g (T @ U)) nexts ts \<Longrightarrow> Q nexts c' (T @ U)"
  shows "gen_typed g c T (do_while inits loop_body) Q"
  unfolding gen_typed_def
proof (intro allI impI, elim conjE)
  fix B :: builder assume B: "wfT g B T" "cur B = c"
  have len: "length inits = length ts" using inits by (rule list_all2_lengthD)
  have n: "nextreg B = length T" "length (blocks B) = Suc c" using B by (auto simp: wfT_def)
  let ?rs = "map Reg [nextreg B..<nextreg B + length inits]" and ?H = "header_builder inits B"
  note hd = wfT_header [OF B(1) inits]
  obtain origin nexts e B3 where r: "run_state (loop_body (Suc c) ?rs) ?H = ((origin, nexts, e), B3)"
    by (metis prod_cases3 surj_pair)
  have "list_all2 (typed g (T @ ts)) ?rs ts"
    using len n by (auto simp: list_all2_conv_all_nth typed_def nth_append)
  from body [OF this] obtain U where "wfT g B3 ((T @ ts) @ U)" "grown ?H B3" "origin = cur B3"
      "list_all2 (typed g ((T @ ts) @ U)) nexts ts" "typed g ((T @ ts) @ U) e I1"
    using hd(1,3) B(2) r unfolding gen_typed_def by fastforce
  note B3 = this [unfolded append.assoc]
  have run: "run_state (do_while inits loop_body) B = (nexts, footer_builder (Suc c) origin ?rs nexts e B3)"
    using wfT_wfB [OF B3(1)] r n by (intro run_do_while [OF wfT_wfB [OF B(1)]]) (auto simp: wfB_def)
  note ft = wfT_footer [OF B(1) inits B3(1,2,4,5), unfolded n(2) B3(3) [symmetric]]
  have cur5: "c < cur (footer_builder (Suc c) origin ?rs nexts e B3)"
    using B3(1,2) hd(3) B(2) by (simp add: grown_def footer_builder_def wfT_def)
  then show "\<exists>U. wfT g (snd (run_state (do_while inits loop_body) B)) (T @ U) \<and>
      grown B (snd (run_state (do_while inits loop_body) B)) \<and>
      Q (fst (run_state (do_while inits loop_body) B)) (cur (snd (run_state (do_while inits loop_body) B))) (T @ U)"
    using ft post [OF cur5 B3(4)] unfolding run fst_conv snd_conv by blast
qed

section \<open>Rules of the builder operations, continued\<close>

lemma gen_typed_ops [typing]:
  "typed g T a Ptr \<Longrightarrow> gen_typed g c (T @ [I64]) (h (Reg (length T))) Q \<Longrightarrow>
     gen_typed g c T (State_Monad.bind (CreatePtrToInt a) h) Q"
  "typed g T a I64 \<Longrightarrow> gen_typed g c (T @ [Ptr]) (h (Reg (length T))) Q \<Longrightarrow>
     gen_typed g c T (State_Monad.bind (CreateIntToPtr a) h) Q"
  "typed g T a Ptr \<Longrightarrow> gen_typed g c (T @ [Ptr]) (h (Reg (length T))) Q \<Longrightarrow>
     gen_typed g c T (State_Monad.bind (CreateBitCast a) h) Q"
  "typed g T a I32 \<Longrightarrow> gen_typed g c (T @ [I64]) (h (Reg (length T))) Q \<Longrightarrow>
     gen_typed g c T (State_Monad.bind (CreateZExt a) h) Q"
  "typed g T a Ptr \<Longrightarrow> gen_typed g c (T @ [Vec]) (h (Reg (length T))) Q \<Longrightarrow>
     gen_typed g c T (State_Monad.bind (CreateAlignedLoad a n) h) Q"
  "typed g T a Table \<Longrightarrow> typed g T b I64 \<Longrightarrow> gen_typed g c (T @ [Table]) (h (Reg (length T))) Q \<Longrightarrow>
     gen_typed g c T (State_Monad.bind (CreateGEP a b) h) Q"
  "typed g T a Table \<Longrightarrow> gen_typed g c (T @ [I32]) (h (Reg (length T))) Q \<Longrightarrow>
     gen_typed g c T (State_Monad.bind (CreateLoad a) h) Q"
  unfolding emit_defs typed_def
  by (auto intro!: gen_typed_emit intro: operand_typed_append)

lemma gen_typed_arith [typing]:
  assumes "typed g T a t" "typed g T b t" "t \<in> {I32, I64}"
  shows "gen_typed g c (T @ [t]) (h (Reg (length T))) Q \<Longrightarrow> gen_typed g c T (State_Monad.bind (CreateAdd a b) h) Q"
    "gen_typed g c (T @ [t]) (h (Reg (length T))) Q \<Longrightarrow> gen_typed g c T (State_Monad.bind (CreateSub a b) h) Q"
    "gen_typed g c (T @ [t]) (h (Reg (length T))) Q \<Longrightarrow> gen_typed g c T (State_Monad.bind (CreateMul a b) h) Q"
    "gen_typed g c (T @ [I1]) (h (Reg (length T))) Q \<Longrightarrow> gen_typed g c T (State_Monad.bind (CreateICmpEQ a b) h) Q"
  using assms unfolding emit_defs typed_def
  by (auto intro!: gen_typed_emit intro: operand_typed_append)

lemma gen_typed_stores [typing]:
  "typed g T v Vec \<Longrightarrow> typed g T a Ptr \<Longrightarrow> gen_typed g c T (h ()) Q \<Longrightarrow>
     gen_typed g c T (State_Monad.bind (CreateAlignedStore v a) h) Q"
  "typed g T d Ptr \<Longrightarrow> typed g T s Ptr \<Longrightarrow> typed g T n I64 \<Longrightarrow> gen_typed g c T (h ()) Q \<Longrightarrow>
     gen_typed g c T (State_Monad.bind (CreateMemCpy d s n) h) Q"
  unfolding emit_defs typed_def by (auto intro!: gen_typed_emit_void)

lemma gen_typed_GetInsertBlock [typing]:
  "gen_typed g c T (h c) Q \<Longrightarrow> gen_typed g c T (State_Monad.bind GetInsertBlock h) Q"
  by (simp add: gen_typed_def GetInsertBlock_def)

lemma gen_typed_if [typing]:
  "gen_typed g c T (State_Monad.bind m h) Q \<Longrightarrow> gen_typed g c T (State_Monad.bind m' h) Q \<Longrightarrow>
     gen_typed g c T (State_Monad.bind (if P then m else m') h) Q"
  by simp

lemma gen_typed_tail: "gen_typed g c T (State_Monad.bind m State_Monad.return) Q \<Longrightarrow> gen_typed g c T m Q"
  by simp

lemma gen_typed_nested [typing]:
  "gen_typed g c T (State_Monad.bind m (\<lambda>x. State_Monad.bind (h x) k)) Q \<Longrightarrow>
     gen_typed g c T (State_Monad.bind (State_Monad.bind m h) k) Q"
  by simp

lemma typed_if [typing]: "typed g T a t \<Longrightarrow> typed g T b t \<Longrightarrow> typed g T (if P then a else b) t"
  by simp

lemma int_types [typing]: "I32 \<in> {I32, I64}" "I64 \<in> {I32, I64}"
  by simp_all

declare list.rel_intros [typing] TrueI [typing]

lemma gen_typed_loop_end [typing]:
  "list_all2 (typed g T) nexts ts \<Longrightarrow> typed g T e I1 \<Longrightarrow> gen_typed g c T (State_Monad.return (c, nexts, e))
     (\<lambda>(origin, nexts, e) c' T'. origin = c' \<and> list_all2 (typed g T') nexts ts \<and> typed g T' e I1)"
  by (simp add: gen_typed_return)

text \<open>A generated function is checked when its body is.\<close>

lemma wfT_start: "wfT g \<lparr>blocks = [empty_block], cur = 0, nextreg = 3\<rparr> [Ptr, I32, Ptr]"
  by (simp add: wfT_def checked_def phi_ok_def empty_block_def block_ok_def ndefs_def block_defs_def
      reg_count_def ladder_def phis_ok_def)

lemma verified_function:
  assumes "gen_typed g 0 [Ptr, I32, Ptr] (code (Reg 0) (Reg 1) (Reg 2)) Q"
    and B: "run_state (do { code (Reg 0) (Reg 1) (Reg 2); CreateRetVoid }) \<lparr>blocks = [empty_block], cur = 0, nextreg = 3\<rparr> = (x, B')"
  shows "verified g (blocks B')"
proof -
  let ?B = "\<lparr>blocks = [empty_block], cur = 0, nextreg = 3\<rparr>"
  have "wfT g ?B [Ptr, I32, Ptr]" by (rule wfT_start)
  then obtain U B1 where B1: "wfT g B1 ([Ptr, I32, Ptr] @ U)" "B' = set_terminator RetVoid B1"
    using assms by (fastforce simp: gen_typed_def CreateRetVoid_def split: prod.splits)
  obtain bs b where b: "blocks B1 = bs @ [b]" "cur B1 = length bs" "terminator b = None"
    "checked g ([Ptr, I32, Ptr] @ U) (bs @ [b])"
    using B1(1) by (rule wfT_split)
  let ?T = "[Ptr, I32, Ptr] @ U" and ?b = "b\<lparr>terminator := Some RetVoid\<rparr>"
  have nd: "ndefs ?b = ndefs b" by (simp add: ndefs_def block_defs_def)
  have k: "phis_kept (Suc (length bs)) (bs @ [b]) (bs @ [?b])"
    by (rule last_kept) (simp_all add: nd b(3))
  have "phis_ok g ?T (bs @ [?b])"
    unfolding phis_ok_def using phis_ok_kept [OF b(4) k, where U = "[]", unfolded append_Nil2] by (auto simp: less_Suc_eq)
  moreover have "ladder (bs @ [?b])"
    using b(4) ladder_cong [of "bs @ [?b]" "bs @ [b]"] by (auto simp: checked_def nth_append)
  ultimately have "checked g ?T (bs @ [?b])"
    using b(3,4) by (simp add: checked_def code_ok_append block_ok_def nd reg_count_def)
  then have "verified g (bs @ [?b])" by (rule checked_verified) simp_all
  then show ?thesis using B1(2) b by (simp add: set_terminator_def)
qed

end
