(* ===== verification/Code_Typed.thy ===== *)
theory Code_Typed
  imports IR_Typing Compile_Correct
begin

text \<open>
  The functions that DDT\_Commit makes pass the verifier: every generator is checked once,
  for any basetype whose code is, and the classes by induction on the datatype.  The one
  exception is an indexed block type of more than 16 blocks whose blocks are copied by a
  loop: codegenIndexedBlock names the block it started the inner loop with as the origin of
  the back edge, where the loop of the basetype has moved the insertion point on.
\<close>

section \<open>Code of a basetype\<close>

text \<open>Code that takes two pointers and a count; for a count known now it may stay in its block.\<close>

definition emitter_typed :: "nat \<Rightarrow> emitter \<Rightarrow> bool" where
  "emitter_typed g code \<longleftrightarrow> (\<forall>a k b c T. typed g T a Ptr \<longrightarrow> typed g T k I32 \<longrightarrow> typed g T b Ptr \<longrightarrow>
     gen_typed g c T (code a k b) (\<lambda>_ _ _. True))"

definition emitter_straight :: "nat \<Rightarrow> int \<Rightarrow> emitter \<Rightarrow> bool" where
  "emitter_straight g l code \<longleftrightarrow> (\<forall>a b c T. typed g T a Ptr \<longrightarrow> typed g T b Ptr \<longrightarrow>
     gen_typed g c T (code a (constNode l) b) (\<lambda>_ c' _. c' = c))"

lemma gen_typed_True: "gen_typed g c T m Q \<Longrightarrow> gen_typed g c T m (\<lambda>_ _ _. True)"
  by (rule gen_typed_conseq) simp_all

text \<open>Code with a loop goes on in a later block.\<close>

definition emitter_moves :: "nat \<Rightarrow> emitter \<Rightarrow> bool" where
  "emitter_moves g code \<longleftrightarrow> (\<forall>a k b c T. typed g T a Ptr \<longrightarrow> typed g T k I32 \<longrightarrow> typed g T b Ptr \<longrightarrow>
     gen_typed g c T (code a k b) (\<lambda>_ c' _. c < c'))"

lemma emitter_movesI:
  "(\<And>a k b c T. typed g T a Ptr \<Longrightarrow> typed g T k I32 \<Longrightarrow> typed g T b Ptr \<Longrightarrow>
     gen_typed g c T (code a k b) (\<lambda>_ c' _. c < c')) \<Longrightarrow> emitter_moves g code"
  by (simp add: emitter_moves_def)

lemma emitter_movesD:
  "emitter_moves g code \<Longrightarrow> typed g T a Ptr \<Longrightarrow> typed g T k I32 \<Longrightarrow> typed g T b Ptr \<Longrightarrow>
     gen_typed g c T (code a k b) (\<lambda>_ c' _. c < c')"
  by (simp add: emitter_moves_def)

lemma emitter_moves_typed: "emitter_moves g code \<Longrightarrow> emitter_typed g code"
  unfolding emitter_moves_def emitter_typed_def by (blast intro: gen_typed_conseq)

lemma emitter_typedI:
  "(\<And>a k b c T. typed g T a Ptr \<Longrightarrow> typed g T k I32 \<Longrightarrow> typed g T b Ptr \<Longrightarrow>
     gen_typed g c T (code a k b) (\<lambda>_ _ _. True)) \<Longrightarrow> emitter_typed g code"
  by (simp add: emitter_typed_def)

lemma emitter_typedD:
  "emitter_typed g code \<Longrightarrow> typed g T a Ptr \<Longrightarrow> typed g T k I32 \<Longrightarrow> typed g T b Ptr \<Longrightarrow>
     gen_typed g c T (code a k b) (\<lambda>_ _ _. True)"
  by (simp add: emitter_typed_def)

lemma emitter_typed_bind:
  assumes "emitter_typed g code" "typed g T a Ptr" "typed g T k I32" "typed g T b Ptr"
    and "\<And>c' U. gen_typed g c' (T @ U) (h ()) Q"
  shows "gen_typed g c T (State_Monad.bind (code a k b) h) Q"
  by (rule gen_typed_bind [where Q = "\<lambda>_ _ _. True"]) (use assms in \<open>auto simp: emitter_typed_def\<close>)

lemma emitter_straight_bind:
  assumes "emitter_straight g l code" "typed g T a Ptr" "typed g T b Ptr"
    and "\<And>U. gen_typed g c (T @ U) (h ()) Q"
  shows "gen_typed g c T (State_Monad.bind (code a (constNode l) b) h) Q"
  by (rule gen_typed_bind [where Q = "\<lambda>_ c' _. c' = c"]) (use assms in \<open>auto simp: emitter_straight_def\<close>)

section \<open>Loops over two and three values\<close>

lemmas nth_phis = nth_Cons_0 nth_Cons_Suc One_nat_def numeral_2_eq_2 Let_def

lemma gen_typed_loop2:
  assumes "typed g T a t" "typed g T b u"
    and body: "\<And>x y. typed g (T @ [t, u]) x t \<Longrightarrow> typed g (T @ [t, u]) y u \<Longrightarrow>
      gen_typed g (Suc c) (T @ [t, u]) (loop_body (Suc c) [x, y]) (\<lambda>(origin, nexts, e) c' T'.
        origin = c' \<and> list_all2 (typed g T') nexts [t, u] \<and> typed g T' e I1)"
    and rest: "\<And>x y c' U. c < c' \<Longrightarrow> typed g (T @ U) x t \<Longrightarrow> typed g (T @ U) y u \<Longrightarrow> gen_typed g c' (T @ U) (h [x, y]) Q"
  shows "gen_typed g c T (State_Monad.bind (do_while [a, b] loop_body) h) Q"
proof (rule gen_typed_bind [OF gen_typed_do_while [where ts = "[t, u]" and
      Q = "\<lambda>ends c' T'. c < c' \<and> list_all2 (typed g T') ends [t, u]"]], goal_cases)
  case (2 rs)
  then obtain x y where "rs = [x, y]" "typed g (T @ [t, u]) x t" "typed g (T @ [t, u]) y u"
    by (auto simp: list_all2_Cons2)
  then show ?case using body by blast
next
  case (4 ends c' U)
  then show ?case by (auto simp: list_all2_Cons2 intro: rest)
qed (use assms(1,2) in auto)

lemma gen_typed_loop3:
  assumes "typed g T a t" "typed g T b u" "typed g T d v"
    and body: "\<And>x y z. typed g (T @ [t, u, v]) x t \<Longrightarrow> typed g (T @ [t, u, v]) y u \<Longrightarrow> typed g (T @ [t, u, v]) z v \<Longrightarrow>
      gen_typed g (Suc c) (T @ [t, u, v]) (loop_body (Suc c) [x, y, z]) (\<lambda>(origin, nexts, e) c' T'.
        origin = c' \<and> list_all2 (typed g T') nexts [t, u, v] \<and> typed g T' e I1)"
    and rest: "\<And>x c' U. c < c' \<Longrightarrow> gen_typed g c' (T @ U) (h x) Q"
  shows "gen_typed g c T (State_Monad.bind (do_while [a, b, d] loop_body) h) Q"
proof (rule gen_typed_bind [OF gen_typed_do_while [where ts = "[t, u, v]" and
      Q = "\<lambda>ends c' T'. c < c'"]], goal_cases)
  case (2 rs)
  then obtain x y z where "rs = [x, y, z]" "typed g (T @ [t, u, v]) x t" "typed g (T @ [t, u, v]) y u"
    "typed g (T @ [t, u, v]) z v"
    by (auto simp: list_all2_Cons2)
  then show ?case using body by blast
next
  case (4 ends c' U)
  then show ?case by (auto intro: rest)
qed (use assms(1-3) in auto)

section \<open>Helpers and primitive types\<close>

lemma gen_typed_multNode [typing]:
  assumes "typed g T a I32" "\<And>U b. typed g (T @ U) b I64 \<Longrightarrow> gen_typed g c (T @ U) (h b) Q"
  shows "gen_typed g c T (State_Monad.bind (multNode n a) h) Q"
  unfolding multNode_def Let_def State_Monad.bind_assoc
  by (rule typing typed_mono assms(1))+ (use assms(2) [of "[I64, I64]"] in \<open>simp add: typed_def nth_append\<close>)

lemma gen_typed_vmove [typing]:
  assumes "typed g T d Ptr" "typed g T s Ptr" "\<And>U. gen_typed g c (T @ U) (h ()) Q"
  shows "gen_typed g c T (State_Monad.bind (vmove d s n t) h) Q"
  unfolding vmove_def State_Monad.bind_assoc
  by (rule typing typed_mono assms(1,2))+ (use assms(3) [of "[Ptr, Ptr, Vec]"] in simp)

lemma gen_typed_incrementPtr [typing]:
  assumes "typed g T a Ptr" "\<And>U b. typed g (T @ U) b Ptr \<Longrightarrow> gen_typed g c (T @ U) (h b) Q"
  shows "gen_typed g c T (State_Monad.bind (incrementPtr a n) h) Q"
  unfolding incrementPtr_def State_Monad.bind_assoc
  by (rule typing typed_mono assms(1))+ (use assms(2) [of "[I64, I64, Ptr]"] in \<open>simp add: typed_def nth_append\<close>)

lemma gen_typed_postamble_moves:
  assumes "typed g T a Ptr" "typed g T b Ptr"
  shows "gen_typed g c T (postamble_moves i a b s v t) (\<lambda>(a, b) c' T'. c' = c \<and> typed g T' a Ptr \<and> typed g T' b Ptr)"
  using assms
proof (induction i arbitrary: a b T)
  case (Suc i)
  show ?case unfolding postamble_moves.simps
    by (assumption | rule typing Suc.prems Suc.IH | rule typed_mono)+
qed (auto intro: gen_typed_return)

lemma gen_typed_copyloop_moves:
  assumes "typed g T x I64" "typed g T a Ptr" "typed g T b Ptr"
  shows "gen_typed g c T (copyloop_moves i x a b s v t)
    (\<lambda>(x, a, b) c' T'. c' = c \<and> typed g T' x I64 \<and> typed g T' a Ptr \<and> typed g T' b Ptr)"
  using assms
proof (induction i arbitrary: x a b T)
  case (Suc i)
  show ?case unfolding copyloop_moves.simps
    by (assumption | rule typing Suc.prems Suc.IH | rule typed_mono)+
qed (auto intro: gen_typed_return)

lemma gen_typed_copyloop:
  assumes "typed g T x I64" "typed g T a Ptr" "typed g T b Ptr"
    and "\<And>x a b U. typed g (T @ U) x I64 \<Longrightarrow> typed g (T @ U) a Ptr \<Longrightarrow> typed g (T @ U) b Ptr \<Longrightarrow> gen_typed g c (T @ U) (h (x, a, b)) Q"
  shows "gen_typed g c T (State_Monad.bind (copyloop_moves i x a b s v t) h) Q"
  by (rule gen_typed_bind [OF gen_typed_copyloop_moves [OF assms(1-3)]]) (use assms(4) in auto)

lemma gen_typed_postamble:
  "typed g T a Ptr \<Longrightarrow> typed g T b Ptr \<Longrightarrow> gen_typed g c T (postamble v a b n s t) (\<lambda>_ c' _. c' = c)"
proof (induction v a b n s t arbitrary: T rule: postamble.induct)
  case (1 v a b n s t)
  show ?case
  proof (cases "0 < v")
    case True
    show ?thesis using True
      apply (subst postamble.simps)
      apply (simp only: if_True Let_def)
      apply (rule gen_typed_bind [OF gen_typed_postamble_moves [OF 1(2,3)]])
      apply (auto intro!: 1(1) [OF True refl])
      done
  qed (subst postamble.simps, simp add: gen_typed_return)
qed

text \<open>The count from which codegenPrimitive emits a loop.\<close>

definition copies_in_loop :: "int \<Rightarrow> int \<Rightarrow> bool" where
  "copies_in_loop incount_val elsize \<longleftrightarrow>
     (incount_val sdiv (SIMD_BYTE_SIZE sdiv elsize) sdiv int COPY_LOOP_UNROLL) * int COPY_LOOP_UNROLL > 0 \<and>
     incount_val \<ge> COPY_LOOP_TRESHOLD sdiv elsize"

lemma gen_typed_codegenPrimitive_const:
  assumes "typed g T a Ptr" "typed g T b Ptr"
  shows "gen_typed g c T (codegenPrimitive_const a n b e t) (\<lambda>_ c' _. if copies_in_loop n e then c < c' else c' = c)"
proof (cases "copies_in_loop n e")
  case False
  have "gen_typed g c T (postamble (SIMD_BYTE_SIZE sdiv e) a b n e (toLLVMType t)) (\<lambda>_ c' _. if copies_in_loop n e then c < c' else c' = c)"
    using gen_typed_postamble [OF assms(1,2)] by (rule gen_typed_conseq) (simp add: False)
  then show ?thesis using False by (auto simp: codegenPrimitive_const_def Let_def copies_in_loop_def)
next
  case True
  let ?v = "SIMD_BYTE_SIZE sdiv e" and ?u = "int COPY_LOOP_UNROLL"
  let ?n = "(n sdiv ?v sdiv ?u) * ?u"
  have loop: "codegenPrimitive_const a n b e t = do {
           inbuf_int \<leftarrow> CreatePtrToInt a;
           exitval \<leftarrow> CreateAdd inbuf_int (constNode_long (?n * SIMD_BYTE_SIZE));
           ends \<leftarrow> do_while [a, b] (\<lambda>copyloop phis. do {
             (in_addr, inbuf, outbuf) \<leftarrow> copyloop_moves COPY_LOOP_UNROLL (constNode_long 0)
                (phis ! 0) (phis ! 1) e ?v (toLLVMType t);
             exitcond \<leftarrow> CreateICmpEQ in_addr exitval;
             State_Monad.return (copyloop, [inbuf, outbuf], exitcond) });
           postamble ?v (ends ! 0) (ends ! 1) (n - ?n * ?v) e (toLLVMType t) }"
    using True by (simp add: codegenPrimitive_const_def Let_def copies_in_loop_def)
  show ?thesis unfolding loop
    apply (rule typing typed_mono assms(1,2))+
    apply (rule gen_typed_loop2)
    apply (rule typed_mono assms(1,2))+
     apply (simp only: nth_phis)
     apply (rule gen_typed_copyloop)
        apply (assumption | rule typing typed_mono)+
     apply (simp only: prod.case)
     apply (assumption | rule typing | rule typed_mono)+
    apply (simp only: nth_phis)
    apply (rule gen_typed_conseq [OF gen_typed_postamble])
    using True by auto
qed

lemma codegenPrimitive_typed: "emitter_typed g (\<lambda>a k b. codegenPrimitive a k b e t)"
proof (rule emitter_typedI)
  fix a k b c T assume T: "typed g T a Ptr" "typed g T k I32" "typed g T b Ptr"
  show "gen_typed g c T (codegenPrimitive a k b e t) (\<lambda>_ _ _. True)"
  proof (cases "const_count k")
    case None
    have "gen_typed g c T (do { l \<leftarrow> multNode e k; CreateMemCpy b a l }) (\<lambda>_ _ _. True)"
      by (rule gen_typed_tail, unfold State_Monad.bind_assoc)
        (assumption | rule typing T gen_typed_return | rule typed_mono)+
    then show ?thesis using None by (simp add: codegenPrimitive_def)
  next
    case (Some n)
    then show ?thesis using gen_typed_codegenPrimitive_const [OF T(1,3), THEN gen_typed_True] by (simp add: codegenPrimitive_def)
  qed
qed

lemma codegenPrimitiveResized_moves: "emitter_moves g (\<lambda>a k b. codegenPrimitiveResized a k b e x t)"
proof (rule emitter_movesI)
  fix a k b c T assume T: "typed g T a Ptr" "typed g T k I32" "typed g T b Ptr"
  show "gen_typed g c T (codegenPrimitiveResized a k b e x t) (\<lambda>_ c' _. c < c')"
    unfolding codegenPrimitiveResized_def
    apply (rule gen_typed_loop3 [OF T(1,3,2)])
     apply (simp only: nth_phis)
     apply (assumption | rule typing | rule typed_mono)+
    apply (rule gen_typed_return, assumption)
    done
qed

section \<open>Loops over a basetype\<close>

lemma codegenContiguous_moves:
  assumes "emitter_typed g (basetype pack)"
  shows "emitter_moves g (\<lambda>a k b. codegenContiguous a k b basetype x y n pack)"
proof (rule emitter_movesI)
  fix a k b c T assume T: "typed g T a Ptr" "typed g T k I32" "typed g T b Ptr"
  show "gen_typed g c T (codegenContiguous a k b basetype x y n pack) (\<lambda>_ c' _. c < c')"
    unfolding codegenContiguous_def
    apply (rule gen_typed_loop3 [OF T(3,1) typed_operand(4)])
     apply (simp only: nth_phis)
     apply (assumption | rule typing emitter_typed_bind assms T | rule typed_mono)+
    apply (rule gen_typed_return, assumption)
    done
qed

lemma codegenVector_moves:
  assumes "emitter_typed g (basetype pack)"
  shows "emitter_moves g (\<lambda>a k b. codegenVector a k b basetype n l si so x sz pack)"
proof (rule emitter_movesI)
  fix a k b c T assume T: "typed g T a Ptr" "typed g T k I32" "typed g T b Ptr"
  show "gen_typed g c T (codegenVector a k b basetype n l si so x sz pack) (\<lambda>_ c' _. c < c')"
    unfolding codegenVector_def
    by (simp only: nth_phis | assumption | rule typing emitter_typed_bind [OF assms] T gen_typed_loop2
      gen_typed_loop3 gen_typed_return | rule typed_mono)+
qed

section \<open>Blocks at displacements\<close>

lemma directed_typed:
  assumes "emitter_typed g (base pack)" "typed g T a Ptr" "typed g T k I32" "typed g T b Ptr"
    and "\<And>c' U. gen_typed g c' (T @ U) (h ()) Q"
  shows "gen_typed g c T (State_Monad.bind (if pack then base True a k b else base False b k a) h) Q"
  using assms by (cases pack) (auto intro: emitter_typed_bind)

lemma directed_in_block:
  assumes "emitter_straight g l (base pack)" "typed g T a Ptr" "typed g T b Ptr"
    and "\<And>U. gen_typed g c (T @ U) (h ()) Q"
  shows "gen_typed g c T (State_Monad.bind (if pack then base True a (constNode l) b else base False b (constNode l) a) h) Q"
  using assms by (cases pack) (auto intro: emitter_straight_bind)

lemma gen_typed_unrolled_blocks:
  assumes "\<forall>(d, l, base, k) \<in> set bs. emitter_typed g (base pack)"
    and "typed g T s I64" "typed g T x I64" "typed g T n Ptr"
  shows "gen_typed g c T (unrolled_blocks pack s x n bs) (\<lambda>r _ T'. typed g T' r Ptr)"
  using assms
proof (induction bs arbitrary: c T x n)
  case (Cons b bs)
  obtain d l base k where b: "b = (d, l, base, k)" by (cases b)
  have base: "emitter_typed g (base pack)" and bs: "\<forall>(d, l, base, k) \<in> set bs. emitter_typed g (base pack)"
    using Cons.prems(1) by (auto simp: b)
  show ?case unfolding b unrolled_blocks.simps
    by (assumption | rule typing directed_typed [where base = base, OF base] Cons.prems(2-) Cons.IH [OF bs] | rule typed_mono)+
qed (simp add: gen_typed_return)

lemma gen_typed_unrolled_bind:
  assumes "\<forall>(d, l, base, k) \<in> set bs. emitter_typed g (base pack)"
    and "typed g T s I64" "typed g T x I64" "typed g T n Ptr"
    and "\<And>r c' U. typed g (T @ U) r Ptr \<Longrightarrow> gen_typed g c' (T @ U) (h r) Q"
  shows "gen_typed g c T (State_Monad.bind (unrolled_blocks pack s x n bs) h) Q"
  by (rule gen_typed_bind [OF gen_typed_unrolled_blocks [OF assms(1-4)]]) (use assms(5) in auto)

lemma codegenBlocks_moves:
  assumes "\<forall>(d, l, base, k) \<in> set bs. emitter_typed g (base pack)"
    and T: "typed g T a Ptr" "typed g T b Ptr" "typed g T k I32"
  shows "gen_typed g c T (codegenBlocks a b k x bs pack) (\<lambda>_ c' _. c < c')"
  unfolding codegenBlocks_def
  by (simp only: nth_phis | assumption | rule typing gen_typed_unrolled_bind [OF assms(1)] T gen_typed_loop2
      gen_typed_return | rule typed_mono)+

lemma gen_typed_idxb_moves:
  assumes "emitter_straight g l (bt_codegen base pack)" "typed g T arr Table"
    and "typed g T nc I64" "typed g T i I64" "typed g T x I64"
  shows "gen_typed g c T (idxb_moves j pack arr nc base l i x)
    (\<lambda>(i, x) c' T'. c' = c \<and> typed g T' i I64 \<and> typed g T' x I64)"
  using assms(2-)
proof (induction j arbitrary: T i x)
  case (Suc j)
  show ?case unfolding idxb_moves.simps
    by (assumption | rule typing directed_in_block [where base = "bt_codegen base", OF assms(1)] Suc.prems Suc.IH
      | rule typed_mono)+
qed (auto intro: gen_typed_return)

lemma gen_typed_idxb_bind:
  assumes "emitter_straight g l (bt_codegen base pack)" "typed g T arr Table"
    and "typed g T nc I64" "typed g T i I64" "typed g T x I64"
    and "\<And>i x U. typed g (T @ U) i I64 \<Longrightarrow> typed g (T @ U) x I64 \<Longrightarrow> gen_typed g c (T @ U) (h (i, x)) Q"
  shows "gen_typed g c T (State_Monad.bind (idxb_moves j pack arr nc base l i x) h) Q"
  by (rule gen_typed_bind [OF gen_typed_idxb_moves [OF assms(1-5)]]) (use assms(6) in auto)

lemma codegenIndexedBlock_moves:
  assumes base: "emitter_typed g (bt_codegen base pack)"
    and many: "IDXB_LOOP_TRESHOLD < n \<Longrightarrow> emitter_straight g l (bt_codegen base pack) \<and> the arr < g"
    and T: "typed g T a Ptr" "typed g T b Ptr" "typed g T k I32"
  shows "gen_typed g c T (codegenIndexedBlock a b k x sz n l base ds arr pack) (\<lambda>_ c' _. c < c')"
proof (cases "IDXB_LOOP_TRESHOLD < n")
  case True
  then have st: "emitter_straight g l (bt_codegen base pack)" and arr: "the arr < g" using many by auto
  show ?thesis unfolding codegenIndexedBlock_def if_P [OF True]
    by (simp only: nth_phis prod.case | assumption | rule typing gen_typed_idxb_bind [OF st] arr T gen_typed_loop2
      gen_typed_return | rule typed_mono)+
next
  case False
  then show ?thesis using codegenBlocks_moves [OF _ T] base by (simp add: codegenIndexedBlock_def)
qed

section \<open>The classes\<close>

text \<open>Indexed block types of more than 16 blocks have blocks that are copied without a loop.\<close>

fun copied_straight :: "int \<Rightarrow> ddt \<Rightarrow> bool" where
  "copied_straight blocklen (Primitive d type) =
     (\<not> copies_in_loop (sint (word_of_int blocklen :: i32)) (getSize (Primitive d type)))"
| "copied_straight blocklen _ = False"

fun short_blocks :: "ddt \<Rightarrow> bool" where
  "short_blocks (Primitive d type) = True"
| "short_blocks (Contiguous d cnt b) = short_blocks b"
| "short_blocks (Vector d cnt blocklen stride b) = short_blocks b"
| "short_blocks (HVector d cnt blocklen stride b) = short_blocks b"
| "short_blocks (IndexedBlock d cnt blocklen displs b arr) =
     (short_blocks b \<and> (IDXB_LOOP_TRESHOLD < cnt \<longrightarrow> copied_straight blocklen b))"
| "short_blocks (HIndexed d cnt blocklens displs b) = short_blocks b"
| "short_blocks (Struct d cnt blocklens displs bs) = list_all short_blocks bs"
| "short_blocks (Resized d b) = short_blocks b"

lemma copied_straight_erase [simp]: "copied_straight l (erase t) = copied_straight l t"
  by (cases t) simp_all

lemma short_blocks_erase [simp]: "short_blocks (erase t) = short_blocks t"
  by (induction t) (auto simp: list_all_iff)

lemma compress_built: "built t \<Longrightarrow> compress t = Some t' \<Longrightarrow> built t'"
proof (induction t arbitrary: t' rule: measure_induct_rule [of size])
  case (less t)
  have sub: "built s" "\<And>s'. compress s = Some s' \<Longrightarrow> built s'" if "s \<in> set (getSubtypes t)" for s
    using built_subtype [OF less.prems(1) that] less.IH [OF size_subtype [OF that]] by blast+
  have len: "lengths_ok t" using less.prems(1) by (rule built_lengths)
  have parts: "built s" if "built cb" "cb = Contiguous e c s" for cb e c s
    using built_subtype [OF that(1)] that(2) by simp
  show ?case
  proof (cases t)
    case (Contiguous d n b)
    then obtain cb where cb: "compress b = Some cb" "Contiguous_compress t n cb = Some t'" "built cb"
      using less.prems(2) sub [of b] by (auto simp: bind_eq_Some_conv)
    then show ?thesis using parts [OF cb(3)]
      by (cases cb) (auto simp: Contiguous_compress_def check_def split: if_splits intro!: built.intros)
  next
    case (Vector d n l stride b)
    then obtain cb where cb: "compress b = Some cb" "Vector_compress t n l stride cb = Some t'" "built cb"
      using less.prems(2) sub [of b] by (auto simp: bind_eq_Some_conv)
    then show ?thesis using parts [OF cb(3)]
      by (cases cb) (auto simp: Vector_compress_def check_def clone_built simp del: clone.simps split: if_splits intro!: built.intros)
  next
    case (HVector d n l stride b)
    then obtain cb where cb: "compress b = Some cb" "HVector_compress t n l stride cb = Some t'" "built cb"
      using less.prems(2) sub [of b] by (auto simp: bind_eq_Some_conv)
    then show ?thesis using parts [OF cb(3)]
      by (cases cb) (auto simp: HVector_compress_def check_def clone_built simp del: clone.simps split: if_splits intro!: built.intros)
  qed (use less.prems(2) sub len in \<open>auto simp: Primitive_compress_def IndexedBlock_compress_def HIndexed_compress_def
    Struct_compress_def Resized_compress_def bind_eq_Some_conv split: option.splits intro!: built.intros\<close>)
qed

lemma codegenPrimitive_straight:
  assumes "\<not> copies_in_loop (sint (word_of_int l :: i32)) e"
  shows "emitter_straight g l (\<lambda>a k b. codegenPrimitive a k b e t)"
  using gen_typed_codegenPrimitive_const [of g _ _ _ _ "sint (word_of_int l :: i32)" e] assms
  by (simp add: emitter_straight_def codegenPrimitive_def constNode_def)

abbreviation class_typed :: "nat \<Rightarrow> ddt \<Rightarrow> bool" where
  "class_typed g t \<equiv> emitter_typed g (packCodegen t) \<and> emitter_typed g (unpackCodegen t)"

lemma class_straight:
  "copied_straight l t \<Longrightarrow> emitter_straight g l (packCodegen t) \<and> emitter_straight g l (unpackCodegen t)"
  using codegenPrimitive_straight
  by (cases "(l, t)" rule: copied_straight.cases)
    (simp_all add: Primitive_packCodegen_def Primitive_unpackCodegen_def emitter_straight_def)

lemmas codes_move = emitter_movesD [OF codegenPrimitiveResized_moves] emitter_movesD [OF codegenContiguous_moves]
  emitter_movesD [OF codegenVector_moves] codegenIndexedBlock_moves codegenBlocks_moves

lemmas codes_typed = emitter_typedD [OF codegenPrimitive_typed] codes_move [THEN gen_typed_True] gen_typed_return

lemma Resized_typed:
  assumes "\<And>s. s \<in> set (getSubtypes b) \<Longrightarrow> class_typed g s" shows "class_typed g (Resized d b)"
  using assms
  by (cases b; intro conjI emitter_typedI; auto simp: codegen_defs methods_def intro!: codes_typed)

lemma subtypes_move:
  assumes "\<And>s. s \<in> set (getSubtypes t) \<Longrightarrow> class_typed g s" "\<forall>d b. t \<noteq> Resized d b" "\<forall>d p. t \<noteq> Primitive d p"
    and "lengths_ok t"
    and "\<And>d n l ds b arr. t = IndexedBlock d n l ds b arr \<Longrightarrow> IDXB_LOOP_TRESHOLD < n \<Longrightarrow> copied_straight l b \<and> the arr < g"
  shows "emitter_moves g (packCodegen t) \<and> emitter_moves g (unpackCodegen t)"
proof (cases t)
  case (IndexedBlock d n l displs b arr)
  then have "class_typed g b" "IDXB_LOOP_TRESHOLD < n \<longrightarrow> copied_straight l b \<and> the arr < g"
    using assms by auto
  then show ?thesis using class_straight [of l b g] unfolding IndexedBlock
    by (intro conjI emitter_movesI; simp add: codegen_defs methods_def info_def; intro codegenIndexedBlock_moves; simp)
next
  case (Struct d n ls displs bs)
  have "class_typed g (bs ! i)" if "i < nat n" for i using assms(1,4) that by (simp add: Struct)
  then show ?thesis unfolding Struct using assms(4)
    by (intro conjI emitter_movesI; auto simp: Struct codegen_defs codegenStruct_def methods_def info_def intro!: codes_move)
next
  case (Contiguous d n b)
  then show ?thesis using assms(1) [of b]
    by (intro conjI emitter_movesI; auto simp: codegen_defs codegenHindexed_def methods_def info_def intro!: codes_move)
next
  case (Vector d n l stride b)
  then show ?thesis using assms(1) [of b]
    by (intro conjI emitter_movesI; auto simp: codegen_defs codegenHindexed_def methods_def info_def intro!: codes_move)
next
  case (HVector d n l stride b)
  then show ?thesis using assms(1) [of b]
    by (intro conjI emitter_movesI; auto simp: codegen_defs codegenHindexed_def methods_def info_def intro!: codes_move)
next
  case (HIndexed d n ls displs b)
  then show ?thesis using assms(1) [of b]
    by (intro conjI emitter_movesI; auto simp: codegen_defs codegenHindexed_def methods_def info_def intro!: codes_move)
qed (use assms(2,3) in blast)+

text \<open>What \<open>class_typed\<close> asks of a datatype it asks of its basetypes.\<close>

definition emittable :: "globals \<Rightarrow> ddt \<Rightarrow> bool" where
  "emittable G t \<longleftrightarrow> built (erase t) \<and> short_blocks t \<and> tables G t"

lemma emittable_subtype: "emittable G t \<Longrightarrow> s \<in> set (getSubtypes t) \<Longrightarrow> emittable G s"
  using built_erase_subtype [of t s] by (cases t) (auto simp: emittable_def list_all_iff)

lemma emittable_lengths: "emittable G t \<Longrightarrow> lengths_ok t"
  using built_lengths [of "erase t"] by (cases t) (auto simp: emittable_def)

lemma emittable_moves:
  assumes "emittable G t" "\<And>s. s \<in> set (getSubtypes t) \<Longrightarrow> class_typed (length G) s"
    "\<forall>d b. t \<noteq> Resized d b" "\<forall>d p. t \<noteq> Primitive d p"
  shows "emitter_moves (length G) (packCodegen t) \<and> emitter_moves (length G) (unpackCodegen t)"
  using assms emittable_lengths [OF assms(1)]
  by (intro subtypes_move) (auto simp: emittable_def split: option.splits)

lemma class_typed: "emittable G t \<Longrightarrow> class_typed (length G) t"
proof (induction t rule: measure_induct_rule [of size])
  case (less t)
  have sub: "class_typed (length G) s" if "s \<in> set (getSubtypes t)" for s
    using less.IH [OF size_subtype [OF that] emittable_subtype [OF less.prems that]] .
  show ?case
  proof (cases t)
    case (Primitive d type)
    then show ?thesis by (intro conjI emitter_typedI; auto simp: codegen_defs intro!: codes_typed)
  next
    case (Resized d b)
    then have b: "b \<in> set (getSubtypes t)" by simp
    have "class_typed (length G) s" if "s \<in> set (getSubtypes b)" for s
      using less.IH [of s] size_subtype [OF that] size_subtype [OF b]
        emittable_subtype [OF emittable_subtype [OF less.prems b] that] by simp
    then show ?thesis unfolding Resized by (rule Resized_typed)
  qed (use emittable_moves [OF less.prems sub] in \<open>blast intro: emitter_moves_typed\<close>)+
qed

lemma globalCodegen_built: "built t \<Longrightarrow> globalCodegen t G = (t', G') \<Longrightarrow> erase t' = t \<and> tables G' t'"
  using globalCodegen_tables(1) [of t G t' G'] by (simp add: erase_built)

section \<open>The property\<close>

text \<open>
  C8: the two functions that DDT\_Commit makes of a datatype satisfy the rules of LLVM's
  verifier: every block ends in a branch to an existing block or a return, every register is
  defined once and of one type, every use is dominated by its definition and has the type the
  instruction asks for, and every phi node has one entry for every edge into its block; for
  all datatypes, also those whose code does not move the right bytes, in which no indexed block
  type of more than 16 blocks has blocks that are copied by a loop.
\<close>

theorem DDT_Commit_verified:
  assumes "built t" "compress t = Some t'" "short_blocks t'" "DDT_Commit t G = Some c"
  shows "verified (length (module_globals c)) (fpack c) \<and> verified (length (module_globals c)) (funpack c)"
proof -
  have b: "built t'" using assms(1,2) by (rule compress_built)
  obtain t2 G2 where g: "globalCodegen t' G = (t2, G2)" by force
  have e: "erase t2 = t'" "tables G2 t2" using globalCodegen_built [OF b g] by simp_all
  have "short_blocks t2" using assms(3) short_blocks_erase [of t2] e(1) by simp
  then have ty: "class_typed (length G2) t2" using b e by (intro class_typed) (simp add: emittable_def)
  have fn: "verified (length G2) (build_function code)" if "emitter_typed (length G2) code" for code
  proof -
    have "gen_typed (length G2) 0 [Ptr, I32, Ptr] (code (Reg 0) (Reg 1) (Reg 2)) (\<lambda>_ _ _. True)"
      using that by (auto simp: emitter_typed_def typed_def)
    from verified_function [where code = code, OF this prod.collapse [symmetric]] show ?thesis
      unfolding build_function_def createFunctionHeader_def .
  qed
  have "c = \<lparr>fpack = build_function (packCodegen t2), funpack = build_function (unpackCodegen t2), module_globals = G2\<rparr>"
    using assms(2,4) g by (simp add: DDT_Commit_def compile_def)
  then show ?thesis using fn ty by simp
qed

text \<open>Seventeen blocks of two integers, copied through the table of displacements.\<close>

definition seventeen :: "int list" where
  "seventeen = [0, 3, 6, 9, 12, 15, 18, 21, 24, 27, 30, 33, 36, 39, 42, 45, 48]"

theorem DDT_Commit_verified_witness:
  "\<exists>c. DDT_Commit (IndexedBlockDatatype 17 2 seventeen (PrimitiveDatatype INTEGER)) [] = Some c \<and>
     verified (length (module_globals c)) (fpack c) \<and> verified (length (module_globals c)) (funpack c)"
proof -
  let ?t = "IndexedBlockDatatype 17 2 seventeen (PrimitiveDatatype INTEGER)"
  have b: "built ?t" by (intro built.intros) (simp add: seventeen_def)
  have c: "compress ?t = Some ?t" by code_simp
  have s: "short_blocks ?t" by code_simp
  have "\<exists>c. DDT_Commit ?t [] = Some c" by (simp add: DDT_Commit_def compile_def c)
  then obtain c where d: "DDT_Commit ?t [] = Some c" by blast
  show ?thesis using DDT_Commit_verified [OF b c s d] d by blast
qed

end
