(* ===== verification/Code_Origins.thy ===== *)
theory Code_Origins
  imports Code_Typed
begin

text \<open>
  The indexed block types that IR\_Verifier's rules exclude: the code of codegenIndexedBlock for
  more than 16 blocks whose blocks are copied by a loop has a phi node without an entry for
  one of the edges into its block.
\<close>

section \<open>Phi nodes without an entry\<close>

definition unjoined :: "nat \<Rightarrow> func \<Rightarrow> bool" where
  "unjoined n F \<longleftrightarrow> (\<exists>b p q. b < length F \<and> p < length F \<and> q \<in> set (phis (F ! b)) \<and> n \<le> fst q \<and>
     b \<in> set (targets (terminator (F ! p))) \<and> p \<notin> snd ` set (snd q))"

lemma unjoined_not_verified: "unjoined n F \<Longrightarrow> \<not> verified g F"
proof
  assume "unjoined n F" "verified g F"
  then obtain b p q T where b: "b < length F" "p < length F" "q \<in> set (phis (F ! b))"
    "b \<in> set (targets (terminator (F ! p)))" "p \<notin> snd ` set (snd q)" "verified_block g T F b"
    by (auto simp: unjoined_def verified_def)
  have "p \<in> set (preds F b)" using b(2,4) by (auto simp: preds_def)
  moreover have "mset (map snd (snd q)) = mset (preds F b)"
    using b(3,6) by (auto simp: verified_block_def case_prod_beta)
  then have "set (map snd (snd q)) = set (preds F b)" by (rule mset_eq_setD)
  ultimately show False using b(5) by auto
qed

lemma unjoined_mono: "unjoined n F \<Longrightarrow> k \<le> n \<Longrightarrow> unjoined k F"
  unfolding unjoined_def using le_trans by blast

lemma unjoined_grows: "unjoined n F \<Longrightarrow> grows F H \<Longrightarrow> unjoined n H"
proof -
  assume "unjoined n F" and g: "grows F H"
  then obtain b p q where b: "b < length F" "p < length F" "q \<in> set (phis (F ! b))" "n \<le> fst q"
    "b \<in> set (targets (terminator (F ! p)))" "p \<notin> snd ` set (snd q)"
    by (auto simp: unjoined_def)
  have "terminator (F ! p) \<noteq> None" using b(5) by (cases "terminator (F ! p)") simp_all
  then have "terminator (H ! p) = terminator (F ! p)" "phis (H ! b) = phis (F ! b)"
    using g b(1,2) by (auto simp: grows_def block_grows_def body_le_def)
  moreover have "length F \<le> length H" using g by (simp add: grows_def)
  ultimately show ?thesis using b unfolding unjoined_def
    by (intro exI [of _ b] exI [of _ p] exI [of _ q]) auto
qed

lemma add_all_keeps:
  "q \<in> set (phis b) \<Longrightarrow> Reg (fst q) \<notin> set rs \<Longrightarrow> q \<in> set (phis (add_all p rs as b))"
proof (induction rs arbitrary: as b)
  case (Cons r rs)
  then show ?case
  proof (cases as)
    case (Cons a as')
    let ?f = "\<lambda>(r', inc). (r', if Reg r' = r then inc @ [(a, p)] else inc)"
    have fq: "?f q = q" using Cons.prems(2) by (cases q) simp
    have "q \<in> ?f ` set (phis b)" using imageI [OF Cons.prems(1), of ?f] unfolding fq .
    then have "q \<in> set (phis (add_entry r a p b))" by (simp add: add_entry_def)
    then show ?thesis using Cons Cons.IH Cons.prems(2) by (simp add: add_all_def)
  qed (simp add: add_all_def)
qed (simp add: add_all_def)

lemma unjoined_add_all:
  assumes "unjoined n F" "\<forall>r \<in> set rs. \<exists>k < n. r = Reg k" shows "unjoined n (map (add_all p rs as) F)"
proof -
  obtain b o' q where b: "b < length F" "o' < length F" "q \<in> set (phis (F ! b))" "n \<le> fst q"
    "b \<in> set (targets (terminator (F ! o')))" "o' \<notin> snd ` set (snd q)"
    using assms(1) by (auto simp: unjoined_def)
  moreover have "Reg (fst q) \<notin> set rs" using assms(2) b(4) by auto
  ultimately show ?thesis unfolding unjoined_def
    by (intro exI [of _ b] exI [of _ o'] exI [of _ q]) (simp add: add_all_keeps)
qed

lemma blocks_footer:
  "blocks (footer_builder l p rs as c B) = map (add_all p rs as)
     ((blocks B)[cur B := (blocks B ! cur B)\<lparr>terminator := Some (CondBr c (length (blocks B)) l)\<rparr>] @ [empty_block])"
  by (simp add: footer_builder_def)

lemma footer_grows:
  assumes "wfB B3"
  shows "grows (blocks B3) ((blocks B3)[cur B3 := (blocks B3 ! cur B3)\<lparr>terminator := Some t\<rparr>] @ [empty_block])"
  using assms by (intro grows_trans [OF grows_update grows_append]) (simp add: block_grows_def body_le_def wfB_def)

section \<open>Generators that leave such a phi node\<close>

definition gen_unjoined :: "nat \<Rightarrow> nat \<Rightarrow> ty list \<Rightarrow> 'a gen \<Rightarrow> bool" where
  "gen_unjoined g c T m \<longleftrightarrow> (\<forall>B. wfT g B T \<and> cur B = c \<longrightarrow>
     extends B (snd (run_state m B)) \<and> unjoined (length T) (blocks (snd (run_state m B))))"

lemma gen_unjoined_first:
  assumes "gen_unjoined g c T m" "\<And>a. gen_ok (h a)"
  shows "gen_unjoined g c T (State_Monad.bind m h)"
  unfolding gen_unjoined_def
proof (intro allI impI)
  fix B :: builder assume B: "wfT g B T \<and> cur B = c"
  obtain a B1 where r: "run_state m B = (a, B1)" by fastforce
  have B1: "extends B B1" "unjoined (length T) (blocks B1)" using assms(1) B r by (auto simp: gen_unjoined_def)
  then have "extends B1 (snd (run_state (h a) B1))" by (intro gen_okD [OF assms(2)]) (simp add: extends_def)
  then show "extends B (snd (run_state (State_Monad.bind m h) B)) \<and>
      unjoined (length T) (blocks (snd (run_state (State_Monad.bind m h) B)))"
    using r B1 extends_trans unjoined_grows by (fastforce simp: extends_def)
qed

lemma gen_unjoined_rest:
  assumes "gen_typed g c T m Q" "\<And>a c' U. Q a c' (T @ U) \<Longrightarrow> gen_unjoined g c' (T @ U) (h a)"
  shows "gen_unjoined g c T (State_Monad.bind m h)"
  unfolding gen_unjoined_def
proof (intro allI impI)
  fix B :: builder assume B: "wfT g B T \<and> cur B = c"
  obtain a B1 where r: "run_state m B = (a, B1)" by fastforce
  obtain U where U: "wfT g B1 (T @ U)" "grown B B1" "Q a (cur B1) (T @ U)"
    using assms(1) B r unfolding gen_typed_def by fastforce
  then have B2: "extends B1 (snd (run_state (h a) B1))" "unjoined (length (T @ U)) (blocks (snd (run_state (h a) B1)))"
    using assms(2) [OF U(3)] by (auto simp: gen_unjoined_def)
  have "extends B B1" using U B wfT_wfB [OF U(1)] by (auto simp: extends_def grown_def wfT_def)
  then show "extends B (snd (run_state (State_Monad.bind m h) B)) \<and>
      unjoined (length T) (blocks (snd (run_state (State_Monad.bind m h) B)))"
    using r B2 extends_trans unjoined_mono by fastforce
qed

lemma gen_unjoined_do_while:
  assumes inits: "list_all2 (typed g T) inits ts"
    and body: "\<And>rs. list_all2 (typed g (T @ ts)) rs ts \<Longrightarrow> gen_unjoined g (Suc c) (T @ ts) (loop_body (Suc c) rs)"
  shows "gen_unjoined g c T (do_while inits loop_body)"
  unfolding gen_unjoined_def
proof (intro allI impI, elim conjE)
  fix B :: builder assume B: "wfT g B T" "cur B = c"
  have len: "length inits = length ts" using inits by (rule list_all2_lengthD)
  have n: "nextreg B = length T" "length (blocks B) = Suc c" using B by (auto simp: wfT_def)
  let ?rs = "map Reg [nextreg B..<nextreg B + length inits]" and ?H = "header_builder inits B"
  note hd = wfT_header [OF B(1) inits]
  obtain origin nexts e B3 where r: "run_state (loop_body (Suc c) ?rs) ?H = ((origin, nexts, e), B3)"
    by (metis prod_cases3 surj_pair)
  have "list_all2 (typed g (T @ ts)) ?rs ts"
    using len n by (auto simp: list_all2_conv_all_nth typed_def nth_append)
  from body [OF this] have B3: "extends ?H B3" "unjoined (length (T @ ts)) (blocks B3)"
    using hd(1,3) B(2) r unfolding gen_unjoined_def by fastforce+
  then have w3: "wfB B3" "nextreg B \<le> nextreg B3" "grows (blocks ?H) (blocks B3)"
    by (auto simp: extends_def header_builder_def)
  have run: "run_state (do_while inits loop_body) B = (nexts, footer_builder (Suc c) origin ?rs nexts e B3)"
    using w3 r n by (intro run_do_while [OF wfT_wfB [OF B(1)]]) (auto simp: wfB_def)
  have "unjoined (length (T @ ts)) (blocks (footer_builder (Suc c) origin ?rs nexts e B3))"
    unfolding blocks_footer
    using n len by (intro unjoined_add_all unjoined_grows [OF B3(2) footer_grows [OF w3(1)]]) auto
  moreover have "extends B (footer_builder (Suc c) origin ?rs nexts e B3)"
    using grows_footer [OF wfT_wfB [OF B(1)] w3(3,1,2)] n by simp
  ultimately show "extends B (snd (run_state (do_while inits loop_body) B)) \<and>
      unjoined (length T) (blocks (snd (run_state (do_while inits loop_body) B)))"
    unfolding run by (auto intro: unjoined_mono)
qed

text \<open>A loop whose body names another block than the one it ends in.\<close>

lemma gen_unjoined_origin:
  assumes inits: "list_all2 (typed g T) inits ts" "ts \<noteq> []"
    and body: "\<And>rs. list_all2 (typed g (T @ ts)) rs ts \<Longrightarrow>
      gen_typed g (Suc c) (T @ ts) (loop_body (Suc c) rs) (\<lambda>(origin, nexts, e) c' T'.
        origin \<noteq> c' \<and> length nexts = length ts)"
  shows "gen_unjoined g c T (do_while inits loop_body)"
  unfolding gen_unjoined_def
proof (intro allI impI, elim conjE)
  fix B :: builder assume B: "wfT g B T" "cur B = c"
  have len: "length inits = length ts" using inits(1) by (rule list_all2_lengthD)
  have n: "nextreg B = length T" "length (blocks B) = Suc c" using B by (auto simp: wfT_def)
  let ?rs = "map Reg [nextreg B..<nextreg B + length inits]" and ?H = "header_builder inits B"
  note hd = wfT_header [OF B(1) inits(1)]
  obtain origin nexts e B3 where r: "run_state (loop_body (Suc c) ?rs) ?H = ((origin, nexts, e), B3)"
    by (metis prod_cases3 surj_pair)
  have "list_all2 (typed g (T @ ts)) ?rs ts"
    using len n by (auto simp: list_all2_conv_all_nth typed_def nth_append)
  from body [OF this] obtain U where B3: "wfT g B3 ((T @ ts) @ U)" "grown ?H B3" "origin \<noteq> cur B3" "length nexts = length ts"
    using hd(1,3) B(2) r unfolding gen_typed_def by fastforce
  have w3: "wfB B3" "nextreg B \<le> nextreg B3" "grows (blocks ?H) (blocks B3)"
    using wfT_wfB [OF B3(1)] B3(1,2) n by (auto simp: grown_def wfT_def)
  let ?B5 = "footer_builder (Suc c) origin ?rs nexts e B3"
  have run: "run_state (do_while inits loop_body) B = (nexts, ?B5)"
    using w3 r n by (intro run_do_while [OF wfT_wfB [OF B(1)]]) (auto simp: wfB_def)
  obtain i ys a zs where ia: "inits = i # ys" "nexts = a # zs" using len B3(4) inits(2) by (metis length_0_conv list.exhaust)
  have l3: "Suc c < length (blocks B3)" "cur B3 < length (blocks B3)"
    using w3 hd(1,3) B(2) by (auto simp: grows_def wfT_def wfB_def)
  have dis: "distinct ?rs" by (simp add: distinct_map inj_on_def)
  have ne: "cur B3 \<noteq> c"
  proof
    assume "cur B3 = c"
    moreover have "terminator (blocks ?H ! c) = Some (Br (Suc c))" using B n by (simp add: header_builder_def nth_append)
    moreover have "c < length (blocks ?H)" using hd(1,3) B(2) by (simp add: wfT_def)
    ultimately show False using w3(1,3) by (auto simp: grows_def block_grows_def body_le_def wfB_def)
  qed
  have "phis (blocks B3 ! Suc c) = phis (blocks ?H ! Suc c)"
    using w3(3) hd(1,3) B(2) by (simp add: grows_def block_grows_def wfT_def)
  also have "\<dots> = zip [nextreg B..<nextreg B + length inits] (map (\<lambda>a. [(a, c)]) inits)"
    using n B(2) by (simp add: header_builder_def nth_append)
  finally have "(nextreg B, [(i, c)]) \<in> set (phis (blocks B3 ! Suc c))"
    using ia by (simp add: upt_conv_Cons del: upt_Suc)
  moreover have "blocks ?B5 ! Suc c = add_all origin ?rs nexts (((blocks B3)[cur B3 := (blocks B3 ! cur B3)
      \<lparr>terminator := Some (CondBr e (length (blocks B3)) (Suc c))\<rparr>]) ! Suc c)"
    using l3 by (simp add: footer_builder_def nth_append)
  then have "phis (blocks ?B5 ! Suc c) = phis (add_all origin ?rs nexts (blocks B3 ! Suc c))"
    using l3 by (cases "cur B3 = Suc c") (simp_all add: add_all_phis [OF dis] nth_list_update)
  moreover have "map_of (zip ?rs nexts) (Reg (nextreg B)) = Some a"
    unfolding ia by (simp add: upt_conv_Cons del: upt_Suc)
  ultimately have q: "(nextreg B, [(i, c), (a, origin)]) \<in> set (phis (blocks ?B5 ! Suc c))"
    unfolding add_all_phis [OF dis] by (auto intro!: image_eqI [where x = "(nextreg B, [(i, c)])"])
  have "blocks ?B5 ! cur B3 = add_all origin ?rs nexts ((blocks B3 ! cur B3)\<lparr>terminator := Some (CondBr e (length (blocks B3)) (Suc c))\<rparr>)"
    using l3 by (simp add: footer_builder_def nth_append)
  then have "unjoined (length T) (blocks ?B5)"
    unfolding unjoined_def using q ne B3(3) n l3
    by (intro exI [of _ "Suc c"] exI [of _ "cur B3"] exI [of _ "(nextreg B, [(i, c), (a, origin)])"])
      (auto simp: footer_builder_def)
  moreover have "extends B ?B5"
    using grows_footer [OF wfT_wfB [OF B(1)] w3(3,1,2)] n by simp
  ultimately show "extends B (snd (run_state (do_while inits loop_body) B)) \<and>
      unjoined (length T) (blocks (snd (run_state (do_while inits loop_body) B)))"
    unfolding run by simp
qed

lemma gen_unjoined_emit:
  assumes "defs (f (length T)) = [length T]" "instr_typed g (T @ [t]) (\<lambda>r. r < length T) (f (length T))"
    "gen_unjoined g c (T @ [t]) (h (Reg (length T)))"
  shows "gen_unjoined g c T (State_Monad.bind (emit f) h)"
  by (rule gen_unjoined_rest [OF gen_typed_emit_op [where f = f, OF assms(1,2)]]) (use assms(3) in simp)

lemma gen_unjoined_ops:
  "typed g T a Ptr \<Longrightarrow> gen_unjoined g c (T @ [I64]) (h (Reg (length T))) \<Longrightarrow>
     gen_unjoined g c T (State_Monad.bind (CreatePtrToInt a) h)"
  "typed g T a I32 \<Longrightarrow> gen_unjoined g c (T @ [I64]) (h (Reg (length T))) \<Longrightarrow>
     gen_unjoined g c T (State_Monad.bind (CreateZExt a) h)"
  "typed g T a I64 \<Longrightarrow> typed g T b I64 \<Longrightarrow> gen_unjoined g c (T @ [I64]) (h (Reg (length T))) \<Longrightarrow>
     gen_unjoined g c T (State_Monad.bind (CreateMul a b) h)"
  "typed g T a I64 \<Longrightarrow> typed g T b I64 \<Longrightarrow> gen_unjoined g c (T @ [I64]) (h (Reg (length T))) \<Longrightarrow>
     gen_unjoined g c T (State_Monad.bind (CreateAdd a b) h)"
  unfolding emit_defs typed_def
  by (auto intro!: gen_unjoined_emit intro: operand_typed_append)

section \<open>Indexed block types\<close>

text \<open>Code that goes on in a later block when it is called with the block length.\<close>

definition emitter_loops :: "nat \<Rightarrow> int \<Rightarrow> emitter \<Rightarrow> bool" where
  "emitter_loops g l code \<longleftrightarrow> (\<forall>a b c T. typed g T a Ptr \<longrightarrow> typed g T b Ptr \<longrightarrow>
     gen_typed g c T (code a (constNode l) b) (\<lambda>_ c' _. c < c'))"

lemma directed_loops:
  assumes "emitter_loops g l (base pack)" "typed g T a Ptr" "typed g T b Ptr"
    and "\<And>c' U. c < c' \<Longrightarrow> gen_typed g c' (T @ U) (h ()) Q"
  shows "gen_typed g c T (State_Monad.bind (if pack then base True a (constNode l) b else base False b (constNode l) a) h) Q"
  using assms by (cases pack) (auto intro!: gen_typed_bind [where Q = "\<lambda>_ c' _. c < c'"] simp: emitter_loops_def)

lemma idxb_moves_loops:
  assumes "emitter_loops g l (bt_codegen base pack)" "typed g T arr Table"
    and "typed g T nc I64" "typed g T i I64" "typed g T x I64"
    and "\<And>i x U c'. c < c' \<Longrightarrow> typed g (T @ U) i I64 \<Longrightarrow> typed g (T @ U) x I64 \<Longrightarrow> gen_typed g c' (T @ U) (h (i, x)) Q"
  shows "gen_typed g c T (State_Monad.bind (idxb_moves IDXB_LOOP_UNROLL pack arr nc base l i x) h) Q"
proof (rule gen_typed_bind [where Q = "\<lambda>(i, x) c' T'. c < c' \<and> typed g T' i I64 \<and> typed g T' x I64"])
  have ret: "c < c' \<Longrightarrow> typed g T' i I64 \<Longrightarrow> typed g T' x I64 \<Longrightarrow> gen_typed g c' T' (State_Monad.return (i, x))
      (\<lambda>(i, x) c' T'. c < c' \<and> typed g T' i I64 \<and> typed g T' x I64)" for c' T' i x
    by (simp add: gen_typed_return)
  show "gen_typed g c T (idxb_moves IDXB_LOOP_UNROLL pack arr nc base l i x)
      (\<lambda>(i, x) c' T'. c < c' \<and> typed g T' i I64 \<and> typed g T' x I64)"
    unfolding IDXB_LOOP_UNROLL_def One_nat_def idxb_moves.simps
    by (assumption | rule typing directed_loops [where base = "bt_codegen base", OF assms(1)] assms(2-5) ret
      | rule typed_mono)+
qed (use assms(6) in auto)

lemma codegenIndexedBlock_unjoined:
  assumes n: "IDXB_LOOP_TRESHOLD < n" and base: "emitter_loops g l (bt_codegen base pack)" and arr: "the arr < g"
    and T: "typed g T a Ptr" "typed g T b Ptr" "typed g T k I32"
  shows "gen_unjoined g c T (codegenIndexedBlock a b k x sz n l base ds arr pack)"
  unfolding codegenIndexedBlock_def if_P [OF n]
  apply (rule gen_unjoined_ops T typing | rule typed_mono)+
  apply (rule gen_unjoined_first)
   apply (rule gen_unjoined_do_while [where ts = "[I64, I64]"])
    apply (rule typing | rule typed_mono)+
   apply (clarsimp simp only: list_all2_Cons2 list_all2_Nil2 nth_phis)
   apply (rule gen_unjoined_first)
    apply (rule gen_unjoined_origin [where ts = "[I64, I64]"])
      apply (rule typing | assumption | rule typed_mono)+
     apply simp
    apply (clarsimp simp only: list_all2_Cons2 list_all2_Nil2 nth_phis)
    apply (rule idxb_moves_loops [OF base])
        apply (rule typing arr | assumption | rule typed_mono)+
    apply (simp only: prod.case)
    apply (rule typing | assumption | rule typed_mono)+
    apply (rule gen_typed_return, simp)
   apply (intro gen_mono)
  apply (intro gen_mono)
  done

lemma verified_not_unjoined:
  assumes "gen_unjoined g 0 [Ptr, I32, Ptr] (code (Reg 0) (Reg 1) (Reg 2))"
  shows "\<not> verified h (build_function code)"
proof -
  let ?B = "\<lparr>blocks = [empty_block], cur = 0, nextreg = 3\<rparr>"
  obtain B1 where r: "run_state (code (Reg 0) (Reg 1) (Reg 2)) ?B = ((), B1)"
    by (cases "run_state (code (Reg 0) (Reg 1) (Reg 2)) ?B") auto
  have "wfT g ?B [Ptr, I32, Ptr]" by (rule wfT_start)
  then have B1: "wfB B1" "unjoined (length [Ptr, I32, Ptr]) (blocks B1)" using assms r by (fastforce simp: gen_unjoined_def extends_def)+
  have "grows (blocks B1) (blocks (set_terminator RetVoid B1))"
    using B1(1) unfolding set_terminator_def by (auto simp: wfB_def block_grows_def body_le_def intro!: grows_update)
  with B1(2) have "unjoined (length [Ptr, I32, Ptr]) (blocks (set_terminator RetVoid B1))" by (rule unjoined_grows)
  then have "\<not> verified h (blocks (set_terminator RetVoid B1))" by (rule unjoined_not_verified)
  then show ?thesis using r by (simp add: build_function_def createFunctionHeader_def CreateRetVoid_def)
qed

text \<open>Every class but the resized types has a loop, and the primitive types when the run is long.\<close>

lemma class_loops:
  assumes t: "emittable G t" and l: "\<not> copied_straight l t" and r: "\<forall>d b. t \<noteq> Resized d b"
  shows "emitter_loops (length G) l (packCodegen t) \<and> emitter_loops (length G) l (unpackCodegen t)"
proof (cases "\<exists>d p. t = Primitive d p")
  case True
  then obtain d p where p: "t = Primitive d p" by blast
  then have "copies_in_loop (sint (word_of_int l :: i32)) (getSize t)" using l by simp
  then show ?thesis
    using gen_typed_codegenPrimitive_const [of "length G" _ _ _ _ "sint (word_of_int l :: i32)" "getSize t"]
    by (simp add: p emitter_loops_def codegen_defs codegenPrimitive_def constNode_def)
next
  case False
  have "class_typed (length G) s" if "s \<in> set (getSubtypes t)" for s
    using class_typed [OF emittable_subtype [OF t that]] .
  then have "emitter_moves (length G) (packCodegen t) \<and> emitter_moves (length G) (unpackCodegen t)"
    using emittable_moves [OF t] r False by blast
  then show ?thesis by (auto simp: emitter_moves_def emitter_loops_def typing)
qed

text \<open>
  C31: an indexed block type of more than 16 blocks whose blocks are copied by a loop (a basetype
  with a loop of its own, or a primitive run of 512 bytes), of a basetype that is not resized
  and in which no long indexed block type has such a loop itself, is compiled to two functions that break
  the rules of LLVM's verifier: codegenIndexedBlock adds the phi entries of the back edge for the
  block the inner loop starts with, and the back edge comes from the last block of the basetype's loop.
\<close>

theorem indexed_block_wrong_origin:
  assumes "built t" "compress t = Some (IndexedBlock d n l displs b arr)" "DDT_Commit t G = Some c"
    and "IDXB_LOOP_TRESHOLD < n" "short_blocks b" "\<not> copied_straight l b" "\<forall>d s. b \<noteq> Resized d s"
  shows "\<not> verified g (fpack c) \<and> \<not> verified g (funpack c)"
proof -
  let ?t = "IndexedBlock d n l displs b arr"
  have bt: "built ?t" using assms(1,2) by (rule compress_built)
  obtain t2 G2 where g: "globalCodegen ?t G = (t2, G2)" by force
  have e: "erase t2 = ?t" "tables G2 t2"
    using globalCodegen_built [OF bt g] by simp_all
  obtain b2 arr2 where t2: "t2 = IndexedBlock d n l displs b2 arr2" "erase b2 = b"
    using e(1) by (cases t2) auto
  have sb: "short_blocks b2" "\<not> copied_straight l b2" using assms(5,6) short_blocks_erase [of b2] copied_straight_erase [of l b2] t2(2) by simp_all
  have nr: "\<forall>d s. b2 \<noteq> Resized d s" using assms(7) t2(2) by auto
  have arr: "the arr2 < length G2" "tables G2 b2" using e(2) assms(4) by (auto simp: t2(1) split: option.splits)
  have "built (erase b2)" using built_subtype [OF bt, of b] t2(2) by simp
  then have "emittable G2 b2" using sb(1) arr(2) by (simp add: emittable_def)
  note loops = class_loops [OF this sb(2) nr]
  have args: "typed (length G2) [Ptr, I32, Ptr] (Reg 0) Ptr" "typed (length G2) [Ptr, I32, Ptr] (Reg 1) I32"
    "typed (length G2) [Ptr, I32, Ptr] (Reg 2) Ptr" by (simp_all add: typed_def)
  have "gen_unjoined (length G2) 0 [Ptr, I32, Ptr] (packCodegen t2 (Reg 0) (Reg 1) (Reg 2))"
    "gen_unjoined (length G2) 0 [Ptr, I32, Ptr] (unpackCodegen t2 (Reg 0) (Reg 1) (Reg 2))"
    unfolding t2(1) using loops args arr(1) assms(4)
    by (auto simp: codegen_defs methods_def info_def intro!: codegenIndexedBlock_unjoined)
  moreover have "c = \<lparr>fpack = build_function (packCodegen t2), funpack = build_function (unpackCodegen t2), module_globals = G2\<rparr>"
    using assms(2,3) g by (simp add: DDT_Commit_def compile_def)
  ultimately show ?thesis using verified_not_unjoined by simp
qed

theorem indexed_block_wrong_origin_witness:
  "\<exists>c. DDT_Commit (IndexedBlockDatatype 17 1 seventeen (VectorDatatype 2 1 3 (PrimitiveDatatype INTEGER))) [] = Some c \<and>
     \<not> verified (length (module_globals c)) (fpack c) \<and> \<not> verified (length (module_globals c)) (funpack c)"
proof -
  let ?b = "VectorDatatype 2 1 3 (PrimitiveDatatype INTEGER)"
  let ?t = "IndexedBlockDatatype 17 1 seventeen ?b"
  have b: "built ?t" by (intro built.intros) (simp add: seventeen_def)
  have c: "compress ?t = Some (IndexedBlock (dims_of ?t) 17 1 seventeen ?b None)" by code_simp
  have s: "short_blocks ?b" "\<not> copied_straight 1 ?b" "IDXB_LOOP_TRESHOLD < 17" by code_simp+
  have r: "\<forall>d s. ?b \<noteq> Resized d s" by (simp add: ctor_defs new_Vector_def Let_def)
  have "\<exists>c. DDT_Commit ?t [] = Some c" by (simp add: DDT_Commit_def compile_def c)
  then obtain c where d: "DDT_Commit ?t [] = Some c" by blast
  show ?thesis using indexed_block_wrong_origin [OF b c d s(3,1,2) r] d by blast
qed

end
