(* ===== verification/Spec2Isabelle.thy ===== *)
theory Spec2Isabelle
  imports DDT_Correct Limits LPK_Interface MPI_Tables MPI_Requests Player_Text Player_Report Copy_Runs Code_Origins
begin

text \<open>
  libpack packs and unpacks MPI datatypes with code that it generates for each datatype.

  \<^bold>\<open>The program and its parts.\<close>  A program describes the layout of its data by a tree of
  datatypes (the classes of ddt\_jit.hpp and ddt\_jit.cpp).  Committing a datatype (DDT\_Commit)
  compresses the tree and emits an LLVM function that packs and one that unpacks, by the code
  generators of codegen\_*.cpp; DDT\_Pack and DDT\_Unpack call them.  Two interfaces lead there:
  the C functions of pack.h and pack.cpp (LPK\_...), and the MPI functions of interposer.c and
  interposer\_common.cpp, which replace those of an MPI library: they keep tables from handles to
  datatypes, pack into message buffers, call the library below (PMPI\_...), and unpack when the
  message has arrived.  ddtplayer reads datatypes from a text and compares the library with MPI;
  copy\_benchmark compares routines that copy memory.

  \<^bold>\<open>The theories.\<close>
  \<^item> \<open>Prelude\<close>: words, memory as a partial map from addresses to bytes, lists of byte copies.
  \<^item> \<open>LLVM_IR\<close>, \<open>IR_Builder\<close>: the instructions that the generators emit, with the meaning the
    LLVM language reference gives them, and the IRBuilder with the helpers of codegen\_common.cpp, as
    emitters that append to the function under construction.  \<open>Emit_Logic\<close>, \<open>Emit_Rules\<close>:
    one rule for each builder operation, by which emitted code is executed; \<open>Layout\<close>: lists of
    displacements, and the locale \<open>bytecode\<close>, what a code generator needs to know of the one of
    its basetype.
  \<^item> \<open>Datatypes\<close>: the eight classes as the type \<open>ddt\<close> with the fields the code stores, constructors,
    getters, clone.  \<open>Typemap\<close>: the type map of the MPI standard as a specification, and the
    datatypes whose stored size and bounds are those of the standard.
  \<^item> \<open>Codegen_Primitive\<close>, \<open>Codegen_Vector\<close>, \<open>Codegen_Indexed\<close>: the code generators, each with the
    proof that its code moves the bytes of the layout.
  \<^item> \<open>Compile\<close>: compress, globalCodegen, packCodegen, unpackCodegen, compile, DDT\_Commit, DDT\_Pack and
    DDT\_Unpack.  \<open>Compile_Correct\<close>: by induction over the datatype the code moves its type map;
    \<open>Compress_Correct\<close>: compression keeps the type map; \<open>DDT_Correct\<close>: both together, as the
    interpretation of the locale \<open>marshalling\<close> under which clients pack and unpack;
    \<open>Limits\<close>: where the code departs from the standard.
  \<^item> \<open>IR_Verifier\<close>: the rules that the verifier of LLVM asks for, as the predicate \<open>verified\<close>:
    registers defined once, of one type, in a block that dominates every use, and one phi entry
    for each edge.  \<open>IR_Typing\<close>: one rule for each builder operation, by which emitted code is
    typed; \<open>Code_Typed\<close>: the code of every datatype is verified, also where it moves the wrong bytes;
    \<open>Code_Origins\<close>: the one generator whose code is not, for long indexed blocks.
  \<^item> \<open>Objects\<close>: datatype objects behind pointers, with code or without; a second interpretation of
    \<open>marshalling\<close>.  \<open>LPK_Interface\<close>: the LPK functions, and what a program of constructor calls
    makes its variables denote.
  \<^item> \<open>Interposer\<close>: the tables, buffers and requests of interposer\_common.cpp.  \<open>Handle_Table\<close>: the
    contract of the table of handles as a locale.  \<open>MPI_Interface\<close>: the MPI functions.
    \<open>MPI_Process\<close>: a process that calls them as a step relation, with its invariants.
    \<open>MPI_Types\<close>, \<open>MPI_Transfer\<close>, \<open>MPI_Messages\<close>, \<open>MPI_Requests\<close>: what a program sees of datatypes, of
    messages, and of several operations in the background.  \<open>MPI_Tables\<close>: the tables of handles stay
    in order in a program whose frees are tidy.
  \<^item> \<open>Ddt_Text\<close>, \<open>Player_Text\<close>: toString, and the lexer and the grammar of ddtplayer, which reads its
    text back.  \<open>Player_Report\<close>: the runs and comparisons of ddtplayer.cpp with an MPI library.
  \<^item> \<open>Copy_Benchmark\<close>, \<open>Copy_Runs\<close>: the copy routines of copy\_benchmark.c against memcpy, and the
    runs of one size.

  This theory has the properties of the compiler, from DDT\_Commit to the bytes in memory.

  \<^bold>\<open>How the code is modelled.\<close>  A failed assert, undefined behaviour and an access outside the
  allocated bytes are None.  Addresses and size\_t are words of 64 bits and counts at run time
  words of 32 bits, which wrap around.  The int fields of a datatype are integers: they are
  those of the code only while no int computation of a constructor (new\_Vector and the others)
  overflows, which no hypothesis asks for.  \<open>fits\<close> bounds the sizes of all datatypes, but extents only
  of indexed types and structs: VectorDatatype 2 1 600000000 of an INTEGER fits, with an extent
  that the code cannot store.  In the same way the size of a message (buf\_size of
  interposer\_buffer\_alloc) is an integer, which is that of the code for messages below 2 GB.
  A long that is stored in an int is truncated (\<open>int_of_long\<close>).  The counters of the loops in the
  grammar of the player are ints: an overflow is an error (\<open>Int_Overflow\<close>).  A compiled
  function runs with a number of steps as fuel: the properties say that some number is enough,
  and that every larger one gives the same result.  Loops that may not end are partial
  functions, whose result is then None.

  \<^bold>\<open>What the properties ask for.\<close>  \<open>built\<close>: made by the constructors.  \<open>regular\<close>: positive counts,
  block lengths, strides and extents, block length 1 in an indexed block, lower bound 0 below
  indexed types and structs.  \<open>handled\<close>: the datatypes for which code is emitted and is right in
  the direction asked for: it leaves out most resized types, and indexed blocks of a basetype with
  gaps, whose displacements the code for few blocks scales by the size.  \<open>separate\<close>: both buffers are allocated and
  share no byte.  \<open>short_blocks\<close>: no indexed block type of more than 16 blocks copies its blocks by a loop.
  \<open>tables\<close>, with \<open>tables_ok\<close>: the tables of the interposer are in order, in particular the fallback handles
  are 50, 51, \<dots> without a gap.  The tables are so in every state of a program that frees only
  handles in use, and of the fallback handles only the newest, while the handles stay below those of
  the MPI library (\<open>MPI_Tables\<close>, lemma \<open>tidy_in_order\<close>); freeing an older fallback handle leaves a
  gap, and a handle in use is given out next (C32).
  \<open>finishable\<close>, \<open>no_clash\<close>: the buffers and the user's data of requests are allocated and disjoint.
  \<open>centred\<close>: the bytes of a datatype are within two extents around the middle of the buffer of
  four extents in which the player works, four extents are an int, and no two bytes overlap; a
  regular datatype need not be centred (\<open>not_centred\<close>).  \<open>ends_in_int\<close>: a loop over a range
  of the player's notation ends before its counter leaves the ints.
  \<open>handles_ok\<close>: no variable of the caller of the LPK functions has the address of an object yet to be made.
  \<open>Limits\<close> proves what the code does outside these conditions.

  \<^bold>\<open>Parameters.\<close>  malloc, memalign, rand and the clock of the C library, the constants of mpi.h, the PMPI
  functions and the MPI library of the player are arguments of the definitions.  The hypotheses on them (\<open>buffers_apart\<close>, \<open>serves\<close>: a
  new block was not in use; \<open>arrives\<close>, \<open>carries\<close>, \<open>arrives_later\<close>, \<open>delivered\<close>: the library delivers the
  bytes it was given; \<open>conforms\<close>: an MPI library implements the type map; \<open>room\<close>: malloc serves the
  player's buffers; that PMPI\_Testall sets all requests to null or none, as the standard asks) hold for concrete functions in the witnesses.

  \<^bold>\<open>Not modelled.\<close>  DDT\_Init, DDT\_Finalize and postProcessFunction, which only set LLVM up; the
  generators for PACKVAR 2 and 3, LAZY, LLVM\_OPTIMIZE and the prefetch instructions, which are not
  compiled in the configuration that is built; the Fortran bindings, which forward to the C
  functions; the clock and the printed times of copy\_benchmark and ddtplayer, the calibration of
  hrtimer and its variants for other processors; the MPI datatypes that the grammar of ddtplayer
  makes beside its own, which \<open>Player_Report\<close> takes as given; the benchmarks and tests.  A number in
  the input of the player that does not fit an int has no result, since atoi is not defined for it.
\<close>

section \<open>A vector, and a memory of 128 bytes\<close>

definition ex_vector :: ddt where
  "ex_vector = VectorDatatype 2 1 2 (PrimitiveDatatype INTEGER)"

definition ex_code :: compiled where
  "ex_code = the (DDT_Commit ex_vector [])"

definition ex_mem :: mem where
  "ex_mem a = (if a < 128 then Some (ucast a) else None)"

lemma ex_vector_ok: "built ex_vector" "regular ex_vector" "fits ex_vector" "handled True ex_vector" "handled False ex_vector"
  by (simp add: ex_vector_def built.intros) code_simp+

lemma ex_code: "DDT_Commit ex_vector [] = Some ex_code"
  using commit_ready [OF ex_vector_ok(1-3), of "[]"] unfolding ex_code_def by (metis option.sel)

lemma two: "(0 :: i32) <s 2" by code_simp

lemma ex_layout: "lay ex_vector (unat (2 :: i32)) = [0,1,2,3,8,9,10,11,12,13,14,15,20,21,22,23]"
  by code_simp

lemma ex_separate: "separate ex_mem 0 (lay ex_vector (unat (2 :: i32))) 64"
    "separate ex_mem 32 (lay ex_vector (unat (2 :: i32))) 64" "distinct (data_at 32 (lay ex_vector (unat (2 :: i32))))"
  unfolding ex_layout by code_simp+

section \<open>Packing and unpacking\<close>

text \<open>
  C1: The function compiled for a datatype packs it: for every positive count and enough
  steps, DDT\_Pack returns with the bytes of the typed buffer, in the order of the type map
  of the MPI standard, in a row in the output buffer, and no other byte changed.
\<close>

theorem DDT_Pack_gathers:
  assumes "built t" "regular t" "fits t" "handled True t" "DDT_Commit t llmod = Some c" "0 <s n"
    and "separate m inbuf (lay t (unat n)) outbuf"
  shows "\<exists>m' k. (\<forall>j \<ge> k. DDT_Pack j inbuf outbuf c n m = Some m') \<and>
    written m (run_at outbuf (length (lay t (unat n)))) (bytes_of m (data_at inbuf (lay t (unat n)))) m'"
  using ddt.pack_spec [of "(t, c)" n m inbuf outbuf] assms by (auto simp: committed_def)

theorem DDT_Pack_gathers_witness:
  "\<exists>m' k. DDT_Pack k 0 64 ex_code 2 ex_mem = Some m' \<and>
    written ex_mem (run_at 64 16) (map Some [0,1,2,3,8,9,10,11,12,13,14,15,20,21,22,23]) m'"
proof -
  have "bytes_of ex_mem (data_at 0 (lay ex_vector (unat (2 :: i32)))) = map Some [0,1,2,3,8,9,10,11,12,13,14,15,20,21,22,23]"
    "length (lay ex_vector (unat (2 :: i32))) = 16" unfolding ex_layout by code_simp+
  then show ?thesis
    using DDT_Pack_gathers [OF ex_vector_ok(1-4) ex_code two ex_separate(1)] by (metis order.refl)
qed

text \<open>
  C2: The function compiled to unpack a datatype puts the bytes of the packed buffer at the
  displacements of the type map and changes no other byte, when the elements of the typed
  buffer do not overlap.
\<close>

theorem DDT_Unpack_scatters:
  assumes "built t" "regular t" "fits t" "handled False t" "DDT_Commit t llmod = Some c" "0 <s n"
    and "separate m outbuf (lay t (unat n)) inbuf" "distinct (data_at outbuf (lay t (unat n)))"
  shows "\<exists>m' k. (\<forall>j \<ge> k. DDT_Unpack j inbuf outbuf c n m = Some m') \<and>
    written m (data_at outbuf (lay t (unat n))) (bytes_of m (run_at inbuf (length (lay t (unat n))))) m'"
  using ddt.unpack_spec [of "(t, c)" n m outbuf inbuf] assms by (auto simp: committed_def)

theorem DDT_Unpack_scatters_witness:
  "\<exists>m' k. DDT_Unpack k 64 32 ex_code 2 ex_mem = Some m' \<and>
    written ex_mem (data_at 32 (lay ex_vector (unat (2 :: i32)))) (bytes_of ex_mem (run_at 64 16)) m'"
proof -
  have "length (lay ex_vector (unat (2 :: i32))) = 16" unfolding ex_layout by code_simp
  then show ?thesis
    using DDT_Unpack_scatters [OF ex_vector_ok(1-3,5) ex_code two ex_separate(2,3)] by (metis order.refl)
qed

text \<open>
  C3: Packing a typed buffer and unpacking the message into another one copies the value:
  the bytes of the second buffer are then those of the first.
\<close>

theorem pack_unpack_roundtrip:
  assumes "built t" "regular t" "fits t" "handled True t" "handled False t" "DDT_Commit t llmod = Some c" "0 <s n"
    and "separate m src (lay t (unat n)) buf" "separate m dst (lay t (unat n)) buf"
    and "distinct (data_at dst (lay t (unat n)))"
  shows "\<exists>m1 m2 k. (\<forall>j \<ge> k. DDT_Pack j src buf c n m = Some m1 \<and> DDT_Unpack j buf dst c n m1 = Some m2) \<and>
    bytes_of m2 (data_at dst (lay t (unat n))) = bytes_of m (data_at src (lay t (unat n)))"
  using ddt.copy_typed [of "(t, c)" n m src buf dst] assms by (auto simp: committed_def)

theorem pack_unpack_roundtrip_witness:
  "\<exists>m1 m2 k. DDT_Pack k 0 64 ex_code 2 ex_mem = Some m1 \<and> DDT_Unpack k 64 32 ex_code 2 m1 = Some m2 \<and>
    bytes_of m2 (data_at 32 (lay ex_vector (unat (2 :: i32)))) = bytes_of ex_mem (data_at 0 (lay ex_vector (unat (2 :: i32))))"
  using pack_unpack_roundtrip [OF ex_vector_ok ex_code two ex_separate] by (metis order.refl)


section \<open>Committing a datatype\<close>

text \<open>
  C6: Committing a regular datatype that fits an int always succeeds: no assert of the
  compression fails, and the module keeps the tables it had.
\<close>

theorem DDT_Commit_total:
  assumes "built t" "regular t" "fits t"
  shows "\<exists>c X. DDT_Commit t llmod = Some c \<and> module_globals c = llmod @ X"
proof -
  obtain t' where t': "compress t = Some t'" "compressed t t'" using compress_correct [OF assms] by blast
  obtain t'' G where g: "globalCodegen t' llmod = (t'', G)" by force
  have "built (erase t')" using t'(2) by (simp add: compressed_def erase_built)
  then show ?thesis
    using globalCodegen_tables(1) [OF _ g] by (auto simp: DDT_Commit_def compile_def t'(1) g)
qed

theorem DDT_Commit_total_witness: "\<exists>c. DDT_Commit ex_vector [[1], [2, 3]] = Some c \<and> take 2 (module_globals c) = [[1], [2, 3]]"
  using DDT_Commit_total [OF ex_vector_ok(1-3), of "[[1], [2, 3]]"] by auto

text \<open>
  C5: The compressed datatype has the type map of the original, with its size and bounds,
  whatever contiguous types were merged and vectors turned into contiguous types.
\<close>

theorem compress_keeps_typemap:
  assumes "built t" "regular t" "fits t"
  shows "\<exists>t'. compress t = Some t' \<and> mpi t' = mpi t \<and> getSize t' = getSize t \<and>
    getLowerBound t' = getLowerBound t \<and> getExtent t' = getExtent t"
  using compress_correct [OF assms] compressed_dims [OF _ built_sound [OF assms(1,2)]]
  by (auto simp: compressed_def)

theorem compress_keeps_typemap_witness:
  "\<exists>t'. compress (VectorDatatype 4 6 6 (ContiguousDatatype 2 (PrimitiveDatatype DOUBLE))) = Some t' \<and>
    mpi t' = mpi (VectorDatatype 4 6 6 (ContiguousDatatype 2 (PrimitiveDatatype DOUBLE))) \<and> getDatatypeName t' = CONTIGUOUS"
proof -
  let ?t = "VectorDatatype 4 6 6 (ContiguousDatatype 2 (PrimitiveDatatype DOUBLE))"
  have "built ?t" by (simp add: built.intros)
  moreover have "regular ?t" "fits ?t" "getDatatypeName (the (compress ?t)) = CONTIGUOUS" by code_simp+
  ultimately show ?thesis using compress_keeps_typemap [of ?t] by auto
qed



text \<open>
  C9: The unrolled vector moves and the copy loop that codegenPrimitive emits for a count
  known when the code is generated do what one memcpy of that many elements does.
\<close>

theorem codegenPrimitive_is_memcpy:
  assumes "0 < n" "n < 2 ^ 31" "k = store_size (toLLVMType type)" "separate m p (map int [0..<nat n * k]) q"
  shows "\<exists>j0. \<forall>j \<ge> j0. call G (build_function (\<lambda>a _ b. codegenPrimitive a (constNode n) b (int k) type)) j p w q m =
    mem_copy m q p (nat n * k) \<and> mem_copy m q p (nat n * k) \<noteq> None"
proof -
  let ?w = "word_of_int n :: i32"
  have w: "unat ?w = nat n" "0 <s ?w" using count32 assms(1,2) by auto
  have cp: "copyable (seg q p (nat n * k)) m"
    using assms(4) copyable_separate(1) [of p q "map int [0..<nat n * k]" m] by (simp add: xfer_upto)
  have "\<exists>j0. \<forall>j \<ge> j0. call G (build_function (\<lambda>a _ b. codegenPrimitive a (constNode n) b (int k) type)) j p w q m =
    Some (cps (seg q p (nat n * k)) m)"
    using cp w unfolding assms(3)
    by (intro call_emitted [OF _ refl]) (auto intro!: gen_mono emits_codegenPrimitive [where w = ?w, unfolded w(1)])
  then show ?thesis using mem_copy_seg [OF cp] by simp
qed

theorem codegenPrimitive_is_memcpy_witness:
  "\<exists>j. call [] (build_function (\<lambda>a _ b. codegenPrimitive a (constNode 7) b 8 DOUBLE)) j 0 0 64 ex_mem = mem_copy ex_mem 64 0 56"
proof -
  have "separate ex_mem 0 (map int [0..<nat 7 * 8]) 64" by code_simp
  then show ?thesis using codegenPrimitive_is_memcpy [of 7 8 DOUBLE ex_mem 0 64 "[]" 0] by fastforce
qed

end
